(* ===== verification/Prelude.thy ===== *)
theory Prelude
  imports Main "HOL-Library.Word" "HOL-Library.Sublist"
begin

text \<open>
  Shared by every component: the names of the model's basic types, the collections of
  simplification rules the component proofs use, the oracle for operating-system
  failures, and generic lemmas on lists.
\<close>

section \<open>Collections of rules\<close>

named_theorems str_simps \<open>equations of the string functions of the Go library\<close>
named_theorems journal_simps \<open>effect of the journal's operations on its fields\<close>
named_theorems send_simps \<open>effect of the sender's operations on its fields\<close>
named_theorems dump_simps \<open>effect of the dumper's operations on its files\<close>
named_theorems coll_simps \<open>effect of the collector's operations on its tables\<close>

section \<open>Basic types\<close>

text \<open>
  A Go string is a sequence of bytes, as is a \<^typ>\<open>string\<close> of HOL (a character is one byte).
  Instants and durations are nanoseconds, as \<open>time.Duration\<close> counts them.
\<close>

type_synonym bytes = string
type_synonym u64 = "64 word"
type_synonym nanos = int

definition second :: nanos where
  "second = 1000000000"

definition millisecond :: nanos where
  "millisecond = 1000000"

section \<open>Failures of the operating system\<close>

text \<open>
  A system call may fail at any time. The calls of a run take their outcomes, in the order
  they are made, from a list: \<^term>\<open>True\<close> is a failure, and a call after the end of the list
  succeeds. A theorem for all such lists is a theorem for all ways the calls can fail.
\<close>

type_synonym faults = "bool list"

fun next_fault :: "faults \<Rightarrow> bool \<times> faults" where
  "next_fault [] = (False, [])"
| "next_fault (b # bs) = (b, bs)"

lemma next_fault_cases:
  obtains fs' where "next_fault fs = (True, fs')" | fs' where "next_fault fs = (False, fs')"
  by (cases "next_fault fs"; cases "fst (next_fault fs)") auto

lemma next_fault_none:
  assumes "True \<notin> set fs" "next_fault fs = (b, fs')"
  shows "\<not> b" "True \<notin> set fs'"
  using assms by (cases fs; auto)+

section \<open>Runs\<close>

text \<open>
  A component is driven by a list of operations. \<open>guarded\<close> says that every operation of the
  list is made in a state its guard accepts.
\<close>

fun run :: "('o \<Rightarrow> 's \<Rightarrow> 's) \<Rightarrow> 'o list \<Rightarrow> 's \<Rightarrow> 's" where
  "run step [] s = s"
| "run step (x # xs) s = run step xs (step x s)"

fun guarded :: "('o \<Rightarrow> 's \<Rightarrow> bool) \<Rightarrow> ('o \<Rightarrow> 's \<Rightarrow> 's) \<Rightarrow> 'o list \<Rightarrow> 's \<Rightarrow> bool" where
  "guarded g step [] s = True"
| "guarded g step (x # xs) s = (g x s \<and> guarded g step xs (step x s))"

lemma run_append: "run step (xs @ ys) s = run step ys (run step xs s)"
  by (induction xs arbitrary: s) auto

lemma guarded_append:
  "guarded g step (xs @ ys) s \<longleftrightarrow> guarded g step xs s \<and> guarded g step ys (run step xs s)"
  by (induction xs arbitrary: s) auto

text \<open>An invariant kept by every guarded operation holds after every guarded run.\<close>

lemma run_invariant:
  assumes step: "\<And>x s. I s \<Longrightarrow> g x s \<Longrightarrow> I (step x s)"
  shows "I s \<Longrightarrow> guarded g step xs s \<Longrightarrow> I (run step xs s)"
  by (induction xs arbitrary: s) (auto intro: step)

section \<open>Lists\<close>

lemma takeWhile_all: "(\<And>x. x \<in> set xs \<Longrightarrow> P x) \<Longrightarrow> takeWhile P xs = xs"
  by (induction xs) auto

lemma dropWhile_none: "xs = [] \<or> \<not> P (hd xs) \<Longrightarrow> dropWhile P xs = xs"
  by (cases xs) auto

lemma filter_filter_commute: "filter P (filter Q xs) = filter Q (filter P xs)"
  by (induction xs) auto

lemma concat_map_snoc [simp]: "concat (map f (xs @ [x])) = concat (map f xs) @ f x"
  by simp

end
