(* ===== verification/Go_Strings.thy ===== *)
theory Go_Strings
  imports Prelude
begin

text \<open>
  The functions of Go's packages \<open>strings\<close> and \<open>strconv\<close> that the program calls, and its own
  \<open>HasPrefix\<close> (utils.go). Case folding and white space are those of ASCII: a byte of a
  multi-byte UTF-8 sequence is neither a letter nor a space.
\<close>

section \<open>Characters\<close>

definition ascii_lower :: "char \<Rightarrow> char" where
  "ascii_lower c = (let n = of_char c :: nat in if 65 \<le> n \<and> n \<le> 90 then char_of (n + 32) else c)"

definition is_space :: "char \<Rightarrow> bool" where
  "is_space c = (let n = of_char c :: nat in n = 32 \<or> (9 \<le> n \<and> n \<le> 13))"

definition is_digit_char :: "char \<Rightarrow> bool" where
  "is_digit_char c = (let n = of_char c :: nat in 48 \<le> n \<and> n \<le> 57)"

definition NL :: char where
  "NL = CHR 0x0A"

section \<open>Package strings\<close>

definition to_lower :: "string \<Rightarrow> string" where
  "to_lower = map ascii_lower"

definition trim_left :: "string \<Rightarrow> string" where
  "trim_left = dropWhile is_space"

definition trim_right :: "string \<Rightarrow> string" where
  "trim_right s = rev (dropWhile is_space (rev s))"

definition trim_space :: "string \<Rightarrow> string" where
  "trim_space s = trim_right (trim_left s)"

fun split_on :: "char \<Rightarrow> string \<Rightarrow> string list" where
  "split_on c [] = [[]]"
| "split_on c (x # xs) =
     (if x = c then [] # split_on c xs
      else (case split_on c xs of [] \<Rightarrow> [[x]] | p # ps \<Rightarrow> (x # p) # ps))"

fun join :: "string \<Rightarrow> string list \<Rightarrow> string" where
  "join sep [] = []"
| "join sep [s] = s"
| "join sep (s # t # ss) = s @ sep @ join sep (t # ss)"

fun index_of :: "string \<Rightarrow> string \<Rightarrow> nat option" where
  "index_of p [] = (if p = [] then Some 0 else None)"
| "index_of p (x # xs) =
     (if take (length p) (x # xs) = p then Some 0 else map_option Suc (index_of p xs))"

definition contains :: "string \<Rightarrow> string \<Rightarrow> bool" where
  "contains s p = (index_of p s \<noteq> None)"

definition starts_with :: "string \<Rightarrow> string \<Rightarrow> bool" where
  "starts_with s p = (take (length p) s = p)"

definition ends_with :: "string \<Rightarrow> string \<Rightarrow> bool" where
  "ends_with s p = (length p \<le> length s \<and> drop (length s - length p) s = p)"

text \<open>\<open>strings.Split\<close> with a separator of several bytes (the program's separators are not empty).\<close>

function split_str :: "string \<Rightarrow> string \<Rightarrow> string list" where
  "split_str sep s =
     (if sep = [] then [s]
      else case index_of sep s of
        None \<Rightarrow> [s]
      | Some i \<Rightarrow> take i s # split_str sep (drop (i + length sep) s))"
  by pat_completeness auto

lemma index_of_bound: "index_of p s = Some i \<Longrightarrow> i + length p \<le> length s"
proof (induction s arbitrary: i)
  case Nil
  then show ?case by (auto split: if_splits)
next
  case (Cons x xs)
  show ?case
  proof (cases "take (length p) (x # xs) = p")
    case True
    then have "length p \<le> length (x # xs)"
      by (metis length_take min.cobounded1 nat_le_linear take_all)
    with True Cons.prems show ?thesis by simp
  next
    case False
    with Cons.prems obtain k where "index_of p xs = Some k" "i = Suc k" by auto
    with Cons.IH [of k] show ?thesis by simp
  qed
qed

termination split_str
proof (relation "measure (\<lambda>(sep, s). length s)", simp)
  fix sep s :: string and i
  assume "sep \<noteq> []" and "index_of sep s = Some i"
  then have "i + length sep \<le> length s" "0 < length sep"
    by (auto dest: index_of_bound)
  then have "length s - (i + length sep) < length s" by arith
  then show "((sep, drop (i + length sep) s), sep, s) \<in> measure (\<lambda>(sep, s). length s)"
    by simp
qed

declare split_str.simps [simp del]

section \<open>The program's HasPrefix (utils.go)\<close>

definition HasPrefix :: "string \<Rightarrow> string \<Rightarrow> bool" where
  "HasPrefix s p = (length p \<le> length s \<and> to_lower (take (length p) s) = to_lower p)"

section \<open>Package strconv\<close>

fun nat_digits :: "nat \<Rightarrow> string" where
  "nat_digits n =
     (if n < 10 then [char_of (48 + n)] else nat_digits (n div 10) @ [char_of (48 + n mod 10)])"

declare nat_digits.simps [simp del]

definition itoa :: "int \<Rightarrow> string" where
  "itoa i = (if i < 0 then CHR ''-'' # nat_digits (nat (- i)) else nat_digits (nat i))"

section \<open>Splitting and joining\<close>

lemma split_on_not_Nil [simp]: "split_on c s \<noteq> []"
  by (cases s) (auto split: list.splits)

lemma split_on_no_sep [str_simps]: "c \<notin> set s \<Longrightarrow> split_on c s = [s]"
  by (induction s) auto

lemma split_on_append [str_simps]:
  "c \<notin> set s \<Longrightarrow> split_on c (s @ c # t) = s # split_on c t"
  by (induction s) auto

lemma join_Cons: "ss \<noteq> [] \<Longrightarrow> join sep (s # ss) = s @ sep @ join sep ss"
  by (cases ss) auto

lemma join_split_on: "join [c] (split_on c s) = s"
proof (induction s)
  case Nil
  show ?case by simp
next
  case (Cons x xs)
  obtain p ps where p: "split_on c xs = p # ps"
    by (cases "split_on c xs") auto
  have "join [c] ((x # p) # ps) = x # join [c] (p # ps)"
    by (cases ps) auto
  with Cons p show ?case by (simp add: join_Cons)
qed

lemma split_on_parts: "p \<in> set (split_on c s) \<Longrightarrow> c \<notin> set p"
proof (induction s arbitrary: p)
  case Nil
  then show ?case by simp
next
  case (Cons x xs)
  obtain q qs where q: "split_on c xs = q # qs"
    by (cases "split_on c xs") auto
  with Cons show ?case by (auto split: if_splits)
qed

lemma split_on_join:
  "ss \<noteq> [] \<Longrightarrow> (\<And>s. s \<in> set ss \<Longrightarrow> c \<notin> set s) \<Longrightarrow> split_on c (join [c] ss) = ss"
proof (induction ss)
  case Nil
  then show ?case by simp
next
  case (Cons s ss)
  then show ?case
    by (cases ss) (auto simp: str_simps)
qed

lemma length_split_on: "length (split_on c s) = Suc (count_list s c)"
  by (induction s) (auto split: list.splits)

section \<open>Prefixes and trimming\<close>

lemma HasPrefix_Nil_right [simp]: "HasPrefix s []"
  by (simp add: HasPrefix_def to_lower_def)

lemma HasPrefix_append: "length p \<le> length s \<Longrightarrow> HasPrefix (s @ t) p = HasPrefix s p"
  by (simp add: HasPrefix_def)

lemma trim_space_id:
  assumes "s = [] \<or> (\<not> is_space (hd s) \<and> \<not> is_space (last s))"
  shows "trim_space s = s"
proof (cases "s = []")
  case True
  then show ?thesis by (simp add: trim_space_def trim_left_def trim_right_def)
next
  case False
  with assms have "trim_left s = s"
    by (simp add: trim_left_def dropWhile_none)
  moreover have "dropWhile is_space (rev s) = rev s"
    using False assms by (simp add: dropWhile_none hd_rev)
  ultimately show ?thesis by (simp add: trim_space_def trim_right_def)
qed

lemma trim_left_hd: "trim_left s \<noteq> [] \<Longrightarrow> \<not> is_space (hd (trim_left s))"
  unfolding trim_left_def by (rule hd_dropWhile)

lemma trim_right_last: "trim_right s \<noteq> [] \<Longrightarrow> \<not> is_space (last (trim_right s))"
  unfolding trim_right_def by (simp add: last_rev hd_dropWhile)

lemma trim_right_prefix: "prefix (trim_right s) s"
  unfolding trim_right_def
  by (metis rev_rev_ident suffix_dropWhile suffix_to_prefix)

lemma trim_space_idem [simp]: "trim_space (trim_space s) = trim_space s"
proof (rule trim_space_id)
  let ?t = "trim_space s"
  show "?t = [] \<or> (\<not> is_space (hd ?t) \<and> \<not> is_space (last ?t))"
  proof (cases "?t = []")
    case True
    then show ?thesis by simp
  next
    case False
    obtain zs where "trim_left s = ?t @ zs"
      using trim_right_prefix [of "trim_left s"] by (auto simp: trim_space_def prefix_def)
    with False have "hd ?t = hd (trim_left s)" "trim_left s \<noteq> []"
      by (metis hd_append2, auto)
    then have "\<not> is_space (hd ?t)" using trim_left_hd by simp
    moreover have "\<not> is_space (last ?t)"
      using False trim_right_last by (simp add: trim_space_def)
    ultimately show ?thesis by simp
  qed
qed

lemma set_trim_space: "set (trim_space s) \<subseteq> set s"
  unfolding trim_space_def trim_left_def trim_right_def
  by (auto dest!: set_dropWhileD)

section \<open>Searching\<close>

lemma index_of_Some:
  "index_of p s = Some i \<Longrightarrow> take (length p) (drop i s) = p"
  by (induction s arbitrary: i) (auto split: if_splits)

lemma contains_iff: "contains s p \<longleftrightarrow> (\<exists>u v. s = u @ p @ v)"
proof
  assume "contains s p"
  then obtain i where "index_of p s = Some i" by (auto simp: contains_def)
  from index_of_Some [OF this] have "drop i s = p @ drop (length p) (drop i s)"
    by (metis append_take_drop_id)
  then have "s = take i s @ p @ drop (length p) (drop i s)"
    by (metis append_take_drop_id)
  then show "\<exists>u v. s = u @ p @ v" by blast
next
  assume "\<exists>u v. s = u @ p @ v"
  then obtain u v where s: "s = u @ p @ v" by blast
  have "index_of p (u @ p @ v) \<noteq> None"
  proof (induction u)
    case Nil
    have "take (length p) (p @ v) = p" by simp
    then show ?case by (cases "p @ v") (auto simp del: take_append)
  next
    case (Cons x u)
    then show ?case by auto
  qed
  then show "contains s p" by (simp add: contains_def s)
qed

lemma starts_with_iff: "starts_with s p \<longleftrightarrow> (\<exists>t. s = p @ t)"
  unfolding starts_with_def by (metis append_eq_conv_conj append_take_drop_id)

lemma split_on_infix: "p \<in> set (split_on c s) \<Longrightarrow> \<exists>u v. s = u @ p @ v"
proof (induction s arbitrary: p)
  case Nil
  then show ?case by simp
next
  case (Cons x xs)
  obtain q qs where q: "split_on c xs = q # qs" by (cases "split_on c xs") auto
  have tl: "\<exists>u v. x # xs = u @ p @ v" if "p \<in> set (split_on c xs)"
    using Cons.IH [OF that] by (metis append_Cons)
  show ?case
  proof (cases "x = c")
    case True
    with Cons.prems have "p = [] \<or> p \<in> set (split_on c xs)" by auto
    then show ?thesis using tl by (metis append_Nil)
  next
    case False
    with Cons.prems q consider "p = x # q" | "p \<in> set (split_on c xs)" by auto
    then show ?thesis
    proof cases
      case 1
      have "join [c] (q # qs) = xs" using q join_split_on [of c xs] by simp
      then obtain v where "xs = q @ v" by (cases qs) auto
      with 1 show ?thesis by (metis append_Cons append_Nil)
    qed (rule tl)
  qed
qed

lemma count_contains: "contains s [c, c] \<Longrightarrow> 2 \<le> count_list s c"
  by (auto simp: contains_iff)

lemma contains_skip: "c \<notin> set s \<Longrightarrow> contains (s @ t) (c # p) = contains t (c # p)"
  by (induction s) (auto simp: contains_def)

lemma split_str_absent: "\<not> contains s sep \<Longrightarrow> split_str sep s = [s]"
  by (subst split_str.simps) (auto simp: contains_def)

lemma split_str_not_Nil [simp]: "split_str m s \<noteq> []"
  by (subst split_str.simps) (auto split: option.splits)

section \<open>Decimal numbers\<close>

lemma is_digit_char_of: "n < 10 \<Longrightarrow> is_digit_char (char_of (48 + n :: nat))"
  by (simp add: is_digit_char_def)

lemma nat_digits_digits: "c \<in> set (nat_digits n) \<Longrightarrow> is_digit_char c"
proof (induction n rule: nat_digits.induct)
  case (1 n)
  show ?case
  proof (cases "n < 10")
    case True
    with "1.prems" show ?thesis by (simp add: nat_digits.simps [of n] is_digit_char_of)
  next
    case False
    with "1" show ?thesis by (auto simp: nat_digits.simps [of n] is_digit_char_of)
  qed
qed

lemma nat_digits_not_Nil [simp]: "nat_digits n \<noteq> []"
  by (subst nat_digits.simps) simp

end
