(* ===== verification/Go_Codec.thy ===== *)
theory Go_Codec
  imports Go_Strings
begin

text \<open>
  The encodings of the Go library that carry the program's data: \<open>url.QueryEscape\<close> and
  \<open>url.QueryUnescape\<close>, \<open>base64.StdEncoding\<close>, and the treatment of strings by
  \<open>encoding/json\<close> (quoting, and the replacement of bytes that are not UTF-8).
\<close>

section \<open>Query escaping (net/url)\<close>

definition is_alnum :: "char \<Rightarrow> bool" where
  "is_alnum c = (let n = of_char c :: nat in
     (48 \<le> n \<and> n \<le> 57) \<or> (65 \<le> n \<and> n \<le> 90) \<or> (97 \<le> n \<and> n \<le> 122))"

definition unreserved :: "char \<Rightarrow> bool" where
  "unreserved c = (is_alnum c \<or> c \<in> {CHR ''-'', CHR ''_'', CHR ''.'', CHR ''~''})"

definition upper_hex :: "nat \<Rightarrow> char" where
  "upper_hex n = (if n < 10 then char_of (48 + n) else char_of (55 + n))"

definition unhex :: "char \<Rightarrow> nat option" where
  "unhex c = (let n = of_char c :: nat in
     if 48 \<le> n \<and> n \<le> 57 then Some (n - 48)
     else if 97 \<le> n \<and> n \<le> 102 then Some (n - 87)
     else if 65 \<le> n \<and> n \<le> 70 then Some (n - 55)
     else None)"

definition escape_char :: "char \<Rightarrow> string" where
  "escape_char c =
     (if unreserved c then [c]
      else if c = CHR '' '' then ''+''
      else (let n = of_char c :: nat in [CHR ''%'', upper_hex (n div 16), upper_hex (n mod 16)]))"

definition QueryEscape :: "string \<Rightarrow> string" where
  "QueryEscape s = concat (map escape_char s)"

fun QueryUnescape :: "string \<Rightarrow> string option" where
  "QueryUnescape [] = Some []"
| "QueryUnescape (c # cs) =
     (if c = CHR ''%'' then
        (case cs of
           a # b # r \<Rightarrow>
             (case (unhex a, unhex b) of
                (Some h, Some l) \<Rightarrow> map_option (Cons (char_of (16 * h + l))) (QueryUnescape r)
              | _ \<Rightarrow> None)
         | _ \<Rightarrow> None)
      else if c = CHR ''+'' then map_option (Cons (CHR '' '')) (QueryUnescape cs)
      else map_option (Cons c) (QueryUnescape cs))"

section \<open>Base64 (encoding/base64, StdEncoding)\<close>

definition b64_char :: "nat \<Rightarrow> char" where
  "b64_char n =
     (if n < 26 then char_of (65 + n) else if n < 52 then char_of (71 + n)
      else if n < 62 then char_of (n - 4) else if n = 62 then CHR ''+'' else CHR ''/'')"

definition b64_val :: "char \<Rightarrow> nat option" where
  "b64_val c = (let n = of_char c :: nat in
     if 65 \<le> n \<and> n \<le> 90 then Some (n - 65)
     else if 97 \<le> n \<and> n \<le> 122 then Some (n - 71)
     else if 48 \<le> n \<and> n \<le> 57 then Some (n + 4)
     else if n = 43 then Some 62 else if n = 47 then Some 63 else None)"

fun b64_encode_nat :: "nat list \<Rightarrow> string" where
  "b64_encode_nat [] = []"
| "b64_encode_nat [a] = [b64_char (a div 4), b64_char (a mod 4 * 16), CHR ''='', CHR ''='']"
| "b64_encode_nat [a, b] =
     [b64_char (a div 4), b64_char (a mod 4 * 16 + b div 16), b64_char (b mod 16 * 4), CHR ''='']"
| "b64_encode_nat (a # b # c # r) =
     b64_char (a div 4) # b64_char (a mod 4 * 16 + b div 16)
     # b64_char (b mod 16 * 4 + c div 64) # b64_char (c mod 64) # b64_encode_nat r"

fun b64_decode_nat :: "string \<Rightarrow> nat list option" where
  "b64_decode_nat [] = Some []"
| "b64_decode_nat (a # b # c # d # r) =
     (case (b64_val a, b64_val b) of
        (Some x, Some y) \<Rightarrow>
          (if c = CHR ''='' then
             (if d = CHR ''='' \<and> r = [] then Some [x * 4 + y div 16] else None)
           else (case b64_val c of
               None \<Rightarrow> None
             | Some z \<Rightarrow>
                 (if d = CHR ''='' then
                    (if r = [] then Some [x * 4 + y div 16, y mod 16 * 16 + z div 4] else None)
                  else (case b64_val d of
                      None \<Rightarrow> None
                    | Some w \<Rightarrow>
                        map_option (\<lambda>t. (x * 4 + y div 16) # (y mod 16 * 16 + z div 4)
                                        # (z mod 4 * 64 + w) # t)
                          (b64_decode_nat r)))))
      | _ \<Rightarrow> None)"
| "b64_decode_nat _ = None"

definition b64_encode :: "string \<Rightarrow> string" where
  "b64_encode s = b64_encode_nat (map of_char s)"

text \<open>The decoder skips line breaks wherever they stand.\<close>

definition b64_decode :: "string \<Rightarrow> string option" where
  "b64_decode s = map_option (map char_of)
     (b64_decode_nat (filter (\<lambda>c. c \<noteq> CHR 0x0A \<and> c \<noteq> CHR 0x0D) s))"

section \<open>UTF-8 (unicode/utf8) and JSON strings (encoding/json)\<close>

definition byte_in :: "nat \<Rightarrow> nat \<Rightarrow> char \<Rightarrow> bool" where
  "byte_in lo hi c = (let n = of_char c :: nat in lo \<le> n \<and> n \<le> hi)"

text \<open>The length of the UTF-8 sequence a byte string starts with; 0 where \<open>DecodeRune\<close> gives an error.\<close>

fun utf8_width :: "string \<Rightarrow> nat" where
  "utf8_width [] = 0"
| "utf8_width (a # r) =
     (if byte_in 0 0x7F a then 1
      else (case r of
          [] \<Rightarrow> 0
        | b # r2 \<Rightarrow>
            (if byte_in 0xC2 0xDF a \<and> byte_in 0x80 0xBF b then 2
             else (case r2 of
                 [] \<Rightarrow> 0
               | c # r3 \<Rightarrow>
                   (if byte_in 0x80 0xBF c \<and>
                       ((byte_in 0xE0 0xE0 a \<and> byte_in 0xA0 0xBF b) \<or>
                        ((byte_in 0xE1 0xEC a \<or> byte_in 0xEE 0xEF a) \<and> byte_in 0x80 0xBF b) \<or>
                        (byte_in 0xED 0xED a \<and> byte_in 0x80 0x9F b)) then 3
                    else (case r3 of
                        [] \<Rightarrow> 0
                      | d # r4 \<Rightarrow>
                          (if byte_in 0x80 0xBF c \<and> byte_in 0x80 0xBF d \<and>
                              ((byte_in 0xF0 0xF0 a \<and> byte_in 0x90 0xBF b) \<or>
                               (byte_in 0xF1 0xF3 a \<and> byte_in 0x80 0xBF b) \<or>
                               (byte_in 0xF4 0xF4 a \<and> byte_in 0x80 0x8F b)) then 4 else 0)))))))"

lemma utf8_width_le: "utf8_width s \<le> length s"
  by (cases s rule: utf8_width.cases) (auto split: list.splits)

lemma utf8_width_ascii: "byte_in 0 0x7F a \<Longrightarrow> utf8_width (a # r) = 1"
  by simp

declare utf8_width.simps(2) [simp del]

definition replacement_rune :: string where
  "replacement_rune = [CHR 0xEF, CHR 0xBF, CHR 0xBD]"

text \<open>
  What a string has become once \<open>json.Marshal\<close> has written it and \<open>json.Unmarshal\<close> has read it:
  every byte that is not part of a UTF-8 sequence is replaced by U+FFFD.
\<close>

function json_text :: "string \<Rightarrow> string" where
  "json_text [] = []"
| "json_text (a # r) =
     (let w = utf8_width (a # r)
      in if w = 0 then replacement_rune @ json_text r
         else take w (a # r) @ json_text (drop w (a # r)))"
  by pat_completeness auto
termination
  by (relation "measure length") auto

declare json_text.simps [simp del]

fun valid_utf8_fuel :: "nat \<Rightarrow> string \<Rightarrow> bool" where
  "valid_utf8_fuel n [] = True"
| "valid_utf8_fuel 0 (a # r) = False"
| "valid_utf8_fuel (Suc n) (a # r) =
     (utf8_width (a # r) \<noteq> 0 \<and> valid_utf8_fuel n (drop (utf8_width (a # r)) (a # r)))"

text \<open>A sequence takes at least one byte, so the length of the text is fuel enough.\<close>

definition valid_utf8 :: "string \<Rightarrow> bool" where
  "valid_utf8 s = valid_utf8_fuel (length s) s"

definition json_hex4 :: "nat \<Rightarrow> string" where
  "json_hex4 n = ''00'' @ map (\<lambda>d. if d < 10 then char_of (48 + d) else char_of (87 + d)) [n div 16, n mod 16]"

definition json_escape_byte :: "char \<Rightarrow> string" where
  "json_escape_byte c = (let n = of_char c :: nat in
     if n = 0x22 \<or> n = 0x5C then [CHR 0x5C, c]
     else if n = 0x08 then [CHR 0x5C, CHR ''b'']
     else if n = 0x0C then [CHR 0x5C, CHR ''f'']
     else if n = 0x0A then [CHR 0x5C, CHR ''n'']
     else if n = 0x0D then [CHR 0x5C, CHR ''r'']
     else if n = 0x09 then [CHR 0x5C, CHR ''t'']
     else if n < 0x20 \<or> n = 0x3C \<or> n = 0x3E \<or> n = 0x26 then [CHR 0x5C, CHR ''u''] @ json_hex4 n
     else [c])"

function json_quote_body :: "string \<Rightarrow> string" where
  "json_quote_body [] = []"
| "json_quote_body (a # r) =
     (let w = utf8_width (a # r)
      in if w = 0 then CHR 0x5C # ''ufffd'' @ json_quote_body r
         else if w = 1 then json_escape_byte a @ json_quote_body r
         else if take w (a # r) = [CHR 0xE2, CHR 0x80, CHR 0xA8]
           then CHR 0x5C # ''u2028'' @ json_quote_body (drop w (a # r))
         else if take w (a # r) = [CHR 0xE2, CHR 0x80, CHR 0xA9]
           then CHR 0x5C # ''u2029'' @ json_quote_body (drop w (a # r))
         else take w (a # r) @ json_quote_body (drop w (a # r)))"
  by pat_completeness auto
termination
  by (relation "measure length") auto

declare json_quote_body.simps [simp del]

definition json_quote :: "string \<Rightarrow> string" where
  "json_quote s = CHR 0x22 # json_quote_body s @ [CHR 0x22]"

section \<open>Round trips\<close>

lemma unhex_upper_hex: "n < 16 \<Longrightarrow> unhex (upper_hex n) = Some n"
  by (auto simp: unhex_def upper_hex_def Let_def)

lemma escape_char_not_special:
  "unreserved c \<Longrightarrow> c \<noteq> CHR ''%'' \<and> c \<noteq> CHR ''+''"
  by (auto simp: unreserved_def is_alnum_def Let_def)

lemma QueryUnescape_escape_char:
  "QueryUnescape (escape_char c @ t) = map_option (Cons c) (QueryUnescape t)"
proof -
  have "(of_char c :: nat) div 16 < 16" "(of_char c :: nat) mod 16 < 16"
    using nat_of_char_less_256 [of c] by linarith+
  then show ?thesis
    using escape_char_not_special [of c]
    by (simp add: escape_char_def Let_def unhex_upper_hex)
qed

lemma QueryUnescape_QueryEscape: "QueryUnescape (QueryEscape s) = Some s"
  by (induction s) (simp_all add: QueryEscape_def QueryUnescape_escape_char)

lemma upper_hex_alnum: "n < 16 \<Longrightarrow> is_alnum (upper_hex n)"
  by (auto simp: is_alnum_def upper_hex_def Let_def)

lemma set_escape_char: "x \<in> set (escape_char c) \<Longrightarrow> unreserved x \<or> x \<in> {CHR ''%'', CHR ''+''}"
proof -
  assume x: "x \<in> set (escape_char c)"
  have "(of_char c :: nat) div 16 < 16" "(of_char c :: nat) mod 16 < 16"
    using nat_of_char_less_256 [of c] by linarith+
  with x show ?thesis
    by (auto simp: escape_char_def Let_def unreserved_def upper_hex_alnum split: if_splits)
qed

lemma set_QueryEscape: "x \<in> set (QueryEscape s) \<Longrightarrow> unreserved x \<or> x \<in> {CHR ''%'', CHR ''+''}"
  by (auto simp: QueryEscape_def dest: set_escape_char)

lemma QueryEscape_no_amp: "CHR ''&'' \<notin> set (QueryEscape s)"
  by (auto dest!: set_QueryEscape simp: unreserved_def is_alnum_def Let_def)

lemma QueryEscape_no_space: "x \<in> set (QueryEscape s) \<Longrightarrow> \<not> is_space x"
  by (auto dest!: set_QueryEscape simp: unreserved_def is_alnum_def is_space_def Let_def)

lemma b64_val_char: "n < 64 \<Longrightarrow> b64_val (b64_char n) = Some n"
  by (auto simp: b64_val_def b64_char_def Let_def)

lemma b64_char_not_pad: "n < 64 \<Longrightarrow> b64_char n \<noteq> CHR ''=''"
  using b64_val_char [of n] by (auto simp: b64_val_def Let_def)

lemma byte_sextets:
  fixes a b c :: nat
  assumes "a < 256" "b < 256" "c < 256"
  shows "a div 4 < 64" "a mod 4 * 16 < 64" "b mod 16 * 4 < 64" "c mod 64 < 64"
    "a mod 4 * 16 + b div 16 < 64" "b mod 16 * 4 + c div 64 < 64"
    "(a mod 4 * 16 + b div 16) div 16 = a mod 4" "(a mod 4 * 16 + b div 16) mod 16 = b div 16"
    "(b mod 16 * 4 + c div 64) div 4 = b mod 16" "(b mod 16 * 4 + c div 64) mod 4 = c div 64"
    "b div 16 mod 16 = b div 16" "c div 64 mod 4 = c div 64"
  using assms by (linarith+ | simp)+

lemma b64_nat_roundtrip:
  "(\<And>x. x \<in> set ns \<Longrightarrow> x < 256) \<Longrightarrow> b64_decode_nat (b64_encode_nat ns) = Some ns"
proof (induction ns rule: b64_encode_nat.induct)
  case 1
  show ?case by simp
next
  case (2 a)
  then have "a < 256" by simp
  from byte_sextets [OF this this this] show ?case
    by (simp add: b64_val_char b64_char_not_pad)
next
  case (3 a b)
  then have "a < 256" "b < 256" by simp_all
  from byte_sextets [OF this this(2)] show ?case
    by (simp add: b64_val_char b64_char_not_pad)
next
  case (4 a b c r)
  then have "a < 256" "b < 256" "c < 256" by simp_all
  note sextets = byte_sextets [OF this]
  have "b64_decode_nat (b64_encode_nat r) = Some r"
    using "4.prems" by (intro "4.IH") simp
  then show ?case
    by (simp add: sextets b64_val_char b64_char_not_pad)
qed

definition b64_alphabet :: "char set" where
  "b64_alphabet = insert (CHR ''='') (b64_char ` {..<64})"

lemma b64_alphabetI [intro]: "n < 64 \<Longrightarrow> b64_char n \<in> b64_alphabet" "CHR ''='' \<in> b64_alphabet"
  by (simp_all add: b64_alphabet_def)

lemma b64_encode_nat_chars:
  "(\<And>x. x \<in> set ns \<Longrightarrow> x < 256) \<Longrightarrow> set (b64_encode_nat ns) \<subseteq> b64_alphabet"
proof (induction ns rule: b64_encode_nat.induct)
  case 1
  then show ?case by simp
next
  case (2 a)
  then have "a < 256" by simp
  note sextets = byte_sextets [OF this this this]
  show ?case by (simp add: b64_alphabetI sextets)
next
  case (3 a b)
  then have "a < 256" "b < 256" by simp_all
  note sextets = byte_sextets [OF this this(2)]
  show ?case by (simp add: b64_alphabetI sextets)
next
  case (4 a b c' r)
  then have "a < 256" "b < 256" "c' < 256" by simp_all
  note sextets = byte_sextets [OF this]
  have "set (b64_encode_nat r) \<subseteq> b64_alphabet"
    using "4.prems" by (intro "4.IH") simp
  then show ?case by (simp add: b64_alphabetI sextets)
qed

lemma b64_alphabet_plain:
  assumes "c \<in> b64_alphabet"
  shows "c \<noteq> CHR 0x0A" "c \<noteq> CHR 0x0D" "byte_in 0 0x7F c"
proof -
  from assms have "c = CHR ''='' \<or> (\<exists>v. b64_val c = Some v)"
    by (auto simp: b64_alphabet_def b64_val_char)
  then show "c \<noteq> CHR 0x0A" "c \<noteq> CHR 0x0D" "byte_in 0 0x7F c"
    by (auto simp: b64_val_def byte_in_def Let_def split: if_splits)
qed

lemma set_b64_encode: "set (b64_encode s) \<subseteq> b64_alphabet"
  unfolding b64_encode_def by (rule b64_encode_nat_chars) auto

lemma b64_decode_encode: "b64_decode (b64_encode s) = Some s"
proof -
  let ?ns = "map of_char s :: nat list"
  have lt: "\<And>x. x \<in> set ?ns \<Longrightarrow> x < 256" by auto
  have "filter (\<lambda>c. c \<noteq> CHR 0x0A \<and> c \<noteq> CHR 0x0D) (b64_encode s) = b64_encode s"
    using set_b64_encode b64_alphabet_plain(1,2) by (subst filter_id_conv) blast
  moreover have "b64_decode_nat (b64_encode s) = Some ?ns"
    unfolding b64_encode_def using lt by (rule b64_nat_roundtrip)
  ultimately show ?thesis
    by (simp add: b64_decode_def comp_def)
qed

section \<open>Valid UTF-8 survives JSON\<close>

lemma json_text_valid_fuel: "valid_utf8_fuel n s \<Longrightarrow> json_text s = s"
proof (induction n s rule: valid_utf8_fuel.induct)
  case (3 n a r)
  then show ?case
    by (simp add: json_text.simps Let_def)
qed (simp_all add: json_text.simps)

lemma json_text_valid: "valid_utf8 s \<Longrightarrow> json_text s = s"
  unfolding valid_utf8_def by (rule json_text_valid_fuel)

lemma length_json_text: "length s \<le> length (json_text s)"
proof (induction s rule: json_text.induct)
  case 1
  show ?case by (simp add: json_text.simps)
next
  case (2 a r)
  let ?w = "utf8_width (a # r)"
  show ?case
  proof (cases "?w = 0")
    case True
    with "2" show ?thesis by (simp add: json_text.simps replacement_rune_def)
  next
    case False
    have "?w \<le> length (a # r)" by (rule utf8_width_le)
    with "2"(2) [OF refl False] False show ?thesis by (simp add: json_text.simps Let_def)
  qed
qed

lemma json_text_grows:
  "length s \<le> n \<Longrightarrow> \<not> valid_utf8_fuel n s \<Longrightarrow> length s < length (json_text s)"
proof (induction n s rule: valid_utf8_fuel.induct)
  case (3 n a r)
  let ?w = "utf8_width (a # r)"
  show ?case
  proof (cases "?w = 0")
    case True
    with length_json_text [of r] show ?thesis by (simp add: json_text.simps replacement_rune_def)
  next
    case False
    have "?w \<le> length (a # r)" by (rule utf8_width_le)
    moreover from this False "3" have "length (drop ?w (a # r)) < length (json_text (drop ?w (a # r)))"
      by simp
    ultimately show ?thesis using False by (simp add: json_text.simps Let_def)
  qed
qed simp_all

lemma json_text_id_iff: "json_text s = s \<longleftrightarrow> valid_utf8 s"
  unfolding valid_utf8_def using json_text_valid_fuel json_text_grows [of s "length s"] by fastforce

lemma valid_utf8_ascii: "(\<And>c. c \<in> set s \<Longrightarrow> byte_in 0 0x7F c) \<Longrightarrow> valid_utf8 s"
  unfolding valid_utf8_def by (induction s) (auto simp: utf8_width_ascii)

lemma valid_utf8_b64: "valid_utf8 (b64_encode s)"
  using set_b64_encode b64_alphabet_plain(3) by (intro valid_utf8_ascii) blast

end
