(* ===== verification/Journal.thy ===== *)
theory Journal
  imports Go_Codec
begin

text \<open>
  The write-ahead log (journal.go). A journal is the Go struct (\<open>journal\<close>) together with the
  directory it lives in (\<open>journal_dir\<close>): the files wal.jsonl, wal.jsonl.tmp and ack.jsonl as
  lists of lines. An operation takes both and returns its result, an error or a value, with
  both updated. A process that dies loses the struct and keeps the directory.
\<close>

section \<open>Records and lines\<close>

record journalRecord =
  rec_ID :: u64
  rec_Params :: string
  rec_Content :: string
  rec_ContentB64 :: string
  rec_Opaque :: bool
  rec_ContentType :: string

text \<open>The line \<open>json.Marshal\<close> writes for a record: empty fields marked omitempty are left out.\<close>

definition json_field :: "string \<Rightarrow> string \<Rightarrow> string" where
  "json_field name val = json_quote name @ '':'' @ val"

definition json_marshal :: "journalRecord \<Rightarrow> string" where
  "json_marshal r = ''{'' @ join '',''
     ([json_field ''id'' (nat_digits (unat (rec_ID r))),
       json_field ''params'' (json_quote (rec_Params r))]
      @ (if rec_Content r = [] then [] else [json_field ''content'' (json_quote (rec_Content r))])
      @ (if rec_ContentB64 r = [] then [] else [json_field ''content_b64'' (json_quote (rec_ContentB64 r))])
      @ (if rec_Opaque r then [json_field ''opaque'' ''true''] else [])
      @ (if rec_ContentType r = [] then [] else [json_field ''content_type'' (json_quote (rec_ContentType r))]))
     @ ''}''"

text \<open>The record that reading this line back gives.\<close>

definition json_reread :: "journalRecord \<Rightarrow> journalRecord" where
  "json_reread r = r\<lparr>rec_Params := json_text (rec_Params r),
     rec_Content := json_text (rec_Content r),
     rec_ContentB64 := json_text (rec_ContentB64 r),
     rec_ContentType := json_text (rec_ContentType r)\<rparr>"

text \<open>
  A line of the log: its text, and what \<open>json.Unmarshal\<close> makes of it (\<^term>\<open>None\<close> where it
  fails). A \<open>TornLine\<close> has no line break: it can only be the last of a file. A line of the
  acknowledgement file: the number \<open>fmt.Sscanf\<close> reads, if any.
\<close>

datatype wal_line =
    is_whole: WalLine (wl_text: string) (wl_rec: "journalRecord option")
  | TornLine (wl_text: string) (wl_rec: "journalRecord option")

definition marshal_line :: "journalRecord \<Rightarrow> wal_line" where
  "marshal_line r = WalLine (json_marshal r) (Some (json_reread r))"

type_synonym ack_line = "u64 option"

section \<open>Writing lines to a file\<close>

text \<open>
  How a system call ends: it works, or it fails; a \<open>write\<close> that fails may have written the
  first bytes it was given.
\<close>

datatype outcome = Works | Fails nat

fun next_outcome :: "outcome list \<Rightarrow> outcome \<times> outcome list" where
  "next_outcome [] = (Works, [])"
| "next_outcome (x # xs) = (x, xs)"

definition lines_size :: "wal_line list \<Rightarrow> nat" where
  "lines_size ls = sum_list (map (\<lambda>l. length (wl_text l) + 1) ls)"

text \<open>
  The first \<open>n\<close> bytes of some lines. The last of them may lack its line break, or more: a
  proper prefix of a record's JSON object does not parse.
\<close>

fun cut_lines :: "nat \<Rightarrow> wal_line list \<Rightarrow> wal_line list" where
  "cut_lines n [] = []"
| "cut_lines n (l # ls) =
     (if length (wl_text l) < n then l # cut_lines (n - length (wl_text l) - 1) ls
      else if n = 0 then []
      else if n = length (wl_text l) then [TornLine (wl_text l) (wl_rec l)]
      else [TornLine (take n (wl_text l)) None])"

text \<open>
  What a file holds when lines are appended to it: the first of them continues a torn line, and
  the two together do not parse (one JSON object, or a prefix of one, before another).
\<close>

fun add_lines :: "wal_line list \<Rightarrow> wal_line list \<Rightarrow> wal_line list" where
  "add_lines [] new = new"
| "add_lines (WalLine t r # ls) new = WalLine t r # add_lines ls new"
| "add_lines (TornLine t r # ls) new = (case new of
     [] \<Rightarrow> TornLine t r # ls
   | WalLine u _ # new \<Rightarrow> WalLine (t @ u) None # new
   | TornLine u _ # new \<Rightarrow> TornLine (t @ u) None # new)"

text \<open>A line as the scanner yields it, with a line break put behind it.\<close>

definition ended :: "wal_line \<Rightarrow> wal_line" where
  "ended l = WalLine (wl_text l) (wl_rec l)"

section \<open>State\<close>

record journal_dir =
  jf_wal :: "wal_line list option"
  jf_tmp :: "wal_line list option"
  jf_ack :: "ack_line list option"
  jf_faults :: "outcome list"

text \<open>A \<open>bufio.Writer\<close>: the lines in its buffer and its sticky error.\<close>

record writer =
  w_buf :: "wal_line list"
  w_err :: bool

record journal =
  j_fsync :: bool
  j_maxPending :: int
  j_wal :: bool
  j_walWriter :: "writer option"
  j_ackFile :: bool
  j_nextID :: u64
  j_acked :: "u64 set"
  j_pendingCount :: int
  j_acksSinceCompact :: int
  j_lastCompact :: nanos

datatype jerr = ErrJournalBacklog | JIOError | ErrTooLong | JPanic

type_synonym 'a jresult = "(jerr + 'a) \<times> journal \<times> journal_dir"

definition journalCompactMinInterval :: nanos where
  "journalCompactMinInterval = 5 * second"

definition journalCompactMinAcks :: int where
  "journalCompactMinAcks = 100"

text \<open>
  The token limits of \<open>bufio.Scanner\<close>: the default, and the one set by \<open>sc.Buffer\<close>. A line
  with its line break must fit the buffer.
\<close>

definition MaxScanTokenSize :: nat where
  "MaxScanTokenSize = 65536"

definition replayScanLimit :: nat where
  "replayScanLimit = 1048576"

definition bufioSize :: nat where
  "bufioSize = 4096"

section \<open>Sequencing\<close>

text \<open>\<open>if err := \<dots>; err != nil { return err }\<close>\<close>

fun jbind :: "'a jresult \<Rightarrow> ('a \<Rightarrow> journal \<Rightarrow> journal_dir \<Rightarrow> 'b jresult) \<Rightarrow> 'b jresult" where
  "jbind (Inl e, j, d) f = (Inl e, j, d)"
| "jbind (Inr x, j, d) f = f x j d"

definition jok :: "'a \<Rightarrow> journal \<Rightarrow> journal_dir \<Rightarrow> 'a jresult" where
  "jok x j d = (Inr x, j, d)"

definition jfail :: "jerr \<Rightarrow> journal \<Rightarrow> journal_dir \<Rightarrow> 'a jresult" where
  "jfail e j d = (Inl e, j, d)"

text \<open>A system call: it fails or it does not, as the list of outcomes says.\<close>

definition jsys :: "journal \<Rightarrow> journal_dir \<Rightarrow> unit jresult" where
  "jsys j d = (case next_outcome (jf_faults d) of
     (Fails n, fs) \<Rightarrow> (Inl JIOError, j, d\<lparr>jf_faults := fs\<rparr>)
   | (Works, fs) \<Rightarrow> (Inr (), j, d\<lparr>jf_faults := fs\<rparr>))"

text \<open>
  \<open>os.File.Write\<close> on wal.jsonl, opened for appending: it fails after some of the bytes, or it
  writes them all.
\<close>

definition walFileWrite :: "wal_line list \<Rightarrow> journal \<Rightarrow> journal_dir \<Rightarrow> unit jresult" where
  "walFileWrite new j d =
     (let put = (\<lambda>new fs. d\<lparr>jf_wal := map_option (\<lambda>ls. add_lines ls new) (jf_wal d), jf_faults := fs\<rparr>)
      in case next_outcome (jf_faults d) of
        (Works, fs) \<Rightarrow> (Inr (), j, put new fs)
      | (Fails n, fs) \<Rightarrow>
          if n < lines_size new then (Inl JIOError, j, put (cut_lines n new) fs)
          else (Inr (), j, put new fs))"

section \<open>Reading the files\<close>

text \<open>\<open>sc.Scan\<close> until it stops: the lines it yields, and whether it stopped at a line too long for it.\<close>

definition fits :: "nat \<Rightarrow> wal_line \<Rightarrow> bool" where
  "fits limit l = (length (wl_text l) < limit)"

definition scan :: "nat \<Rightarrow> wal_line list \<Rightarrow> wal_line list \<times> bool" where
  "scan limit ls = (takeWhile (fits limit) ls, \<not> list_all (fits limit) ls)"

definition loadAcked :: "journal \<Rightarrow> journal_dir \<Rightarrow> unit jresult" where
  "loadAcked j d = (case jf_ack d of
     None \<Rightarrow> jok () j d
   | Some as \<Rightarrow> jbind (jsys j d) (\<lambda>_ j d.
       jok () (j\<lparr>j_acked := j_acked j \<union> set (List.map_filter id as)\<rparr>) d))"

definition openAckFile :: "journal \<Rightarrow> journal_dir \<Rightarrow> unit jresult" where
  "openAckFile j d = jbind (jsys j d) (\<lambda>_ j d.
     jok () (j\<lparr>j_ackFile := True\<rparr>)
       (d\<lparr>jf_ack := Some (case jf_ack d of None \<Rightarrow> [] | Some as \<Rightarrow> as)\<rparr>))"

definition max_id :: "u64 \<Rightarrow> wal_line \<Rightarrow> u64" where
  "max_id m l = (case wl_rec l of None \<Rightarrow> m | Some r \<Rightarrow> if m < rec_ID r then rec_ID r else m)"

definition scanMaxID :: "journal \<Rightarrow> journal_dir \<Rightarrow> unit jresult" where
  "scanMaxID j d = (case jf_wal d of
     None \<Rightarrow> jok () j d
   | Some ls \<Rightarrow> jbind (jsys j d) (\<lambda>_ j d.
       (case scan MaxScanTokenSize ls of (seen, long) \<Rightarrow>
          (let j' = j\<lparr>j_nextID := foldl max_id (j_nextID j) seen\<rparr>
           in if long then jfail ErrTooLong j' d else jok () j' d))))"

definition openWAL :: "journal \<Rightarrow> journal_dir \<Rightarrow> unit jresult" where
  "openWAL j d = jbind (jsys j d) (\<lambda>_ j d.
     scanMaxID (j\<lparr>j_wal := True\<rparr>)
       (d\<lparr>jf_wal := Some (case jf_wal d of None \<Rightarrow> [] | Some ls \<Rightarrow> ls)\<rparr>))"

definition is_unacked :: "u64 set \<Rightarrow> wal_line \<Rightarrow> bool" where
  "is_unacked A l = (case wl_rec l of None \<Rightarrow> False | Some r \<Rightarrow> rec_ID r \<notin> A)"

definition countPendingOnDiskLocked :: "journal \<Rightarrow> journal_dir \<Rightarrow> int jresult" where
  "countPendingOnDiskLocked j d = (case jf_wal d of
     None \<Rightarrow> jok 0 j d
   | Some ls \<Rightarrow> jbind (jsys j d) (\<lambda>_ j d.
       (case scan MaxScanTokenSize ls of (seen, long) \<Rightarrow>
          if long then jfail ErrTooLong j d
          else jok (int (length (filter (is_unacked (j_acked j)) seen))) j d)))"

definition new_writer :: writer where
  "new_writer = \<lparr>w_buf = [], w_err = False\<rparr>"

text \<open>\<open>NewJournal\<close>; \<^term>\<open>None\<close> is the nil journal of an empty directory name.\<close>

definition NewJournal :: "string \<Rightarrow> bool \<Rightarrow> int \<Rightarrow> nanos \<Rightarrow> journal_dir \<Rightarrow>
    (jerr + journal option) \<times> journal_dir" where
  "NewJournal dir fs maxp now d =
     (if dir = [] then (Inr None, d)
      else
        (let j0 = \<lparr>j_fsync = fs, j_maxPending = maxp, j_wal = False, j_walWriter = None,
                   j_ackFile = False, j_nextID = 0, j_acked = {}, j_pendingCount = 0,
                   j_acksSinceCompact = 0, j_lastCompact = now\<rparr>
         in case
           jbind (jsys j0 d) (\<lambda>_ j d.
           jbind (loadAcked j d) (\<lambda>_ j d.
           jbind (openWAL j d) (\<lambda>_ j d.
           jbind (openAckFile (j\<lparr>j_walWriter := Some new_writer\<rparr>) d) (\<lambda>_ j d.
           jbind (countPendingOnDiskLocked j d) (\<lambda>n j d.
           jok () (j\<lparr>j_pendingCount := n\<rparr>) d)))))
         of (Inl e, j, d) \<Rightarrow> (Inl e, d)
          | (Inr _, j, d) \<Rightarrow> (Inr (Some j), d)))"

section \<open>Writing\<close>

text \<open>
  \<open>Flush\<close> hands the buffer to one write. When it fails, part of it may be in the file, and the
  writer keeps the error for good.
\<close>

definition flushWalLocked :: "journal \<Rightarrow> journal_dir \<Rightarrow> unit jresult" where
  "flushWalLocked j d = (case j_walWriter j of
     None \<Rightarrow> jok () j d
   | Some w \<Rightarrow>
       (let sync = (\<lambda>j d. if j_fsync j \<and> j_wal j then jsys j d else jok () j d)
        in if w_err w then jfail JIOError j d
           else if w_buf w = [] then sync j d
           else (case walFileWrite (w_buf w) j d of
               (Inl e, j, d) \<Rightarrow> jfail e (j\<lparr>j_walWriter := Some (w\<lparr>w_err := True\<rparr>)\<rparr>) d
             | (Inr _, j, d) \<Rightarrow> sync (j\<lparr>j_walWriter := Some new_writer\<rparr>) d)))"

text \<open>
  \<open>walWriter.Write\<close> of a line and its line break: into the buffer where there is room, else
  straight to the file. A nil writer panics.
\<close>

definition walWrite :: "wal_line \<Rightarrow> journal \<Rightarrow> journal_dir \<Rightarrow> unit jresult" where
  "walWrite l j d = (case j_walWriter j of
     None \<Rightarrow> jfail JPanic j d
   | Some w \<Rightarrow>
       (if w_err w then jfail JIOError j d
        else if lines_size (w_buf w @ [l]) \<le> bufioSize
        then jok () (j\<lparr>j_walWriter := Some (w\<lparr>w_buf := w_buf w @ [l]\<rparr>)\<rparr>) d
        else (case walFileWrite (w_buf w @ [l]) j d of
            (Inl e, j, d) \<Rightarrow> jfail e (j\<lparr>j_walWriter := Some (w\<lparr>w_err := True\<rparr>)\<rparr>) d
          | (Inr _, j, d) \<Rightarrow> jok () (j\<lparr>j_walWriter := Some new_writer\<rparr>) d)))"

definition appendRecord :: "journalRecord \<Rightarrow> journal \<Rightarrow> journal_dir \<Rightarrow> u64 jresult" where
  "appendRecord r j d =
     (if 0 < j_maxPending j \<and> j_maxPending j \<le> j_pendingCount j then jfail ErrJournalBacklog j d
      else
        (let id = j_nextID j + 1
         in jbind (walWrite (marshal_line (r\<lparr>rec_ID := id\<rparr>)) (j\<lparr>j_nextID := id\<rparr>) d) (\<lambda>_ j d.
            jbind (flushWalLocked j d) (\<lambda>_ j d.
            jok id (j\<lparr>j_pendingCount := j_pendingCount j + 1\<rparr>) d))))"

definition Append :: "string \<Rightarrow> string \<Rightarrow> journal \<Rightarrow> journal_dir \<Rightarrow> u64 jresult" where
  "Append params content = appendRecord
     \<lparr>rec_ID = 0, rec_Params = params, rec_Content = content, rec_ContentB64 = [],
      rec_Opaque = False, rec_ContentType = []\<rparr>"

definition AppendOpaque :: "string \<Rightarrow> string \<Rightarrow> string \<Rightarrow> journal \<Rightarrow> journal_dir \<Rightarrow> u64 jresult" where
  "AppendOpaque params content contentType = appendRecord
     \<lparr>rec_ID = 0, rec_Params = params, rec_Content = [], rec_ContentB64 = b64_encode content,
      rec_Opaque = True, rec_ContentType = contentType\<rparr>"

section \<open>Compaction\<close>

definition resetAckFileLocked :: "journal \<Rightarrow> journal_dir \<Rightarrow> unit jresult" where
  "resetAckFileLocked j d =
     jbind (if j_ackFile j
            then jbind (jsys j d) (\<lambda>_ j d. jok () (j\<lparr>j_ackFile := False\<rparr>) d)
            else jok () j d) (\<lambda>_ j d.
     jbind (jsys j d) (\<lambda>_ j d.
     openAckFile j (d\<lparr>jf_ack := Some []\<rparr>)))"

text \<open>
  The loop that copies the pending lines, each with a line break; a failed write removes the
  temporary file.
\<close>

fun writeTmp :: "wal_line list \<Rightarrow> journal \<Rightarrow> journal_dir \<Rightarrow> unit jresult" where
  "writeTmp [] j d = jok () j d"
| "writeTmp (l # ls) j d = (case jsys j d of
     (Inl e, j, d) \<Rightarrow> jfail e j (d\<lparr>jf_tmp := None\<rparr>)
   | (Inr _, j, d) \<Rightarrow> writeTmp ls j (d\<lparr>jf_tmp := map_option (\<lambda>t. t @ [ended l]) (jf_tmp d)\<rparr>))"

definition compactLocked :: "nanos \<Rightarrow> journal \<Rightarrow> journal_dir \<Rightarrow> unit jresult" where
  "compactLocked now j d =
     jbind (flushWalLocked j d) (\<lambda>_ j d.
     (case jf_wal d of
        None \<Rightarrow> jok () j d
      | Some ls \<Rightarrow>
          jbind (jsys j d) (\<lambda>_ j d.
          (case scan replayScanLimit ls of (seen, long) \<Rightarrow>
             if long then jfail ErrTooLong j d
             else
               (let pending = filter (is_unacked (j_acked j)) seen
                in jbind (jsys j d) (\<lambda>_ j d.
                   jbind (writeTmp pending j (d\<lparr>jf_tmp := Some []\<rparr>)) (\<lambda>_ j d.
                   jbind (jsys j d) (\<lambda>_ j d.
                   jbind (jsys (j\<lparr>j_wal := False, j_walWriter := None\<rparr>) d) (\<lambda>_ j d.
                   jbind (openWAL j (d\<lparr>jf_wal := jf_tmp d, jf_tmp := None\<rparr>)) (\<lambda>_ j d.
                   jbind (resetAckFileLocked
                            (j\<lparr>j_walWriter := Some new_writer, j_acked := {},
                               j_pendingCount := int (length pending),
                               j_acksSinceCompact := 0, j_lastCompact := now\<rparr>) d) (\<lambda>_ j d.
                   if j_fsync j then flushWalLocked j d else jok () j d)))))))))))"

definition maybeCompactLocked :: "nanos \<Rightarrow> journal \<Rightarrow> journal_dir \<Rightarrow> unit jresult" where
  "maybeCompactLocked now j d =
     (if j_acksSinceCompact j = 0 then jok () j d
      else if j_acksSinceCompact j < journalCompactMinAcks
              \<and> now - j_lastCompact j < journalCompactMinInterval then jok () j d
      else compactLocked now j d)"

section \<open>Acknowledgement\<close>

text \<open>The loop over the ids; it counts those that are new, and stops at a failed write.\<close>

fun ackLoop :: "u64 list \<Rightarrow> int \<Rightarrow> journal \<Rightarrow> journal_dir \<Rightarrow> int jresult" where
  "ackLoop [] n j d = jok n j d"
| "ackLoop (i # ids) n j d =
     (if i = 0 then ackLoop ids n j d
      else if i \<in> j_acked j then ackLoop ids n j d
      else jbind (jsys j d) (\<lambda>_ j d.
        ackLoop ids (n + 1)
          (j\<lparr>j_acked := insert i (j_acked j), j_pendingCount := j_pendingCount j - 1\<rparr>)
          (d\<lparr>jf_ack := map_option (\<lambda>as. as @ [Some i]) (jf_ack d)\<rparr>)))"

definition Ack :: "nanos \<Rightarrow> u64 list \<Rightarrow> journal \<Rightarrow> journal_dir \<Rightarrow> unit jresult" where
  "Ack now ids j d =
     (if ids = [] then jok () j d
      else
        jbind (if j_ackFile j then jok () j d else openAckFile j d) (\<lambda>_ j d.
        jbind (ackLoop ids 0 j d) (\<lambda>n j d.
          if n = 0 then jok () j d
          else
            jbind (let j' = j\<lparr>j_acksSinceCompact := j_acksSinceCompact j + n\<rparr>
                   in if j_fsync j' then jsys j' d else jok () j' d) (\<lambda>_ j d.
            maybeCompactLocked now j d))))"

section \<open>Replay and the other operations\<close>

definition PendingCount :: "journal \<Rightarrow> int" where
  "PendingCount j = j_pendingCount j"

text \<open>\<open>ReplayUnacked\<close>: the records it hands to its callback, in order, and its result.\<close>

definition ReplayUnacked :: "journal \<Rightarrow> journal_dir \<Rightarrow> journalRecord list \<times> unit jresult" where
  "ReplayUnacked j d = (case flushWalLocked j d of
     (Inl e, j, d) \<Rightarrow> ([], jfail e j d)
   | (Inr _, j, d) \<Rightarrow>
       (case jf_wal d of
          None \<Rightarrow> ([], jok () j d)
        | Some ls \<Rightarrow>
            (case jsys j d of
               (Inl e, j, d) \<Rightarrow> ([], jfail e j d)
             | (Inr _, j, d) \<Rightarrow>
                 (case scan replayScanLimit ls of (seen, long) \<Rightarrow>
                    (map (\<lambda>l. the (wl_rec l)) (filter (is_unacked (j_acked j)) seen),
                     if long then jfail ErrTooLong j d else jok () j d)))))"

definition Compact :: "nanos \<Rightarrow> journal \<Rightarrow> journal_dir \<Rightarrow> unit jresult" where
  "Compact now j d = compactLocked now j d"

definition Close :: "nanos \<Rightarrow> journal \<Rightarrow> journal_dir \<Rightarrow> unit jresult" where
  "Close now j d =
     jbind (flushWalLocked j d) (\<lambda>_ j d.
     jbind (compactLocked now j d) (\<lambda>_ j d.
     jbind (if j_ackFile j
            then jbind (jsys j d) (\<lambda>_ j d. jok () (j\<lparr>j_ackFile := False\<rparr>) d)
            else jok () j d) (\<lambda>_ j d.
     jbind (if j_wal j
            then jbind (jsys j d) (\<lambda>_ j d. jok () (j\<lparr>j_wal := False\<rparr>) d)
            else jok () j d) (\<lambda>_ j d.
     jok () (j\<lparr>j_walWriter := None\<rparr>) d))))"

definition JournalEnabled :: "journal option \<Rightarrow> bool" where
  "JournalEnabled j = (j \<noteq> None)"

end
