(* ===== verification/Journal_Facts.thy ===== *)
theory Journal_Facts
  imports Journal
begin

text \<open>
  What the journal guarantees. \<open>pending\<close> is its abstract state: the records of the log whose
  number is not acknowledged, in the order of the log. The lemmas give the effect of every
  operation on it, first where no system call fails, then under arbitrary failures.
\<close>

section \<open>The abstract state\<close>

fun wal_recs :: "wal_line list \<Rightarrow> journalRecord list" where
  "wal_recs [] = []"
| "wal_recs (l # ls) = (case wl_rec l of None \<Rightarrow> wal_recs ls | Some r \<Rightarrow> r # wal_recs ls)"

definition wal_ids :: "wal_line list \<Rightarrow> u64 list" where
  "wal_ids ls = map rec_ID (wal_recs ls)"

definition unacked_recs :: "u64 set \<Rightarrow> wal_line list \<Rightarrow> journalRecord list" where
  "unacked_recs A ls = filter (\<lambda>r. rec_ID r \<notin> A) (wal_recs ls)"

definition wal_lines :: "journal_dir \<Rightarrow> wal_line list" where
  "wal_lines d = (case jf_wal d of None \<Rightarrow> [] | Some ls \<Rightarrow> ls)"

definition pending :: "journal \<Rightarrow> journal_dir \<Rightarrow> journalRecord list" where
  "pending j d = unacked_recs (j_acked j) (wal_lines d)"

lemma wal_recs_append [simp]: "wal_recs (xs @ ys) = wal_recs xs @ wal_recs ys"
  by (induction xs) (auto split: option.splits)

lemma unacked_recs_append [simp]: "unacked_recs A (xs @ ys) = unacked_recs A xs @ unacked_recs A ys"
  by (simp add: unacked_recs_def)

lemma unacked_recs_Un: "unacked_recs (A \<union> B) ls = filter (\<lambda>r. rec_ID r \<notin> B) (unacked_recs A ls)"
  unfolding unacked_recs_def by (induction ls) (auto split: option.splits)

lemma filter_is_unacked_recs:
  "map (\<lambda>l. the (wl_rec l)) (filter (is_unacked A) ls) = unacked_recs A ls"
  unfolding unacked_recs_def by (induction ls) (auto simp: is_unacked_def split: option.splits)

lemma length_filter_is_unacked: "length (filter (is_unacked A) ls) = length (unacked_recs A ls)"
  by (metis filter_is_unacked_recs length_map)

lemma wal_recs_filter_unacked: "wal_recs (filter (is_unacked A) ls) = unacked_recs A ls"
  unfolding unacked_recs_def by (induction ls) (auto simp: is_unacked_def split: option.splits)

lemma unacked_recs_empty [simp]: "unacked_recs {} ls = wal_recs ls"
  by (simp add: unacked_recs_def)

lemma wal_ids_append [simp]: "wal_ids (xs @ ys) = wal_ids xs @ wal_ids ys"
  by (simp add: wal_ids_def)

lemma wal_ids_marshal [simp]: "wal_ids [marshal_line r] = [rec_ID r]"
  by (simp add: wal_ids_def marshal_line_def json_reread_def)

lemma wl_rec_marshal [simp]: "wl_rec (marshal_line r) = Some (json_reread r)"
  by (simp add: marshal_line_def)

lemma rec_ID_reread [simp]: "rec_ID (json_reread r) = rec_ID r"
  by (simp add: json_reread_def)

lemma set_wal_ids_filter: "set (wal_ids (filter P ls)) \<subseteq> set (wal_ids ls)"
  unfolding wal_ids_def by (induction ls) (auto split: option.splits)

lemma distinct_wal_ids_filter: "distinct (wal_ids ls) \<Longrightarrow> distinct (wal_ids (filter P ls))"
proof (induction ls)
  case Nil
  then show ?case by simp
next
  case (Cons l ls)
  then show ?case
    using set_wal_ids_filter [of P ls]
    by (cases "wl_rec l") (auto simp: wal_ids_def)
qed

lemma is_unacked_insert:
  "is_unacked (insert x A) l \<longleftrightarrow> is_unacked A l \<and> (\<forall>r. wl_rec l = Some r \<longrightarrow> rec_ID r \<noteq> x)"
  by (auto simp: is_unacked_def split: option.splits)

section \<open>Numbers\<close>

lemma u64_less_Suc:
  assumes "(n::u64) \<noteq> - 1"
  shows "n < n + 1"
proof -
  have "1 + n \<noteq> 0"
    using assms max_word_wrap [of n] by (auto simp: add.commute)
  then have "unat (n + 1) = Suc (unat n)"
    by (metis add.commute unatSuc)
  then show ?thesis by (simp add: word_less_nat_alt)
qed

lemma foldl_max_id_le: "(\<And>x. x \<in> set (wal_ids ls) \<Longrightarrow> x \<le> m) \<Longrightarrow> foldl max_id m ls = m"
proof (induction ls)
  case Nil
  then show ?case by simp
next
  case (Cons l ls)
  have "rec_ID r \<le> m" if "wl_rec l = Some r" for r
    using Cons.prems [of "rec_ID r"] that by (simp add: wal_ids_def)
  then have "max_id m l = m"
    by (auto simp: max_id_def split: option.splits)
  with Cons show ?case by (auto simp: wal_ids_def split: option.splits)
qed

lemma foldl_max_id_ge: "m \<le> foldl max_id m ls"
proof (induction ls arbitrary: m)
  case Nil
  then show ?case by simp
next
  case (Cons l ls)
  have "m \<le> max_id m l" by (auto simp: max_id_def split: option.splits)
  with Cons [of "max_id m l"] show ?case by simp
qed

lemma foldl_max_id_bound: "x \<in> set (wal_ids ls) \<Longrightarrow> x \<le> foldl max_id m ls"
proof (induction ls arbitrary: m)
  case Nil
  then show ?case by (simp add: wal_ids_def)
next
  case (Cons l ls)
  show ?case
  proof (cases "x \<in> set (wal_ids ls)")
    case True
    with Cons.IH show ?thesis by simp
  next
    case False
    with Cons.prems obtain r where "wl_rec l = Some r" "x = rec_ID r"
      by (auto simp: wal_ids_def split: option.splits)
    then have "x \<le> max_id m l" by (auto simp: max_id_def)
    also have "\<dots> \<le> foldl max_id (max_id m l) ls" by (rule foldl_max_id_ge)
    finally show ?thesis by simp
  qed
qed

lemma set_map_filter_id [simp]: "set (List.map_filter id as) = {x. Some x \<in> set as}"
  by (force simp: List.map_filter_def)

section \<open>Calls that do not fail\<close>

definition quiet :: "journal_dir \<Rightarrow> bool" where
  "quiet d = (set (jf_faults d) \<subseteq> {Works})"

definition served :: "journal_dir \<Rightarrow> journal_dir" where
  "served d = d\<lparr>jf_faults := snd (next_outcome (jf_faults d))\<rparr>"

lemma served_simps [simp]:
  "jf_wal (served d) = jf_wal d" "jf_tmp (served d) = jf_tmp d" "jf_ack (served d) = jf_ack d"
  "served (d\<lparr>jf_wal := w\<rparr>) = served d\<lparr>jf_wal := w\<rparr>"
  "served (d\<lparr>jf_tmp := t\<rparr>) = served d\<lparr>jf_tmp := t\<rparr>"
  "served (d\<lparr>jf_ack := a\<rparr>) = served d\<lparr>jf_ack := a\<rparr>"
  by (simp_all add: served_def)

lemma quiet_simps [simp]:
  "quiet d \<Longrightarrow> quiet (served d)"
  "quiet (d\<lparr>jf_wal := w\<rparr>) = quiet d"
  "quiet (d\<lparr>jf_tmp := t\<rparr>) = quiet d"
  "quiet (d\<lparr>jf_ack := a\<rparr>) = quiet d"
  by (cases "jf_faults d"; simp add: quiet_def served_def)+

lemma jsys_quiet [journal_simps]: "quiet d \<Longrightarrow> jsys j d = (Inr (), j, served d)"
  by (cases "jf_faults d") (auto simp: jsys_def quiet_def served_def)

lemma jok_simp [journal_simps]: "jok x j d = (Inr x, j, d)"
  by (simp add: jok_def)

lemma jfail_simp [journal_simps]: "jfail e j d = (Inl e, j, d)"
  by (simp add: jfail_def)

lemma scan_fits [journal_simps]: "list_all (fits n) ls \<Longrightarrow> scan n ls = (ls, False)"
  by (simp add: scan_def list_all_iff takeWhile_eq_all_conv)

lemma fits_larger: "list_all (fits MaxScanTokenSize) ls \<Longrightarrow> list_all (fits replayScanLimit) ls"
  by (auto simp: list_all_iff fits_def MaxScanTokenSize_def replayScanLimit_def)

lemma list_all_filter: "list_all P xs \<Longrightarrow> list_all P (filter Q xs)"
  by (auto simp: list_all_iff)

section \<open>Whole and torn lines\<close>

lemma ended_simps [simp]:
  "wl_text (ended l) = wl_text l" "wl_rec (ended l) = wl_rec l" "is_whole (ended l)"
  "fits n (ended l) = fits n l" "is_unacked A (ended l) = is_unacked A l"
  by (simp_all add: ended_def fits_def is_unacked_def)

lemma ended_whole: "is_whole l \<Longrightarrow> ended l = l"
  by (cases l) (simp_all add: ended_def)

lemma map_ended_whole: "list_all is_whole ls \<Longrightarrow> map ended ls = ls"
  by (induction ls) (auto simp: ended_whole)

lemma wal_recs_ended [simp]: "wal_recs (map ended ls) = wal_recs ls"
  by (induction ls) (auto split: option.splits)

lemma wal_ids_ended [simp]: "wal_ids (map ended ls) = wal_ids ls"
  by (simp add: wal_ids_def)

lemma list_all_fits_ended [simp]: "list_all (fits n) (map ended ls) = list_all (fits n) ls"
  by (simp add: list_all_iff)

lemma list_all_whole_ended [simp]: "list_all is_whole (map ended ls)"
  by (simp add: list_all_iff)

lemma is_whole_marshal [simp]: "is_whole (marshal_line r)"
  by (simp add: marshal_line_def)

lemma add_lines_whole: "list_all is_whole ls \<Longrightarrow> add_lines ls new = ls @ new"
  by (induction ls) (auto simp: is_whole_def)

lemma wal_recs_cut: "\<exists>rest. wal_recs new = wal_recs (cut_lines n new) @ rest"
  by (induction n new rule: cut_lines.induct) (auto split: option.splits)

text \<open>What is left of one line after a write of some of its bytes.\<close>

lemma cut_line_cases:
  assumes "n < lines_size [l]" "is_whole l"
  obtains (none) "cut_lines n [l] = []"
    | (torn) t where "cut_lines n [l] = [TornLine t None]" "prefix t (wl_text l)" "t \<noteq> wl_text l" "t \<noteq> []"
    | (unended) "cut_lines n [l] = [TornLine (wl_text l) (wl_rec l)]"
proof (cases "n = 0 \<or> n = length (wl_text l)")
  case True
  then show thesis using none unended by (cases "wl_text l = []") auto
next
  case False
  then have "n < length (wl_text l)" "n \<noteq> 0" using assms(1) by (auto simp: lines_size_def)
  then show thesis
    by (intro torn [of "take n (wl_text l)"]) (auto simp: take_is_prefix dest: arg_cong [where f = length])
qed

section \<open>The invariant\<close>

definition wal_wf :: "u64 \<Rightarrow> wal_line list \<Rightarrow> bool" where
  "wal_wf n ls = (distinct (wal_ids ls) \<and> (\<forall>x \<in> set (wal_ids ls). x \<noteq> 0 \<and> x \<le> n)
     \<and> list_all (fits MaxScanTokenSize) ls \<and> list_all is_whole ls)"

definition acked_on_disk :: "journal_dir \<Rightarrow> u64 set" where
  "acked_on_disk d = (case jf_ack d of None \<Rightarrow> {} | Some as \<Rightarrow> {x. Some x \<in> set as})"

text \<open>
  The journal is open and no write is outstanding; the numbers in the log are distinct, not
  zero and not above the counter; the acknowledged numbers are those in ack.jsonl, and all
  belong to the log; the count of pending records is exact.
\<close>

definition journal_inv :: "journal \<Rightarrow> journal_dir \<Rightarrow> bool" where
  "journal_inv j d =
     (jf_wal d \<noteq> None \<and> jf_ack d \<noteq> None \<and> j_wal j \<and> j_ackFile j
      \<and> j_walWriter j = Some new_writer
      \<and> wal_wf (j_nextID j) (wal_lines d)
      \<and> j_acked j = acked_on_disk d
      \<and> j_acked j \<subseteq> set (wal_ids (wal_lines d))
      \<and> j_pendingCount j = int (length (pending j d)))"

lemma journal_invE:
  assumes "journal_inv j d"
  obtains ls as where "jf_wal d = Some ls" "jf_ack d = Some as" "j_wal j" "j_ackFile j"
    "j_walWriter j = Some new_writer" "wal_wf (j_nextID j) ls"
    "j_acked j = {x. Some x \<in> set as}" "j_acked j \<subseteq> set (wal_ids ls)"
    "j_pendingCount j = int (length (unacked_recs (j_acked j) ls))"
  using assms by (auto simp: journal_inv_def wal_lines_def acked_on_disk_def pending_def)

lemma wal_wf_filter: "wal_wf n ls \<Longrightarrow> wal_wf n (filter P ls)"
  using set_wal_ids_filter [of P ls]
  by (auto simp: wal_wf_def distinct_wal_ids_filter list_all_filter)

lemma wal_wf_snoc:
  assumes "wal_wf n ls" "n \<noteq> - 1" "rec_ID r = n + 1" "fits MaxScanTokenSize (marshal_line r)"
  shows "wal_wf (n + 1) (ls @ [marshal_line r])"
proof -
  note less = u64_less_Suc [OF assms(2)]
  have "n + 1 \<notin> set (wal_ids ls)"
    using assms(1) less by (auto simp: wal_wf_def)
  moreover have "n + 1 \<noteq> 0" using less by auto
  moreover have "x \<le> n + 1" if "x \<in> set (wal_ids ls)" for x
    using that assms(1) less by (auto simp: wal_wf_def intro: order.trans order.strict_implies_order)
  ultimately show ?thesis
    using assms by (auto simp: wal_wf_def)
qed

lemma flushWal_idle [journal_simps]:
  "j_walWriter j = Some new_writer \<Longrightarrow>
   flushWalLocked j d = (if j_fsync j \<and> j_wal j then jsys j d else (Inr (), j, d))"
  by (simp add: flushWalLocked_def new_writer_def Let_def jok_def)

section \<open>Opening the directory\<close>

lemma wal_ids_bounded: "wal_wf n ls \<Longrightarrow> foldl max_id n ls = n"
  by (rule foldl_max_id_le) (auto simp: wal_wf_def)

lemma wal_wf_scan_max: "wal_wf n ls \<Longrightarrow> wal_wf (foldl max_id 0 ls) ls"
  by (auto simp: wal_wf_def intro: foldl_max_id_bound)

lemma NewJournal_reopens:
  assumes "jf_wal d = Some ls" "jf_ack d = Some as" "wal_wf n ls"
    and "{x. Some x \<in> set as} \<subseteq> set (wal_ids ls)" "quiet d" "dir \<noteq> []"
  shows "\<exists>j' d'. NewJournal dir fs maxp now d = (Inr (Some j'), d')
    \<and> journal_inv j' d' \<and> quiet d' \<and> wal_lines d' = ls \<and> acked_on_disk d' = {x. Some x \<in> set as}
    \<and> j_fsync j' = fs \<and> j_maxPending j' = maxp"
proof -
  have fit: "list_all (fits MaxScanTokenSize) ls"
    using assms(3) by (simp add: wal_wf_def)
  have wf: "wal_wf (foldl max_id 0 ls) ls"
    using assms(3) by (rule wal_wf_scan_max)
  show ?thesis
    using assms(4-6)
    by (simp add: NewJournal_def assms(1,2) journal_simps loadAcked_def openWAL_def
        scanMaxID_def openAckFile_def countPendingOnDiskLocked_def fit wf
        journal_inv_def wal_lines_def acked_on_disk_def pending_def length_filter_is_unacked)
qed

section \<open>Appending\<close>

definition fails :: "journal_dir \<Rightarrow> bool" where
  "fails d = (fst (next_outcome (jf_faults d)) \<noteq> Works)"

lemma jsys_eq: "jsys j d = (if fails d then Inl JIOError else Inr (), j, served d)"
  by (cases "fst (next_outcome (jf_faults d))"; cases "next_outcome (jf_faults d)")
    (auto simp: jsys_def fails_def served_def)

text \<open>A write to wal.jsonl under arbitrary failures, and one that does not fail.\<close>

definition extend_wal :: "wal_line list \<Rightarrow> journal_dir \<Rightarrow> journal_dir" where
  "extend_wal new d = d\<lparr>jf_wal := map_option (\<lambda>ls. add_lines ls new) (jf_wal d),
     jf_faults := snd (next_outcome (jf_faults d))\<rparr>"

lemma walFileWrite_cases:
  obtains (written) "walFileWrite new j d = (Inr (), j, extend_wal new d)"
    | (cut_short) n where "walFileWrite new j d = (Inl JIOError, j, extend_wal (cut_lines n new) d)"
        "n < lines_size new"
proof (cases "next_outcome (jf_faults d)")
  case (Pair x fs)
  show thesis
  proof (cases x)
    case Works
    with Pair show thesis
      using written by (simp add: walFileWrite_def extend_wal_def Let_def)
  next
    case (Fails n)
    with Pair show thesis
      using written cut_short [of n]
      by (cases "n < lines_size new") (simp_all add: walFileWrite_def extend_wal_def Let_def)
  qed
qed

lemma walFileWrite_quiet [journal_simps]:
  "quiet d \<Longrightarrow> walFileWrite new j d = (Inr (), j, extend_wal new d)"
  by (cases "jf_faults d") (auto simp: walFileWrite_def quiet_def extend_wal_def Let_def)

lemma extend_wal_simps [simp]:
  "jf_ack (extend_wal new d) = jf_ack d" "jf_tmp (extend_wal new d) = jf_tmp d"
  "quiet d \<Longrightarrow> quiet (extend_wal new d)"
  "jf_wal d = Some ls \<Longrightarrow> jf_wal (extend_wal new d) = Some (add_lines ls new)"
  by (cases "jf_faults d"; simp add: extend_wal_def quiet_def)+

lemma quiet_not_fails: "quiet d \<Longrightarrow> \<not> fails d"
  by (cases "jf_faults d") (auto simp: quiet_def fails_def)

definition backlogged :: "journal \<Rightarrow> bool" where
  "backlogged j = (0 < j_maxPending j \<and> j_maxPending j \<le> j_pendingCount j)"

lemma pending_snoc:
  assumes "wal_lines d' = wal_lines d @ [marshal_line r]" "j_acked j' = j_acked j"
    "rec_ID r \<notin> j_acked j"
  shows "pending j' d' = pending j d @ [json_reread r]"
  using assms by (simp add: pending_def unacked_recs_def)

lemma next_id_fresh:
  assumes "journal_inv j d" "j_nextID j \<noteq> - 1"
  shows "j_nextID j + 1 \<notin> j_acked j" "j_nextID j + 1 \<notin> set (wal_ids (wal_lines d))"
proof -
  show "j_nextID j + 1 \<notin> set (wal_ids (wal_lines d))"
    using assms u64_less_Suc [OF assms(2)] by (auto simp: journal_inv_def wal_wf_def)
  then show "j_nextID j + 1 \<notin> j_acked j"
    using assms(1) by (auto simp: journal_inv_def)
qed

text \<open>
  An append that starts with an idle writer on a log of whole lines, under arbitrary failures of
  its system calls: it is done; or the write was cut short, and the writer keeps the error; or
  the line is written and the fsync after it failed.
\<close>

lemma appendRecord_cases [consumes 5, case_names appended torn unsynced]:
  assumes "j_walWriter j = Some new_writer" "jf_wal d = Some ls" "list_all is_whole ls"
    and "\<not> backlogged j" "appendRecord r j d = (res, j', d')"
  defines "new \<equiv> marshal_line (r\<lparr>rec_ID := j_nextID j + 1\<rparr>)"
  obtains (appended) "res = Inr (j_nextID j + 1)"
        "j' = j\<lparr>j_nextID := j_nextID j + 1, j_pendingCount := j_pendingCount j + 1\<rparr>"
        "jf_wal d' = Some (ls @ [new])" "jf_ack d' = jf_ack d" "quiet d \<Longrightarrow> quiet d'"
    | (torn) n w where "res = Inl JIOError" "j' = j\<lparr>j_nextID := j_nextID j + 1, j_walWriter := Some w\<rparr>"
        "w_err w" "n < lines_size [new]" "jf_wal d' = Some (ls @ cut_lines n [new])"
        "jf_ack d' = jf_ack d" "\<not> quiet d"
    | (unsynced) "res = Inl JIOError" "j' = j\<lparr>j_nextID := j_nextID j + 1\<rparr>" "j_fsync j"
        "jf_wal d' = Some (ls @ [new])" "jf_ack d' = jf_ack d" "\<not> quiet d"
proof -
  define j1 where "j1 = j\<lparr>j_nextID := j_nextID j + 1\<rparr>"
  have j1: "j_walWriter j1 = Some new_writer" "j1\<lparr>j_walWriter := Some new_writer\<rparr> = j1"
    "j_fsync j1 = j_fsync j"
    using assms(1) by (cases j; simp add: j1_def)+
  have run: "appendRecord r j d = jbind (walWrite new j1 d) (\<lambda>_ j d. jbind (flushWalLocked j d)
      (\<lambda>_ j d. jok (j_nextID j1) (j\<lparr>j_pendingCount := j_pendingCount j + 1\<rparr>) d))"
    unfolding appendRecord_def if_not_P [OF assms(4) [unfolded backlogged_def]]
    by (simp add: Let_def new_def j1_def)
  have nq: "\<not> quiet d" if "fails (extend_wal [new] d)"
    using that extend_wal_simps(3) quiet_not_fails by blast
  have fin: thesis if "appendRecord r j d = jbind (if j_fsync j \<and> j_wal j1 then jsys j1 (extend_wal [new] d)
        else jok () j1 (extend_wal [new] d)) (\<lambda>_ j d. jok (j_nextID j1) (j\<lparr>j_pendingCount := j_pendingCount j + 1\<rparr>) d)"
    using that assms(2,3,5) appended unsynced
    by (auto dest: nq simp: jsys_eq jok_def add_lines_whole j1_def split: if_splits)
  show thesis
  proof (cases "lines_size [new] \<le> bufioSize")
    case True
    let ?w = "\<lparr>w_buf = [new], w_err = False\<rparr>"
    let ?jw = "j1\<lparr>j_walWriter := Some ?w\<rparr>"
    have w: "walWrite new j1 d = (Inr (), ?jw, d)"
      using True j1(1) by (simp add: walWrite_def new_writer_def jok_def)
    show thesis
    proof (cases rule: walFileWrite_cases [of "[new]" ?jw d])
      case written
      then show thesis
        by (intro fin) (simp add: run w flushWalLocked_def Let_def j1)
    next
      case (cut_short n)
      then have "appendRecord r j d = (Inl JIOError, ?jw\<lparr>j_walWriter := Some (?w\<lparr>w_err := True\<rparr>)\<rparr>,
          extend_wal (cut_lines n [new]) d)"
        by (simp add: run w flushWalLocked_def Let_def jfail_def)
      moreover have "\<not> quiet d" using cut_short(1) walFileWrite_quiet by fastforce
      ultimately show thesis
        using torn [of "?w\<lparr>w_err := True\<rparr>" n] cut_short(2) assms(2,3,5)
        by (simp add: j1_def add_lines_whole)
    qed
  next
    case False
    show thesis
    proof (cases rule: walFileWrite_cases [of "[new]" j1 d])
      case written
      with False j1 have w: "walWrite new j1 d = (Inr (), j1, extend_wal [new] d)"
        by (simp add: walWrite_def new_writer_def jok_def)
      show thesis
        by (rule fin) (simp add: run w flushWal_idle j1 jok_def)
    next
      case (cut_short n)
      then have "appendRecord r j d = (Inl JIOError, j1\<lparr>j_walWriter := Some (new_writer\<lparr>w_err := True\<rparr>)\<rparr>,
          extend_wal (cut_lines n [new]) d)"
        using False j1(1) by (simp add: run walWrite_def new_writer_def jfail_def)
      moreover have "\<not> quiet d" using cut_short(1) walFileWrite_quiet by fastforce
      ultimately show thesis
        using torn [of "new_writer\<lparr>w_err := True\<rparr>" n] cut_short(2) assms(2,3,5)
        by (simp add: j1_def add_lines_whole)
    qed
  qed
qed

lemma append_idle:
  assumes "quiet d" "j_walWriter j = Some new_writer" "jf_wal d = Some ls" "list_all is_whole ls"
    "\<not> backlogged j"
  shows "\<exists>d'. appendRecord r j d = (Inr (j_nextID j + 1),
       j\<lparr>j_nextID := j_nextID j + 1, j_pendingCount := j_pendingCount j + 1\<rparr>, d')
    \<and> quiet d' \<and> jf_wal d' = Some (ls @ [marshal_line (r\<lparr>rec_ID := j_nextID j + 1\<rparr>)])
    \<and> jf_ack d' = jf_ack d"
proof -
  obtain res j' d' where "appendRecord r j d = (res, j', d')" by (metis surj_pair)
  with assms show ?thesis
    by (cases rule: appendRecord_cases [OF assms(2-5)]) auto
qed

text \<open>What an append that fails has left of its line.\<close>

definition left_over :: "bool \<Rightarrow> wal_line \<Rightarrow> wal_line list \<Rightarrow> bool" where
  "left_over synced new rest = (rest = []
     \<or> (\<exists>t. rest = [TornLine t None] \<and> prefix t (wl_text new) \<and> t \<noteq> wl_text new \<and> t \<noteq> [])
     \<or> rest = [TornLine (wl_text new) (wl_rec new)]
     \<or> synced \<and> rest = [new])"

lemma left_over_cut: "n < lines_size [l] \<Longrightarrow> is_whole l \<Longrightarrow> left_over b l (cut_lines n [l])"
  by (cases rule: cut_line_cases [of n l]) (auto simp: left_over_def)

lemma left_over_recs:
  "left_over b l rest \<Longrightarrow> wal_recs rest = [] \<or> wal_recs rest = wal_recs [l]"
  by (auto simp: left_over_def)

lemma appendRecord_effect:
  assumes "journal_inv j d" "\<not> backlogged j" "appendRecord r j d = (res, j', d')"
  defines "new \<equiv> marshal_line (r\<lparr>rec_ID := j_nextID j + 1\<rparr>)"
  shows "(case res of
       Inr i \<Rightarrow> i = j_nextID j + 1 \<and> wal_lines d' = wal_lines d @ [new]
         \<and> j' = j\<lparr>j_nextID := j_nextID j + 1, j_pendingCount := j_pendingCount j + 1\<rparr>
     | Inl e \<Rightarrow> e = JIOError \<and> j_acked j' = j_acked j
         \<and> (\<exists>rest. wal_lines d' = wal_lines d @ rest \<and> left_over (j_fsync j) new rest))
     \<and> jf_wal d' \<noteq> None \<and> jf_ack d' = jf_ack d"
proof -
  obtain ls where ls: "j_walWriter j = Some new_writer" "jf_wal d = Some ls" "list_all is_whole ls"
    using assms(1) by (auto simp: wal_wf_def elim: journal_invE)
  show ?thesis
    using ls(2) left_over_cut [of _ new "j_fsync j"]
    by (cases rule: appendRecord_cases [OF ls assms(2,3)])
      (auto simp: wal_lines_def new_def left_over_def)
qed

lemma appendRecord_inv:
  assumes "journal_inv j d" "\<not> backlogged j" "j_nextID j \<noteq> - 1"
    and "fits MaxScanTokenSize (marshal_line (r\<lparr>rec_ID := j_nextID j + 1\<rparr>))"
    and "appendRecord r j d = (Inr i, j', d')"
  shows "journal_inv j' d'" "i = j_nextID j + 1" "j_nextID j' = i"
    and "pending j' d' = pending j d @ [json_reread (r\<lparr>rec_ID := i\<rparr>)]"
proof -
  note eff = appendRecord_effect [OF assms(1,2,5)]
  note fresh = next_id_fresh [OF assms(1,3)]
  show i: "i = j_nextID j + 1" and "j_nextID j' = i" using eff by auto
  show p: "pending j' d' = pending j d @ [json_reread (r\<lparr>rec_ID := i\<rparr>)]"
    using eff fresh by (intro pending_snoc) auto
  have "wal_wf (j_nextID j') (wal_lines d')"
    using eff assms(1,3,4) by (auto simp: journal_inv_def intro!: wal_wf_snoc)
  then show "journal_inv j' d'"
    using eff assms(1) p by (auto simp: journal_inv_def acked_on_disk_def)
qed

section \<open>Compacting\<close>

lemma wal_lines_simps [simp]:
  "wal_lines (served d) = wal_lines d"
  "wal_lines (d\<lparr>jf_ack := a\<rparr>) = wal_lines d"
  "wal_lines (d\<lparr>jf_tmp := t\<rparr>) = wal_lines d"
  "wal_lines (d\<lparr>jf_wal := Some ls\<rparr>) = ls"
  by (simp_all add: wal_lines_def)

lemma writeTmp_quiet:
  "quiet d \<Longrightarrow> jf_tmp d = Some t \<Longrightarrow>
   \<exists>d'. writeTmp ls j d = (Inr (), j, d') \<and> quiet d' \<and> jf_tmp d' = Some (t @ map ended ls)
     \<and> jf_wal d' = jf_wal d \<and> jf_ack d' = jf_ack d"
proof (induction ls arbitrary: d t)
  case Nil
  then show ?case by (simp add: journal_simps)
next
  case (Cons l ls)
  let ?d = "served d\<lparr>jf_tmp := Some (t @ [ended l])\<rparr>"
  have "quiet ?d" "jf_tmp ?d = Some (t @ [ended l])" using Cons.prems by simp_all
  from Cons.IH [OF this] show ?case
    using Cons.prems by (auto simp: journal_simps)
qed

lemma flushWal_quiet:
  assumes "j_walWriter j = Some new_writer" "quiet d"
  obtains d' where "flushWalLocked j d = (Inr (), j, d')" "quiet d'"
    "jf_wal d' = jf_wal d" "jf_ack d' = jf_ack d" "jf_tmp d' = jf_tmp d"
  using assms by (cases "j_fsync j \<and> j_wal j") (auto simp: journal_simps)

text \<open>Compaction keeps exactly the pending lines and forgets every acknowledgement.\<close>

lemma compact_quiet:
  assumes "journal_inv j d" "quiet d"
  shows "\<exists>j' d'. compactLocked now j d = (Inr (), j', d')
    \<and> journal_inv j' d' \<and> quiet d'
    \<and> wal_lines d' = filter (is_unacked (j_acked j)) (wal_lines d)
    \<and> j_acked j' = {} \<and> j_nextID j' = j_nextID j
    \<and> j_fsync j' = j_fsync j \<and> j_maxPending j' = j_maxPending j"
proof -
  obtain ls as where j: "jf_wal d = Some ls" "j_walWriter j = Some new_writer"
      "wal_wf (j_nextID j) ls"
    using assms(1) by (auto elim: journal_invE)
  define pend where "pend = filter (is_unacked (j_acked j)) ls"
  have wf: "wal_wf (j_nextID j) pend"
    unfolding pend_def using j(3) by (rule wal_wf_filter)
  have fit: "list_all (fits replayScanLimit) ls" "list_all (fits MaxScanTokenSize) pend"
    using j(3) wf by (auto simp: wal_wf_def intro: fits_larger)
  have max: "foldl max_id (j_nextID j) pend = j_nextID j"
    using wf by (rule wal_ids_bounded)
  obtain d1 where d1: "flushWalLocked j d = (Inr (), j, d1)" "quiet d1" "jf_wal d1 = Some ls"
    using flushWal_quiet [OF j(2) assms(2)] j(1) by metis
  let ?d = "served (served d1)\<lparr>jf_tmp := Some []\<rparr>"
  have "quiet ?d" "jf_tmp ?d = Some []" using d1 by simp_all
  have "map ended pend = pend" using wf by (simp add: wal_wf_def map_ended_whole)
  with writeTmp_quiet [OF \<open>quiet ?d\<close> \<open>jf_tmp ?d = Some []\<close>, of pend j]
  obtain d2 where d2: "writeTmp pend j ?d = (Inr (), j, d2)" "quiet d2" "jf_tmp d2 = Some pend"
    by auto
  have "length (wal_recs pend) = length pend"
    by (simp add: pend_def wal_recs_filter_unacked length_filter_is_unacked)
  then show ?thesis
    using d1 d2 fit wf max
    by (simp add: compactLocked_def journal_simps pend_def [symmetric] openWAL_def scanMaxID_def
        resetAckFileLocked_def openAckFile_def journal_inv_def acked_on_disk_def pending_def
        wal_lines_def [of d] j(1) length_filter_is_unacked new_writer_def)
qed

section \<open>Acknowledging\<close>

lemma length_filter_one:
  assumes "distinct (map f xs)" "y \<in> f ` set xs"
  shows "length xs = Suc (length (filter (\<lambda>x. f x \<noteq> y) xs))"
  using assms
proof (induction xs)
  case Nil
  then show ?case by simp
next
  case (Cons x xs)
  show ?case
  proof (cases "f x = y")
    case True
    with Cons.prems have "filter (\<lambda>x. f x \<noteq> y) xs = xs"
      by (simp add: filter_id_conv) (metis imageI)
    with True show ?thesis by simp
  next
    case False
    with Cons show ?thesis by auto
  qed
qed

lemma pending_ack_one:
  assumes "distinct (wal_ids ls)" "i \<in> set (wal_ids ls)" "i \<notin> A"
  shows "length (unacked_recs A ls) = Suc (length (unacked_recs (insert i A) ls))"
proof -
  have "unacked_recs (insert i A) ls = filter (\<lambda>r. rec_ID r \<noteq> i) (unacked_recs A ls)"
    using unacked_recs_Un [of A "{i}" ls] by simp
  moreover have "distinct (map rec_ID (unacked_recs A ls))"
    using assms(1) by (simp add: unacked_recs_def wal_ids_def distinct_map_filter)
  moreover have "i \<in> rec_ID ` set (unacked_recs A ls)"
    using assms(2,3) by (auto simp: unacked_recs_def wal_ids_def)
  ultimately show ?thesis by (simp add: length_filter_one)
qed

lemma journal_inv_ack_one:
  assumes "journal_inv j d" "i \<in> set (wal_ids (wal_lines d))" "i \<notin> j_acked j"
  shows "journal_inv (j\<lparr>j_acked := insert i (j_acked j), j_pendingCount := j_pendingCount j - 1\<rparr>)
    (d\<lparr>jf_ack := map_option (\<lambda>as. as @ [Some i]) (jf_ack d)\<rparr>)"
  using assms pending_ack_one [of "wal_lines d" i "j_acked j"]
  by (auto simp: journal_inv_def acked_on_disk_def pending_def wal_wf_def wal_lines_def)

lemma journal_inv_served [simp]: "journal_inv j (served d) = journal_inv j d"
  by (simp add: journal_inv_def acked_on_disk_def pending_def)

lemma ackLoop_quiet:
  "journal_inv j d \<Longrightarrow> quiet d \<Longrightarrow> set ids \<subseteq> insert 0 (set (wal_ids (wal_lines d))) \<Longrightarrow>
   \<exists>k j' d'. ackLoop ids n j d = (Inr (n + k), j', d') \<and> 0 \<le> k
     \<and> (k = 0 \<longrightarrow> j' = j \<and> d' = d)
     \<and> journal_inv j' d' \<and> quiet d' \<and> wal_lines d' = wal_lines d
     \<and> j_acked j' = j_acked j \<union> (set ids - {0}) \<and> j_nextID j' = j_nextID j
     \<and> j_fsync j' = j_fsync j \<and> j_maxPending j' = j_maxPending j"
proof (induction ids arbitrary: n j d)
  case Nil
  then show ?case by (auto simp: journal_simps intro!: exI [of _ 0])
next
  case (Cons i ids)
  show ?case
  proof (cases "i = 0 \<or> i \<in> j_acked j")
    case True
    then have "ackLoop (i # ids) n j d = ackLoop ids n j d"
      "j_acked j \<union> (set (i # ids) - {0}) = j_acked j \<union> (set ids - {0})" by auto
    with Cons.IH [OF Cons.prems(1,2), of n] Cons.prems(3) show ?thesis
      by (simp del: ackLoop.simps)
  next
    case False
    let ?j = "j\<lparr>j_acked := insert i (j_acked j), j_pendingCount := j_pendingCount j - 1\<rparr>"
    let ?d = "(served d)\<lparr>jf_ack := map_option (\<lambda>as. as @ [Some i]) (jf_ack d)\<rparr>"
    have "i \<in> set (wal_ids (wal_lines d))" using Cons.prems(3) False by auto
    then have "journal_inv ?j ?d"
      using Cons.prems(1) False journal_inv_ack_one [of j "served d" i] by simp
    moreover have "quiet ?d" using Cons.prems(2) by simp
    moreover have "set ids \<subseteq> insert 0 (set (wal_ids (wal_lines ?d)))" using Cons.prems(3) by simp
    ultimately obtain k j' d' where "ackLoop ids (n + 1) ?j ?d = (Inr (n + 1 + k), j', d')" "0 \<le> k"
      "journal_inv j' d'" "quiet d'" "wal_lines d' = wal_lines d"
      "j_acked j' = insert i (j_acked j) \<union> (set ids - {0})" "j_nextID j' = j_nextID j"
      "j_fsync j' = j_fsync j" "j_maxPending j' = j_maxPending j"
      using Cons.IH [of ?j ?d "n + 1"] by auto
    with False Cons.prems(2) show ?thesis
      by (intro exI [of _ "k + 1"]) (auto simp: jsys_quiet algebra_simps)
  qed
qed

text \<open>
  After an acknowledgement the pending records are those whose number was not named,
  whether or not the call compacted the log.
\<close>

lemma journal_inv_fields:
  "journal_inv (j\<lparr>j_acksSinceCompact := n\<rparr>) d = journal_inv j d"
  by (simp add: journal_inv_def pending_def)

lemma pending_compacted:
  assumes "wal_lines d' = filter (is_unacked (j_acked j)) (wal_lines d)" "j_acked j' = {}"
  shows "pending j' d' = pending j d"
  using assms by (simp add: pending_def wal_recs_filter_unacked)

lemma maybeCompact_quiet:
  assumes "journal_inv j d" "quiet d"
  shows "\<exists>j' d'. maybeCompactLocked now j d = (Inr (), j', d')
    \<and> journal_inv j' d' \<and> quiet d' \<and> pending j' d' = pending j d \<and> j_nextID j' = j_nextID j
    \<and> j_fsync j' = j_fsync j \<and> j_maxPending j' = j_maxPending j"
  using compact_quiet [OF assms, of now] assms
  by (auto simp: maybeCompactLocked_def jok_def pending_compacted)

lemma Ack_quiet:
  assumes "journal_inv j d" "quiet d" "set ids \<subseteq> insert 0 (set (wal_ids (wal_lines d)))"
  shows "\<exists>j' d'. Ack now ids j d = (Inr (), j', d')
    \<and> journal_inv j' d' \<and> quiet d' \<and> j_nextID j' = j_nextID j
    \<and> pending j' d' = filter (\<lambda>r. rec_ID r \<notin> set ids) (pending j d)
    \<and> j_fsync j' = j_fsync j \<and> j_maxPending j' = j_maxPending j"
proof -
  obtain k j1 d1 where 1: "ackLoop ids 0 j d = (Inr k, j1, d1)" "k = 0 \<longrightarrow> j1 = j \<and> d1 = d"
    "journal_inv j1 d1" "quiet d1" "wal_lines d1 = wal_lines d" "0 \<le> k"
    "j_acked j1 = j_acked j \<union> (set ids - {0})" "j_nextID j1 = j_nextID j"
    "j_fsync j1 = j_fsync j" "j_maxPending j1 = j_maxPending j"
    using ackLoop_quiet [OF assms, of 0] by auto
  have "0 \<notin> set (wal_ids (wal_lines d))"
    using assms(1) by (auto simp: journal_inv_def wal_wf_def)
  then have nz: "rec_ID r \<noteq> 0" if "r \<in> set (pending j d)" for r
    using that by (auto simp: pending_def unacked_recs_def wal_ids_def)
  have p1: "pending j1 d1 = filter (\<lambda>r. rec_ID r \<notin> set ids) (pending j d)"
    using 1(5,7) nz unfolding pending_def
    by (auto simp: unacked_recs_Un unacked_recs_def intro!: filter_cong)
  define j2 where "j2 = j1\<lparr>j_acksSinceCompact := j_acksSinceCompact j1 + k\<rparr>"
  define d2 where "d2 = (if j_fsync j2 then served d1 else d1)"
  have 2: "journal_inv j2 d2" "quiet d2" "pending j2 d2 = pending j1 d1"
    using 1(3,4) by (auto simp: j2_def d2_def journal_inv_fields pending_def)
  have "j_ackFile j" using assms(1) by (simp add: journal_inv_def)
  then have "Ack now ids j d = (if ids = [] \<or> k = 0 then (Inr (), j1, d1) else maybeCompactLocked now j2 d2)"
    using 1(1,2,4) by (auto simp: Ack_def journal_simps j2_def d2_def Let_def)
  with maybeCompact_quiet [OF 2(1,2), of now] 1 2(3) p1 show ?thesis
    by (auto simp: j2_def)
qed

end
