(* ===== verification/Durable_Log.thy ===== *)
theory Durable_Log
  imports Prelude
begin

text \<open>
  The contract of a durable log, as the rest of the program relies on it: \<open>pend\<close> is the list
  of entries that a restart would hand back; an operation drops from it the entries whose keys
  it acknowledges and adds what it appends, and does nothing else to it.
\<close>

locale durable_log =
  fixes inv :: "'s \<Rightarrow> bool"
    and pend :: "'s \<Rightarrow> 'r list"
    and key :: "'r \<Rightarrow> 'k"
    and step :: "'o \<Rightarrow> 's \<Rightarrow> 's"
    and guard :: "'o \<Rightarrow> 's \<Rightarrow> bool"
    and acks :: "'o \<Rightarrow> 'k set"
    and adds :: "'o \<Rightarrow> 's \<Rightarrow> 'r list"
  assumes inv_step: "inv s \<Longrightarrow> guard x s \<Longrightarrow> inv (step x s)"
    and pend_step: "inv s \<Longrightarrow> guard x s \<Longrightarrow>
      pend (step x s) = filter (\<lambda>r. key r \<notin> acks x) (pend s) @ adds x s"
begin

lemma inv_run: "inv s \<Longrightarrow> guarded guard step xs s \<Longrightarrow> inv (run step xs s)"
  by (rule run_invariant [of inv guard step]) (auto intro: inv_step)

text \<open>What no operation of the run acknowledges keeps its place at the head of the log.\<close>

lemma pend_run:
  "inv s \<Longrightarrow> guarded guard step xs s \<Longrightarrow>
   \<exists>new. pend (run step xs s) = filter (\<lambda>r. \<forall>x \<in> set xs. key r \<notin> acks x) (pend s) @ new"
proof (induction xs arbitrary: s)
  case Nil
  then show ?case by simp
next
  case (Cons x xs)
  let ?t = "step x s"
  have "inv ?t" "guarded guard step xs ?t" using Cons.prems inv_step by simp_all
  from Cons.IH [OF this] obtain new where
    "pend (run step xs ?t) = filter (\<lambda>r. \<forall>x \<in> set xs. key r \<notin> acks x) (pend ?t) @ new" by blast
  moreover have "pend ?t = filter (\<lambda>r. key r \<notin> acks x) (pend s) @ adds x s"
    using Cons.prems pend_step by simp
  ultimately show ?case by (auto simp: conj_commute)
qed

lemma durable:
  assumes "inv s" "guarded guard step xs s" "r \<in> set (pend s)" "\<forall>x \<in> set xs. key r \<notin> acks x"
  shows "r \<in> set (pend (run step xs s))"
  using pend_run [OF assms(1,2)] assms(3,4) by auto

lemma acked_gone:
  assumes "inv s" "guard x s" "key r \<in> acks x" "r \<notin> set (adds x s)"
  shows "r \<notin> set (pend (step x s))"
  using pend_step [OF assms(1,2)] assms(3,4) by auto

lemma nothing_invented:
  "inv s \<Longrightarrow> guarded guard step xs s \<Longrightarrow> r \<in> set (pend (run step xs s)) \<Longrightarrow>
   r \<in> set (pend s) \<or> (\<exists>ys x zs. xs = ys @ x # zs \<and> r \<in> set (adds x (run step ys s)))"
proof (induction xs rule: rev_induct)
  case Nil
  then show ?case by simp
next
  case (snoc x xs)
  let ?t = "run step xs s"
  have g: "guarded guard step xs s" "guard x ?t" "inv ?t"
    using snoc.prems inv_run by (auto simp: guarded_append)
  have "r \<in> set (pend ?t) \<or> r \<in> set (adds x ?t)"
    using snoc.prems(3) pend_step [OF g(3,2)] by (auto simp: run_append)
  then show ?case
  proof
    assume "r \<in> set (adds x ?t)"
    then show ?thesis by blast
  next
    assume "r \<in> set (pend ?t)"
    with snoc.IH [OF snoc.prems(1) g(1)] show ?thesis
      by (metis append.assoc append_Cons)
  qed
qed

end

end
