(* ===== verification/Journal_Log.thy ===== *)
theory Journal_Log
  imports Journal_Facts Durable_Log
begin

text \<open>
  The journal as a durable log: a run of its operations, with restarts of the process between
  them, and the interpretation of the contract on the code's model. The properties of the
  journal rest on it.
\<close>

section \<open>Runs of the journal\<close>

text \<open>
  \<open>JRestart\<close>: the process dies and a new one opens the directory. \<open>JShutdown\<close>: it closes the
  journal first (\<open>shutdownJournal\<close> in server.go).
\<close>

datatype jop =
    JAppend string string
  | JAppendOpaque string string string
  | JAck nanos "u64 list"
  | JCompact nanos
  | JRestart nanos
  | JShutdown nanos

fun reopen :: "nanos \<Rightarrow> journal \<times> journal_dir \<Rightarrow> journal \<times> journal_dir" where
  "reopen now (j, d) = (case NewJournal ''journal'' (j_fsync j) (j_maxPending j) now d of
     (Inr (Some j'), d') \<Rightarrow> (j', d')
   | (_, d') \<Rightarrow> (j, d'))"

fun journal_step :: "jop \<Rightarrow> journal \<times> journal_dir \<Rightarrow> journal \<times> journal_dir" where
  "journal_step (JAppend p c) (j, d) = snd (Append p c j d)"
| "journal_step (JAppendOpaque p c t) (j, d) = snd (AppendOpaque p c t j d)"
| "journal_step (JAck now ids) (j, d) = snd (Ack now ids j d)"
| "journal_step (JCompact now) (j, d) = snd (Compact now j d)"
| "journal_step (JRestart now) (j, d) = reopen now (j, d)"
| "journal_step (JShutdown now) (j, d) = reopen now (snd (Close now j d))"

text \<open>The record an append writes, as it is read back.\<close>

definition text_record :: "u64 \<Rightarrow> string \<Rightarrow> string \<Rightarrow> journalRecord" where
  "text_record i p c = \<lparr>rec_ID = i, rec_Params = p, rec_Content = c, rec_ContentB64 = [],
     rec_Opaque = False, rec_ContentType = []\<rparr>"

definition opaque_record :: "u64 \<Rightarrow> string \<Rightarrow> string \<Rightarrow> string \<Rightarrow> journalRecord" where
  "opaque_record i p c t = \<lparr>rec_ID = i, rec_Params = p, rec_Content = [], rec_ContentB64 = b64_encode c,
     rec_Opaque = True, rec_ContentType = t\<rparr>"

fun op_record :: "jop \<Rightarrow> u64 \<Rightarrow> journalRecord option" where
  "op_record (JAppend p c) i = Some (text_record i p c)"
| "op_record (JAppendOpaque p c t) i = Some (opaque_record i p c t)"
| "op_record _ i = None"

fun op_acks :: "jop \<Rightarrow> u64 set" where
  "op_acks (JAck now ids) = set ids"
| "op_acks _ = {}"

fun op_adds :: "jop \<Rightarrow> journal \<times> journal_dir \<Rightarrow> journalRecord list" where
  "op_adds x (j, d) = (case op_record x (j_nextID j + 1) of
     None \<Rightarrow> []
   | Some r \<Rightarrow> if backlogged j then [] else [json_reread r])"

text \<open>
  What a run asks of its operations: the line of an append fits the scanner that reads the
  log at the next start and the numbers have not run out; an acknowledgement names records
  of the log (or 0, which stands for none).
\<close>

fun op_guard :: "jop \<Rightarrow> journal \<times> journal_dir \<Rightarrow> bool" where
  "op_guard (JAck now ids) (j, d) = (set ids \<subseteq> insert 0 (set (wal_ids (wal_lines d))))"
| "op_guard x (j, d) = (case op_record x (j_nextID j + 1) of
     None \<Rightarrow> True
   | Some r \<Rightarrow> j_nextID j \<noteq> - 1 \<and> fits MaxScanTokenSize (marshal_line r))"

fun log_inv :: "journal \<times> journal_dir \<Rightarrow> bool" where
  "log_inv (j, d) = (journal_inv j d \<and> quiet d)"

fun log_pending :: "journal \<times> journal_dir \<Rightarrow> journalRecord list" where
  "log_pending (j, d) = pending j d"

section \<open>Every operation meets the contract\<close>

lemma Append_text: "Append p c = appendRecord (text_record 0 p c)"
  by (simp add: Append_def text_record_def)

lemma AppendOpaque_record: "AppendOpaque p c t = appendRecord (opaque_record 0 p c t)"
  by (simp add: AppendOpaque_def opaque_record_def)

lemma record_id [simp]:
  "text_record 0 p c\<lparr>rec_ID := i\<rparr> = text_record i p c"
  "opaque_record 0 p c t\<lparr>rec_ID := i\<rparr> = opaque_record i p c t"
  by (simp_all add: text_record_def opaque_record_def)

lemma appendRecord_quiet:
  assumes "journal_inv j d" "quiet d" "\<not> backlogged j"
  shows "\<exists>j' d'. appendRecord r j d = (Inr (j_nextID j + 1), j', d') \<and> quiet d'"
  using assms append_idle [of d j _ r] by (auto simp: wal_wf_def elim!: journal_invE)

lemma appendRecord_backlogged:
  "backlogged j \<Longrightarrow> appendRecord r j d = (Inl ErrJournalBacklog, j, d)"
  by (simp add: appendRecord_def backlogged_def jfail_def)

lemma append_contract:
  assumes "log_inv (j, d)" "j_nextID j \<noteq> - 1"
    "fits MaxScanTokenSize (marshal_line (r\<lparr>rec_ID := j_nextID j + 1\<rparr>))"
  shows "log_inv (snd (appendRecord r j d))"
    and "log_pending (snd (appendRecord r j d)) = log_pending (j, d)
      @ (if backlogged j then [] else [json_reread (r\<lparr>rec_ID := j_nextID j + 1\<rparr>)])"
proof -
  have "log_inv (snd (appendRecord r j d)) \<and> log_pending (snd (appendRecord r j d)) = log_pending (j, d)
      @ (if backlogged j then [] else [json_reread (r\<lparr>rec_ID := j_nextID j + 1\<rparr>)])"
  proof (cases "backlogged j")
    case True
    with assms(1) show ?thesis by (simp add: appendRecord_backlogged)
  next
    case False
    obtain j' d' where eq: "appendRecord r j d = (Inr (j_nextID j + 1), j', d')" "quiet d'"
      using appendRecord_quiet False assms(1) by force
    from appendRecord_inv [OF _ False assms(2,3) eq(1)] assms(1) eq False show ?thesis by simp
  qed
  then show "log_inv (snd (appendRecord r j d))"
    "log_pending (snd (appendRecord r j d)) = log_pending (j, d)
      @ (if backlogged j then [] else [json_reread (r\<lparr>rec_ID := j_nextID j + 1\<rparr>)])"
    by blast+
qed

lemma reopen_contract:
  assumes "jf_wal d = Some ls" "jf_ack d = Some as" "wal_wf n ls"
    "{x. Some x \<in> set as} \<subseteq> set (wal_ids ls)" "quiet d"
  shows "log_inv (reopen now (j, d))"
    and "log_pending (reopen now (j, d)) = unacked_recs {x. Some x \<in> set as} ls"
  using NewJournal_reopens [OF assms, of "''journal''" "j_fsync j" "j_maxPending j" now]
  by (auto simp: pending_def journal_inv_def)

lemma reopen_inv:
  assumes "log_inv (j, d)"
  shows "log_inv (reopen now (j', d))" "log_pending (reopen now (j', d)) = log_pending (j, d)"
  using assms by (auto elim!: journal_invE simp del: reopen.simps simp: reopen_contract pending_def wal_lines_def)

text \<open>A closed journal leaves a log of the pending records and no acknowledgement.\<close>

lemma Close_quiet:
  assumes "journal_inv j d" "quiet d"
  shows "\<exists>j' d' ls as n. Close now j d = (Inr (), j', d') \<and> quiet d' \<and> jf_wal d' = Some ls
    \<and> jf_ack d' = Some as \<and> {x. Some x \<in> set as} = {} \<and> wal_wf n ls \<and> wal_recs ls = pending j d"
proof -
  have idle: "j_walWriter j = Some new_writer" using assms(1) by (simp add: journal_inv_def)
  from flushWal_quiet [OF this assms(2)] obtain d1 where 1: "flushWalLocked j d = (Inr (), j, d1)"
    "quiet d1" "jf_wal d1 = jf_wal d" "jf_ack d1 = jf_ack d" by metis
  have "wal_lines d1 = wal_lines d" "acked_on_disk d1 = acked_on_disk d"
    using 1(3,4) by (simp_all add: wal_lines_def acked_on_disk_def)
  then have inv1: "journal_inv j d1"
    using assms(1) 1(3,4) by (auto simp: journal_inv_def pending_def)
  from compact_quiet [OF inv1 1(2), of now] obtain j2 d2 where 2:
    "compactLocked now j d1 = (Inr (), j2, d2)" "journal_inv j2 d2" "quiet d2"
    "wal_lines d2 = filter (is_unacked (j_acked j)) (wal_lines d1)" "j_acked j2 = {}" by auto
  have recs: "wal_recs (wal_lines d2) = pending j d"
    using 2(4) 1(3) by (simp add: wal_recs_filter_unacked pending_def wal_lines_def)
  show ?thesis
    using 1 2(1-3,5) recs
    by (auto simp: Close_def journal_simps acked_on_disk_def wal_lines_def elim!: journal_invE)
qed

lemma shutdown_contract:
  assumes "log_inv (j, d)"
  shows "log_inv (reopen now (snd (Close now j d)))"
    and "log_pending (reopen now (snd (Close now j d))) = log_pending (j, d)"
proof -
  obtain j' d' ls as n where c: "Close now j d = (Inr (), j', d')" "quiet d'" "jf_wal d' = Some ls"
    "jf_ack d' = Some as" "{x. Some x \<in> set as} = {}" "wal_wf n ls" "wal_recs ls = pending j d"
    using Close_quiet [of j d now] assms by auto
  have sub: "{x. Some x \<in> set as} \<subseteq> set (wal_ids ls)" using c(5) by simp
  note r = reopen_contract [OF c(3,4,6) sub c(2), of now j']
  show "log_inv (reopen now (snd (Close now j d)))"
    "log_pending (reopen now (snd (Close now j d))) = log_pending (j, d)"
    using r c(1,5,7) by (simp_all del: reopen.simps)
qed

lemma journal_step_contract:
  assumes "log_inv s" "op_guard x s"
  shows "log_inv (journal_step x s) \<and> log_pending (journal_step x s)
    = filter (\<lambda>r. rec_ID r \<notin> op_acks x) (log_pending s) @ op_adds x s"
proof (cases s)
  case (Pair j d)
  note inv = assms(1) [unfolded Pair] and g = assms(2) [unfolded Pair]
  show ?thesis
  proof (cases x)
    case (JAppend p c)
    with append_contract [OF inv, of "text_record 0 p c"] g Pair show ?thesis
      by (simp add: Append_text)
  next
    case (JAppendOpaque p c t)
    with append_contract [OF inv, of "opaque_record 0 p c t"] g Pair show ?thesis
      by (simp add: AppendOpaque_record)
  next
    case (JAck now ids)
    with Ack_quiet [of j d ids now] inv g Pair show ?thesis by auto
  next
    case (JCompact now)
    with compact_quiet [of j d now] inv Pair show ?thesis
      by (auto simp: Compact_def pending_compacted)
  next
    case (JRestart now)
    with reopen_inv [OF inv, of now j] Pair show ?thesis by (simp del: reopen.simps)
  next
    case (JShutdown now)
    with shutdown_contract [OF inv, of now] Pair show ?thesis by (simp del: reopen.simps)
  qed
qed

interpretation wal: durable_log log_inv log_pending rec_ID journal_step op_guard op_acks op_adds
  by unfold_locales (use journal_step_contract in blast)+

section \<open>Replay\<close>

lemma replay_is_pending:
  assumes "log_inv (j, d)"
  shows "fst (ReplayUnacked j d) = pending j d"
proof -
  obtain d1 where "flushWalLocked j d = (Inr (), j, d1)" "quiet d1" "jf_wal d1 = jf_wal d"
    using flushWal_quiet [of j d] assms by (metis journal_invE log_inv.simps)
  moreover have "list_all (fits replayScanLimit) (wal_lines d)" "jf_wal d \<noteq> None"
    using assms by (auto simp: journal_inv_def wal_wf_def intro: fits_larger)
  ultimately show ?thesis
    by (auto simp: ReplayUnacked_def journal_simps filter_is_unacked_recs pending_def wal_lines_def)
qed

text \<open>What an append accepted is handed back after any run that does not acknowledge it.\<close>

lemma appended_survives:
  assumes "log_inv (j, d)" "j_nextID j \<noteq> - 1"
    and "fits MaxScanTokenSize (marshal_line (r\<lparr>rec_ID := j_nextID j + 1\<rparr>))"
    and "appendRecord r j d = (Inr i, j1, d1)"
    and "guarded op_guard journal_step ops (j1, d1)" "\<forall>x \<in> set ops. i \<notin> op_acks x"
    and "run journal_step ops (j1, d1) = (j2, d2)"
  shows "json_reread (r\<lparr>rec_ID := i\<rparr>) \<in> set (fst (ReplayUnacked j2 d2))"
proof -
  have nb: "\<not> backlogged j" using assms(4) by (auto simp: appendRecord_backlogged)
  have i: "i = j_nextID j + 1" and p: "pending j1 d1 = pending j d @ [json_reread (r\<lparr>rec_ID := i\<rparr>)]"
    using appendRecord_inv [OF _ nb assms(2-4)] assms(1) by auto
  have inv1: "log_inv (j1, d1)"
    using append_contract(1) [OF assms(1-3)] assms(4) by simp
  have "log_inv (j2, d2)" using wal.inv_run [OF inv1 assms(5)] assms(7) by simp
  moreover have "json_reread (r\<lparr>rec_ID := i\<rparr>) \<in> set (log_pending (run journal_step ops (j1, d1)))"
    using wal.durable [OF inv1 assms(5)] p assms(6) by simp
  ultimately show ?thesis using assms(7) replay_is_pending by simp
qed

section \<open>A journal to try the properties on\<close>

definition empty_dir :: "outcome list \<Rightarrow> journal_dir" where
  "empty_dir fs = \<lparr>jf_wal = None, jf_tmp = None, jf_ack = None, jf_faults = fs\<rparr>"

fun opened :: "(jerr + journal option) \<times> journal_dir \<Rightarrow> journal \<times> journal_dir" where
  "opened (Inr (Some j), d) = (j, d)"
| "opened (_, d) = undefined"

definition demo :: "journal \<times> journal_dir" where
  "demo = (\<lparr>j_fsync = False, j_maxPending = 2, j_wal = True, j_walWriter = Some new_writer,
     j_ackFile = True, j_nextID = 0, j_acked = {}, j_pendingCount = 0, j_acksSinceCompact = 0,
     j_lastCompact = 0\<rparr>,
     \<lparr>jf_wal = Some [], jf_tmp = None, jf_ack = Some [], jf_faults = []\<rparr>)"

lemmas journal_eval = NewJournal_def jsys_def jok_def jfail_def loadAcked_def openAckFile_def
  openWAL_def scanMaxID_def countPendingOnDiskLocked_def scan_def new_writer_def Append_def
  AppendOpaque_def appendRecord_def walWrite_def flushWalLocked_def walFileWrite_def lines_size_def ended_def bufioSize_def
  MaxScanTokenSize_def replayScanLimit_def Ack_def maybeCompactLocked_def compactLocked_def
  resetAckFileLocked_def journalCompactMinAcks_def journalCompactMinInterval_def second_def
  Compact_def ReplayUnacked_def Close_def marshal_line_def fits_def is_unacked_def max_id_def

lemmas json_eval = json_marshal_def json_field_def json_quote_def json_quote_body.simps
  utf8_width.simps byte_in_def json_escape_byte_def nat_digits.simps json_reread_def
  json_text.simps text_record_def opaque_record_def

lemma demo_opened: "opened (NewJournal ''journal'' False 2 0 (empty_dir [])) = demo"
  by (simp add: journal_eval empty_dir_def demo_def)

lemma demo_inv: "log_inv demo"
  by (simp add: demo_def journal_inv_def wal_lines_def acked_on_disk_def pending_def wal_wf_def
      wal_ids_def quiet_def unacked_recs_def)

end
