(* ===== verification/Journal_Faults.thy ===== *)
theory Journal_Faults
  imports Journal_Log
begin

text \<open>
  The journal under arbitrary failures of its system calls. \<open>journal_sound\<close> is what remains
  true of an open journal whatever has failed: every operation keeps it, and it is enough to
  say what the next append does.
\<close>

section \<open>What failures cannot break\<close>

definition ids_below :: "journal \<Rightarrow> journal_dir \<Rightarrow> bool" where
  "ids_below j d = (jf_wal d \<noteq> None
     \<and> (\<forall>x \<in> set (wal_ids (wal_lines d)) \<union> j_acked j. x \<le> j_nextID j))"

text \<open>
  The writer is gone (a compaction failed after it closed the log), or has failed for good, or
  is idle with every line of the log written to its end.
\<close>

definition writer_ok :: "journal \<Rightarrow> journal_dir \<Rightarrow> bool" where
  "writer_ok j d = (case j_walWriter j of
     None \<Rightarrow> True
   | Some w \<Rightarrow> w_err w \<or> w = new_writer \<and> list_all is_whole (wal_lines d))"

definition journal_sound :: "journal \<Rightarrow> journal_dir \<Rightarrow> bool" where
  "journal_sound j d = (ids_below j d \<and> writer_ok j d)"

lemma journal_inv_sound: "journal_inv j d \<Longrightarrow> journal_sound j d"
  by (auto simp: journal_inv_def journal_sound_def ids_below_def writer_ok_def wal_wf_def)

lemma ids_below_simps [simp]:
  "ids_below j (served d) = ids_below j d"
  "ids_below j (d\<lparr>jf_tmp := t\<rparr>) = ids_below j d"
  "ids_below j (d\<lparr>jf_ack := a\<rparr>) = ids_below j d"
  "ids_below (j\<lparr>j_walWriter := w\<rparr>) d = ids_below j d"
  "ids_below (j\<lparr>j_wal := b\<rparr>) d = ids_below j d"
  "ids_below (j\<lparr>j_ackFile := b\<rparr>) d = ids_below j d"
  "ids_below (j\<lparr>j_pendingCount := n\<rparr>) d = ids_below j d"
  "ids_below (j\<lparr>j_acksSinceCompact := n\<rparr>) d = ids_below j d"
  "ids_below (j\<lparr>j_lastCompact := t'\<rparr>) d = ids_below j d"
  by (simp_all add: ids_below_def wal_lines_def)

lemma writer_ok_simps [simp]:
  "writer_ok j (served d) = writer_ok j d"
  "writer_ok j (d\<lparr>jf_tmp := t\<rparr>) = writer_ok j d"
  "writer_ok j (d\<lparr>jf_ack := a\<rparr>) = writer_ok j d"
  "writer_ok (j\<lparr>j_walWriter := None\<rparr>) d"
  "writer_ok (j\<lparr>j_wal := b\<rparr>) d = writer_ok j d"
  "writer_ok (j\<lparr>j_ackFile := b\<rparr>) d = writer_ok j d"
  "writer_ok (j\<lparr>j_acked := A\<rparr>) d = writer_ok j d"
  "writer_ok (j\<lparr>j_pendingCount := n\<rparr>) d = writer_ok j d"
  "writer_ok (j\<lparr>j_acksSinceCompact := n\<rparr>) d = writer_ok j d"
  "writer_ok (j\<lparr>j_lastCompact := t'\<rparr>) d = writer_ok j d"
  "writer_ok (j\<lparr>j_nextID := i\<rparr>) d = writer_ok j d"
  by (simp_all add: writer_ok_def wal_lines_def split: option.split)

section \<open>Runs of calls\<close>

definition after :: "(journal \<Rightarrow> journal_dir \<Rightarrow> bool) \<Rightarrow> 'a jresult \<Rightarrow> bool" where
  "after P m = (case m of (res, j, d) \<Rightarrow> P j d)"

lemma after_Pair [simp]: "after P (res, j, d) = P j d"
  by (simp add: after_def)

lemma after_jok [simp]: "after P (jok x j d) = P j d"
  by (simp add: jok_def)

lemma after_jfail [simp]: "after P (jfail e j d) = P j d"
  by (simp add: jfail_def)

lemma after_jsys [simp]: "after P (jsys j d) = P j (served d)"
  by (simp add: jsys_eq)

lemma after_jbind:
  assumes "after P m" "\<And>x j d. m = (Inr x, j, d) \<Longrightarrow> after P (f x j d)"
  shows "after P (jbind m f)"
  using assms by (cases "(m, f)" rule: jbind.cases) auto

lemma after_jsys_bind:
  assumes "P j (served d)" "after P (f () j (served d))"
  shows "after P (jbind (jsys j d) f)"
  using assms by (simp add: jsys_eq)

section \<open>Every operation keeps what failures cannot break\<close>

lemma sound_flush:
  assumes "journal_sound j d"
  shows "after (\<lambda>j' d'. j' = j \<and> journal_sound j d' \<and> jf_wal d' = jf_wal d \<and> jf_ack d' = jf_ack d)
    (flushWalLocked j d)"
proof (cases "j_walWriter j")
  case None
  with assms show ?thesis by (simp add: flushWalLocked_def)
next
  case (Some w)
  with assms have "w_err w \<or> w = new_writer" by (auto simp: journal_sound_def writer_ok_def)
  then show ?thesis
  proof
    assume "w_err w"
    with Some assms show ?thesis by (simp add: flushWalLocked_def Let_def)
  next
    assume "w = new_writer"
    with Some assms show ?thesis by (auto simp: flushWal_idle journal_sound_def)
  qed
qed

lemma writer_gone: "j_walWriter j = None \<Longrightarrow> appendRecord r j d =
   (if backlogged j then (Inl ErrJournalBacklog, j, d) else (Inl JPanic, j\<lparr>j_nextID := j_nextID j + 1\<rparr>, d))"
  by (simp add: appendRecord_def backlogged_def walWrite_def jfail_def)

lemma writer_failed: "j_walWriter j = Some w \<Longrightarrow> w_err w \<Longrightarrow> appendRecord r j d =
   (if backlogged j then (Inl ErrJournalBacklog, j, d) else (Inl JIOError, j\<lparr>j_nextID := j_nextID j + 1\<rparr>, d))"
  by (simp add: appendRecord_def backlogged_def walWrite_def jfail_def)

text \<open>An append, whatever has failed before and whatever fails in it.\<close>

definition append_lines :: "journalRecord \<Rightarrow> journal \<Rightarrow> (jerr + u64) \<Rightarrow> wal_line list \<Rightarrow> bool" where
  "append_lines r j res rest = (case res of
     Inr i \<Rightarrow> i = j_nextID j + 1 \<and> rest = [marshal_line (r\<lparr>rec_ID := i\<rparr>)]
   | Inl JIOError \<Rightarrow> left_over (j_fsync j) (marshal_line (r\<lparr>rec_ID := j_nextID j + 1\<rparr>)) rest
   | Inl e \<Rightarrow> (e = ErrJournalBacklog \<or> e = JPanic) \<and> rest = [])"

lemma append_sound:
  assumes "journal_sound j d" "appendRecord r j d = (res, j', d')"
  obtains rest where "append_lines r j res rest" "wal_lines d' = wal_lines d @ rest" "jf_wal d' \<noteq> None"
    "jf_ack d' = jf_ack d" "j_acked j' = j_acked j" "j_nextID j' \<in> {j_nextID j, j_nextID j + 1}"
    "rest \<noteq> [] \<longrightarrow> j_nextID j' = j_nextID j + 1" "writer_ok j' d'"
proof (cases "backlogged j")
  case True
  with assms show thesis
    by (intro that [of "[]"]) (auto simp: appendRecord_backlogged append_lines_def journal_sound_def ids_below_def)
next
  case False
  note s = assms(1) [unfolded journal_sound_def]
  show thesis
  proof (cases "j_walWriter j")
    case None
    with assms False show thesis
      by (intro that [of "[]"]) (auto simp: writer_gone append_lines_def journal_sound_def ids_below_def)
  next
    case (Some w)
    show thesis
    proof (cases "w_err w")
      case True
      with Some assms False show thesis
        by (intro that [of "[]"])
          (auto simp: writer_failed append_lines_def left_over_def journal_sound_def ids_below_def)
    next
      case no_err: False
      obtain ls where ls: "j_walWriter j = Some new_writer" "jf_wal d = Some ls" "list_all is_whole ls"
        using s Some no_err by (auto simp: writer_ok_def ids_below_def wal_lines_def)
      let ?l = "marshal_line (r\<lparr>rec_ID := j_nextID j + 1\<rparr>)"
      from ls False assms(2) show thesis
      proof (cases rule: appendRecord_cases)
        case appended
        with ls show thesis
          by (intro that [of "[?l]"]) (auto simp: append_lines_def wal_lines_def writer_ok_def)
      next
        case (torn n v)
        with ls show thesis
          by (intro that [of "cut_lines n [?l]"])
            (auto simp: append_lines_def left_over_cut wal_lines_def writer_ok_def simp del: cut_lines.simps)
      next
        case unsynced
        with ls show thesis
          by (intro that [of "[?l]"]) (auto simp: append_lines_def left_over_def wal_lines_def writer_ok_def)
      qed
    qed
  qed
qed

lemma sound_fresh:
  assumes "journal_sound j d" "j_nextID j \<noteq> - 1"
  shows "j_nextID j + 1 \<notin> set (wal_ids (wal_lines d))" "j_nextID j + 1 \<notin> j_acked j"
proof -
  have "x \<noteq> j_nextID j + 1" if "x \<in> set (wal_ids (wal_lines d)) \<union> j_acked j" for x
    using that assms(1) u64_less_Suc [OF assms(2)] by (metis journal_sound_def ids_below_def leD)
  then show "j_nextID j + 1 \<notin> set (wal_ids (wal_lines d))" "j_nextID j + 1 \<notin> j_acked j" by blast+
qed

lemma append_no_panic:
  assumes "journal_sound j d" "j_walWriter j = Some w" "\<not> backlogged j" "appendRecord r j d = (Inl e, j', d')"
  shows "e = JIOError"
proof (cases "w_err w")
  case True
  with assms show ?thesis by (simp add: writer_failed)
next
  case False
  obtain ls where "j_walWriter j = Some new_writer" "jf_wal d = Some ls" "list_all is_whole ls"
    using assms(1,2) False by (auto simp: journal_sound_def writer_ok_def ids_below_def wal_lines_def)
  from this assms(3,4) show ?thesis by (cases rule: appendRecord_cases) auto
qed

lemma append_lines_ids:
  "append_lines r j res rest \<Longrightarrow> set (wal_ids rest) \<subseteq> {j_nextID j + 1}"
  using left_over_recs [of "j_fsync j" "marshal_line (r\<lparr>rec_ID := j_nextID j + 1\<rparr>)" rest]
  by (auto simp: append_lines_def wal_ids_def marshal_line_def split: sum.splits jerr.splits)

lemma sound_append:
  assumes "journal_sound j d" "j_nextID j \<noteq> - 1"
  shows "after journal_sound (appendRecord r j d)"
proof -
  obtain res j' d' where a: "appendRecord r j d = (res, j', d')" by (metis surj_pair)
  from append_sound [OF assms(1) a] obtain rest where 1: "append_lines r j res rest"
    "wal_lines d' = wal_lines d @ rest" "jf_wal d' \<noteq> None" "j_acked j' = j_acked j"
    "j_nextID j' \<in> {j_nextID j, j_nextID j + 1}" "rest \<noteq> [] \<longrightarrow> j_nextID j' = j_nextID j + 1" "writer_ok j' d'"
    by metis
  have le: "j_nextID j \<le> j_nextID j'" using 1(5) u64_less_Suc [OF assms(2)] by auto
  have "x \<le> j_nextID j'" if "x \<in> set (wal_ids (wal_lines d')) \<union> j_acked j'" for x
  proof (cases "x \<in> set (wal_ids rest)")
    case True
    then have "x = j_nextID j + 1" "rest \<noteq> []"
      using append_lines_ids [OF 1(1)] by (auto simp: wal_ids_def)
    with 1(6) show ?thesis by simp
  next
    case False
    with that 1(2,4) assms(1) have "x \<le> j_nextID j" by (auto simp: journal_sound_def ids_below_def)
    with le show ?thesis by simp
  qed
  with 1 a show ?thesis by (simp add: journal_sound_def ids_below_def)
qed

text \<open>A compaction, whatever fails in it.\<close>

lemma after_writeTmp:
  "after (\<lambda>j' d'. j' = j \<and> jf_wal d' = jf_wal d \<and> jf_ack d' = jf_ack d) (writeTmp ls j d)"
proof (induction ls arbitrary: d)
  case Nil
  show ?case by simp
next
  case (Cons l ls)
  from Cons.IH [of "(served d)\<lparr>jf_tmp := map_option (\<lambda>t. t @ [ended l]) (jf_tmp (served d))\<rparr>"]
  show ?case by (simp add: jsys_eq jfail_def)
qed

lemma writeTmp_result:
  "writeTmp ls j d = (Inr (), j', d') \<Longrightarrow> jf_tmp d = Some t \<Longrightarrow> jf_tmp d' = Some (t @ map ended ls)"
proof (induction ls arbitrary: d t)
  case Nil
  then show ?case by (simp add: jok_def)
next
  case (Cons l ls)
  then show ?case
    using Cons.IH [of "(served d)\<lparr>jf_tmp := Some (t @ [ended l])\<rparr>" "t @ [ended l]"]
    by (auto simp: jsys_eq jfail_def split: if_splits)
qed

definition same_log :: "journal \<Rightarrow> journal_dir \<Rightarrow> journal \<Rightarrow> journal_dir \<Rightarrow> bool" where
  "same_log j d j' d' = (j_nextID j \<le> j_nextID j' \<and> j_acked j' = j_acked j
     \<and> j_walWriter j' = j_walWriter j \<and> jf_wal d' = jf_wal d)"

lemma same_log_trans: "same_log j d j' d' \<Longrightarrow> same_log j' d' j'' d'' \<Longrightarrow> same_log j d j'' d''"
  by (auto simp: same_log_def)

lemma same_log_served [simp]: "same_log j d j (served d)" "same_log j d j d"
  by (simp_all add: same_log_def)

lemma same_log_sound: "same_log j d j' d' \<Longrightarrow> journal_sound j d \<Longrightarrow> journal_sound j' d'"
  by (auto simp: same_log_def journal_sound_def ids_below_def writer_ok_def wal_lines_def
      intro: order.trans split: option.splits)

lemma after_openAckFile: "after (same_log j d) (openAckFile j d)"
  by (auto simp: openAckFile_def jsys_eq jok_def same_log_def)

lemma after_openWAL:
  assumes "jf_wal d = Some ls"
  shows "after (same_log j d) (openWAL j d)"
  using assms foldl_max_id_ge [of "j_nextID j"]
  by (auto simp: openWAL_def scanMaxID_def jsys_eq jok_def jfail_def scan_def Let_def same_log_def)

lemma after_resetAckFile: "after (same_log j d) (resetAckFileLocked j d)"
  by (auto simp: resetAckFileLocked_def openAckFile_def jsys_eq jok_def same_log_def)

text \<open>The part of a compaction that follows the renaming of the temporary file.\<close>

definition compactFinish :: "nanos \<Rightarrow> int \<Rightarrow> journal \<Rightarrow> journal_dir \<Rightarrow> unit jresult" where
  "compactFinish now n j d = jbind (openWAL j d) (\<lambda>_ j d.
     jbind (resetAckFileLocked (j\<lparr>j_walWriter := Some new_writer, j_acked := {},
          j_pendingCount := n, j_acksSinceCompact := 0, j_lastCompact := now\<rparr>) d) (\<lambda>_ j d.
     if j_fsync j then flushWalLocked j d else jok () j d))"

lemma sound_compactFinish:
  assumes "ids_below j d" "j_walWriter j = None" "list_all is_whole (wal_lines d)"
  shows "after journal_sound (compactFinish now n j d)"
proof -
  obtain ls where ls: "jf_wal d = Some ls" using assms(1) by (auto simp: ids_below_def)
  have start: "journal_sound j d" using assms by (simp add: journal_sound_def writer_ok_def)
  show ?thesis unfolding compactFinish_def
  proof (rule after_jbind)
    show "after journal_sound (openWAL j d)"
      using after_openWAL [OF ls, of j] start by (auto simp: after_def intro: same_log_sound)
  next
    fix x j1 d1 assume "openWAL j d = (Inr x, j1, d1)"
    with after_openWAL [OF ls, of j] have s1: "same_log j d j1 d1" by simp
    let ?j = "j1\<lparr>j_walWriter := Some new_writer, j_acked := {}, j_pendingCount := n,
      j_acksSinceCompact := 0, j_lastCompact := now\<rparr>"
    have s2: "journal_sound ?j d1"
      using same_log_sound [OF s1 start] s1 assms(3)
      by (auto simp: journal_sound_def ids_below_def writer_ok_def same_log_def wal_lines_def)
    show "after journal_sound (jbind (resetAckFileLocked ?j d1)
        (\<lambda>_ j d. if j_fsync j then flushWalLocked j d else jok () j d))"
    proof (rule after_jbind)
      show "after journal_sound (resetAckFileLocked ?j d1)"
        using after_resetAckFile [of ?j d1] s2 by (auto simp: after_def intro: same_log_sound)
    next
      fix y j2 d2 assume "resetAckFileLocked ?j d1 = (Inr y, j2, d2)"
      with after_resetAckFile [of ?j d1] s2 have "journal_sound j2 d2"
        by (auto intro: same_log_sound)
      with sound_flush [of j2 d2] show "after journal_sound (if j_fsync j2 then flushWalLocked j2 d2 else jok () j2 d2)"
        using \<open>journal_sound j2 d2\<close> by (auto simp: after_def jok_def)
    qed
  qed
qed

lemma compact_finish: "compactLocked now j d =
     jbind (flushWalLocked j d) (\<lambda>_ j d.
     (case jf_wal d of
        None \<Rightarrow> jok () j d
      | Some ls \<Rightarrow>
          jbind (jsys j d) (\<lambda>_ j d.
          (case scan replayScanLimit ls of (seen, long) \<Rightarrow>
             if long then jfail ErrTooLong j d
             else
               (let pending = filter (is_unacked (j_acked j)) seen
                in jbind (jsys j d) (\<lambda>_ j d.
                   jbind (writeTmp pending j (d\<lparr>jf_tmp := Some []\<rparr>)) (\<lambda>_ j d.
                   jbind (jsys j d) (\<lambda>_ j d.
                   jbind (jsys (j\<lparr>j_wal := False, j_walWriter := None\<rparr>) d) (\<lambda>_ j d.
                   compactFinish now (int (length pending)) j (d\<lparr>jf_wal := jf_tmp d, jf_tmp := None\<rparr>))))))))))"
  by (simp only: compactLocked_def compactFinish_def)

lemma scan_full: "scan n ls = (seen, False) \<Longrightarrow> seen = ls"
  by (auto simp: scan_def list_all_iff takeWhile_eq_all_conv)

lemma scan_if: "scan n ls = (if list_all (fits n) ls then (ls, False) else (takeWhile (fits n) ls, True))"
  by (auto simp: scan_def list_all_iff takeWhile_eq_all_conv)

lemma sound_compact:
  assumes "journal_sound j d"
  shows "after journal_sound (compactLocked now j d)"
  unfolding compact_finish
proof (rule after_jbind)
  show "after journal_sound (flushWalLocked j d)"
    using sound_flush [OF assms] by (auto simp: after_def)
next
  fix x j1 d1 assume "flushWalLocked j d = (Inr x, j1, d1)"
  with sound_flush [OF assms] have 1: "j1 = j" "journal_sound j d1" by auto
  then obtain ls where ls: "jf_wal d1 = Some ls" by (auto simp: journal_sound_def ids_below_def)
  define pend where "pend = filter (is_unacked (j_acked j)) ls"
  define d2 where "d2 = (served (served d1))\<lparr>jf_tmp := Some []\<rparr>"
  have 2: "journal_sound j d2" "jf_wal d2 = Some ls" "jf_tmp d2 = Some []"
    using 1(2) ls by (simp_all add: d2_def journal_sound_def)
  have w: "after journal_sound (jbind (writeTmp pend j d2) (\<lambda>_ j d.
      jbind (jsys j d) (\<lambda>_ j d.
      jbind (jsys (j\<lparr>j_wal := False, j_walWriter := None\<rparr>) d) (\<lambda>_ j d.
      compactFinish now (int (length pend)) j (d\<lparr>jf_wal := jf_tmp d, jf_tmp := None\<rparr>)))))"
  proof (rule after_jbind)
    show "after journal_sound (writeTmp pend j d2)"
      using after_writeTmp [of j d2 pend] 2(1)
      by (auto simp: after_def intro: same_log_sound [of j d2] simp: same_log_def)
  next
    fix y j3 d3 assume r: "writeTmp pend j d2 = (Inr y, j3, d3)"
    with after_writeTmp [of j d2 pend] have 3: "j3 = j" "jf_wal d3 = Some ls" using 2(2) by auto
    have t: "jf_tmp d3 = Some (map ended pend)" using writeTmp_result [of pend j d2 j3 d3 "[]"] r 2(3) by simp
    let ?j = "j\<lparr>j_wal := False, j_walWriter := None\<rparr>"
    let ?d = "(served (served d3))\<lparr>jf_wal := Some (map ended pend), jf_tmp := None\<rparr>"
    have s3: "journal_sound j (served d3)" "journal_sound ?j (served (served d3))"
      using 2(1,2) 3(2) by (auto simp: journal_sound_def ids_below_def writer_ok_def wal_lines_def split: option.splits)
    have "ids_below ?j ?d"
      using 2(1,2) set_wal_ids_filter [of "is_unacked (j_acked j)" ls]
      by (auto simp: journal_sound_def ids_below_def wal_lines_def pend_def)
    then have "after journal_sound (compactFinish now (int (length pend)) ?j ?d)"
      by (intro sound_compactFinish) (auto simp: wal_lines_def)
    with s3 t 3(1) show "after journal_sound (jbind (jsys j3 d3) (\<lambda>_ j d.
        jbind (jsys (j\<lparr>j_wal := False, j_walWriter := None\<rparr>) d) (\<lambda>_ j d.
        compactFinish now (int (length pend)) j (d\<lparr>jf_wal := jf_tmp d, jf_tmp := None\<rparr>))))"
      by (intro after_jsys_bind) simp_all
  qed
  have "journal_sound j (served d1)" "journal_sound j (served (served d1))"
    using 1(2) by (simp_all add: journal_sound_def)
  with 1(1) ls w show "after journal_sound (case jf_wal d1 of None \<Rightarrow> jok () j1 d1
      | Some ls \<Rightarrow> jbind (jsys j1 d1) (\<lambda>_ j d. case scan replayScanLimit ls of (seen, long) \<Rightarrow>
          if long then jfail ErrTooLong j d
          else let pending = filter (is_unacked (j_acked j)) seen
               in jbind (jsys j d) (\<lambda>_ j d.
                  jbind (writeTmp pending j (d\<lparr>jf_tmp := Some []\<rparr>)) (\<lambda>_ j d.
                  jbind (jsys j d) (\<lambda>_ j d.
                  jbind (jsys (j\<lparr>j_wal := False, j_walWriter := None\<rparr>) d) (\<lambda>_ j d.
                  compactFinish now (int (length pending)) j (d\<lparr>jf_wal := jf_tmp d, jf_tmp := None\<rparr>)))))))"
    using scan_full [of replayScanLimit ls]
    by (auto simp: Let_def pend_def d2_def intro!: after_jsys_bind split: prod.split)
qed

text \<open>Compacting an empty log, whatever fails; and what it leaves of the acknowledgements when nothing fails.\<close>

lemma compact_empty:
  assumes "j_walWriter j = Some new_writer" "jf_wal d = Some []"
  shows "after (\<lambda>j' d'. j_nextID j' = j_nextID j \<and> jf_wal d' = Some []
      \<and> (j_walWriter j' = None \<or> j_walWriter j' = Some new_writer)) (compactLocked now j d)"
  using assms
  by (auto simp: compactLocked_def flushWal_idle jsys_eq jok_def jfail_def scan_def openWAL_def scanMaxID_def
      resetAckFileLocked_def openAckFile_def)

lemma jbind_InrE:
  assumes "jbind m f = (Inr y, j', d')"
  obtains x j d where "m = (Inr x, j, d)" "f x j d = (Inr y, j', d')"
  using assms by (cases "(m, f)" rule: jbind.cases) auto

lemma flush_acks: "flushWalLocked j d = (Inr x, j', d') \<Longrightarrow> j_walWriter j = Some new_writer \<Longrightarrow>
   j' = j \<and> jf_ack d' = jf_ack d \<and> jf_wal d' = jf_wal d"
  by (auto simp: flushWal_idle jsys_eq split: if_splits)

lemma openAckFile_ok: "openAckFile j d = (Inr x, j', d') \<Longrightarrow> jf_ack d = Some as \<Longrightarrow>
   j' = j\<lparr>j_ackFile := True\<rparr> \<and> jf_ack d' = Some as"
  by (auto simp: openAckFile_def jsys_eq jok_def split: if_splits)

lemma resetAckFile_ok:
  assumes "resetAckFileLocked j d = (Inr x, j', d')"
  shows "j_acked j' = j_acked j \<and> j_walWriter j' = j_walWriter j \<and> jf_ack d' = Some []"
proof -
  obtain y z j1 d1 where "openAckFile j1 (d1\<lparr>jf_ack := Some []\<rparr>) = (Inr z, j', d')" "j_acked j1 = j_acked j"
    "j_walWriter j1 = j_walWriter j"
    using assms unfolding resetAckFileLocked_def
    by (elim jbind_InrE) (auto simp: jsys_eq jok_def split: if_splits elim!: jbind_InrE)
  then show ?thesis using openAckFile_ok [of j1 "d1\<lparr>jf_ack := Some []\<rparr>" z j' d' "[]"] by simp
qed

lemma compactFinish_clears_acks:
  "compactFinish now n j d = (Inr x, j', d') \<Longrightarrow> j_acked j' = {} \<and> jf_ack d' = Some []"
  unfolding compactFinish_def
  by (elim jbind_InrE) (auto dest!: resetAckFile_ok flush_acks simp: jok_def split: if_splits)

lemma compact_clears_acks:
  assumes "compactLocked now j d = (Inr (), j', d')" "jf_wal d \<noteq> None" "j_walWriter j = Some new_writer"
  shows "j_acked j' = {} \<and> jf_ack d' = Some []"
  using assms unfolding compact_finish
  by (elim jbind_InrE) (auto dest!: flush_acks compactFinish_clears_acks simp: Let_def jfail_def
      split: option.splits prod.splits if_splits elim!: jbind_InrE)

text \<open>The other operations, and a run of them.\<close>

lemma sound_ackLoop:
  "journal_sound j d \<Longrightarrow> (\<And>i. i \<in> set ids \<Longrightarrow> i \<le> j_nextID j) \<Longrightarrow> after journal_sound (ackLoop ids n j d)"
proof (induction ids arbitrary: n j d)
  case Nil
  then show ?case by simp
next
  case (Cons i ids)
  let ?j = "j\<lparr>j_acked := insert i (j_acked j), j_pendingCount := j_pendingCount j - 1\<rparr>"
  let ?d = "(served d)\<lparr>jf_ack := map_option (\<lambda>as. as @ [Some i]) (jf_ack d)\<rparr>"
  have "journal_sound j (served d)" using Cons.prems(1) by (simp add: journal_sound_def)
  moreover have "journal_sound ?j ?d"
    using Cons.prems by (auto simp: journal_sound_def ids_below_def)
  then have "after journal_sound (ackLoop ids (n + 1) ?j ?d)"
    using Cons.prems(2) by (intro Cons.IH) auto
  ultimately show ?case
    using Cons.IH [of j d n] Cons.prems by (auto intro!: after_jsys_bind)
qed

lemma after_sound_jbind:
  assumes "after journal_sound m" "\<And>x j d. journal_sound j d \<Longrightarrow> after journal_sound (f x j d)"
  shows "after journal_sound (jbind m f)"
  using assms by (intro after_jbind) auto

lemma sound_served: "journal_sound j d \<Longrightarrow> journal_sound j (served d)"
  by (simp add: journal_sound_def)

lemma sound_Ack:
  assumes "journal_sound j d" "\<And>i. i \<in> set ids \<Longrightarrow> i \<le> j_nextID j"
  shows "after journal_sound (Ack now ids j d)"
proof -
  have open': "after (\<lambda>j' d'. journal_sound j' d' \<and> j_nextID j \<le> j_nextID j')
      (if j_ackFile j then jok () j d else openAckFile j d)"
    using after_openAckFile [of j d] assms(1) same_log_sound
    by (auto simp: after_def jok_def same_log_def split: prod.splits)
  have rest: "after journal_sound (if n = 0 then jok () j d
      else jbind (let j' = j\<lparr>j_acksSinceCompact := j_acksSinceCompact j + n\<rparr>
             in if j_fsync j' then jsys j' d else jok () j' d) (\<lambda>_ j d. maybeCompactLocked now j d))"
    if "journal_sound j d" for n j d
    using that sound_compact
    by (auto simp: Let_def maybeCompactLocked_def journal_sound_def intro!: after_sound_jbind)
  show ?thesis
  proof (cases "ids = []")
    case True
    with assms(1) show ?thesis by (simp add: Ack_def)
  next
    case False
    show ?thesis unfolding Ack_def if_not_P [OF False]
  proof (rule after_jbind)
    show "after journal_sound (if j_ackFile j then jok () j d else openAckFile j d)"
      using open' by (auto simp: after_def)
  next
    fix x j1 d1 assume "(if j_ackFile j then jok () j d else openAckFile j d) = (Inr x, j1, d1)"
    with open' have 1: "journal_sound j1 d1" "j_nextID j \<le> j_nextID j1" by auto
    then have "after journal_sound (ackLoop ids 0 j1 d1)"
      using assms(2) by (intro sound_ackLoop) (auto intro: order.trans)
    then show "after journal_sound (jbind (ackLoop ids 0 j1 d1) (\<lambda>n j d. if n = 0 then jok () j d
      else jbind (let j' = j\<lparr>j_acksSinceCompact := j_acksSinceCompact j + n\<rparr>
             in if j_fsync j' then jsys j' d else jok () j' d) (\<lambda>_ j d. maybeCompactLocked now j d)))"
      by (intro after_sound_jbind rest)
  qed
  qed
qed

text \<open>
  A process opens its journal and calls its operations, in any order and whatever fails; an
  acknowledgement names numbers that the journal has given.
\<close>

fun call_guard :: "jop \<Rightarrow> journal \<times> journal_dir \<Rightarrow> bool" where
  "call_guard (JAppend p c) (j, d) = (j_nextID j \<noteq> - 1)"
| "call_guard (JAppendOpaque p c t) (j, d) = (j_nextID j \<noteq> - 1)"
| "call_guard (JAck now ids) (j, d) = (\<forall>i \<in> set ids. i \<le> j_nextID j)"
| "call_guard (JCompact now) s = True"
| "call_guard (JRestart now) s = False"
| "call_guard (JShutdown now) s = False"

lemma sound_call:
  assumes "journal_sound (fst s) (snd s)" "call_guard x s"
  shows "journal_sound (fst (journal_step x s)) (snd (journal_step x s))"
proof -
  have pick: "journal_sound (fst (snd m)) (snd (snd m))" if "after journal_sound m" for m :: "'a jresult"
    using that by (cases m) auto
  obtain j d where s: "s = (j, d)" by (cases s)
  show ?thesis
  proof (cases x)
    case (JAppend p c)
    with pick [OF sound_append [of j d]] assms s show ?thesis by (auto simp: Append_text)
  next
    case (JAppendOpaque p c t)
    with pick [OF sound_append [of j d]] assms s show ?thesis by (auto simp: AppendOpaque_record)
  next
    case (JAck now ids)
    with pick [OF sound_Ack [of j d ids now]] assms s show ?thesis by auto
  next
    case (JCompact now)
    with pick [OF sound_compact [of j d now]] assms s show ?thesis by (auto simp: Compact_def)
  qed (use assms s in auto)
qed

lemma sound_calls:
  "journal_sound (fst s) (snd s) \<Longrightarrow> guarded call_guard journal_step ops s
    \<Longrightarrow> journal_sound (fst (run journal_step ops s)) (snd (run journal_step ops s))"
  by (induction ops arbitrary: s) (auto simp: sound_call simp del: journal_step.simps)

text \<open>Opening a directory whose log has no torn line, whatever fails.\<close>

lemma NewJournal_sound:
  assumes "NewJournal dir fs maxp now d = (Inr (Some j), d')" "list_all is_whole (wal_lines d)"
    "acked_on_disk d \<subseteq> set (wal_ids (wal_lines d))"
  shows "journal_sound j d'"
proof -
  have bound: "x \<le> foldl max_id 0 (wal_lines d)" if "x \<in> set (wal_ids (wal_lines d))" for x
    using that by (rule foldl_max_id_bound)
  show ?thesis
    using assms bound
    by (auto simp: NewJournal_def loadAcked_def openWAL_def scanMaxID_def openAckFile_def
        countPendingOnDiskLocked_def jsys_eq jok_def jfail_def scan_if Let_def journal_sound_def
        ids_below_def writer_ok_def acked_on_disk_def wal_lines_def
        split: option.splits if_splits)
qed

end
