(* ===== verification/Journal_Props.thy ===== *)
theory Journal_Props
  imports Journal_Faults
begin

text \<open>
  The properties of the journal, each with a witness where it has hypotheses.
\<close>

section \<open>Durability\<close>

text \<open>
  C7. An insert the journal has accepted (\<open>Append\<close> returned its number) is handed back by the
  replay at start-up after any sequence of further appends, acknowledgements of other records,
  compactions, shutdowns and restarts after a crash in which no file operation of the journal
  fails and every appended line, with its line break, fits the 64 KiB of the scanner that reads
  the log at the next start (what a longer line does is stated below).
\<close>

theorem accepted_insert_is_replayed:
  assumes "log_inv (j, d)" "j_nextID j \<noteq> - 1"
    and "fits MaxScanTokenSize (marshal_line (text_record (j_nextID j + 1) params content))"
    and "Append params content j d = (Inr i, j1, d1)"
    and "guarded op_guard journal_step ops (j1, d1)" "\<forall>x \<in> set ops. i \<notin> op_acks x"
    and "run journal_step ops (j1, d1) = (j2, d2)"
  shows "json_reread (text_record i params content) \<in> set (fst (ReplayUnacked j2 d2))"
  using appended_survives [of j d "text_record 0 params content"] assms
  by (simp add: Append_text)

definition demo_ops :: "jop list" where
  "demo_ops = [JAppend ''query=b'' ''(2)'', JAck 1 [2], JRestart 2, JCompact 3, JShutdown 4]"

lemma demo_fits:
  "fits MaxScanTokenSize (marshal_line (text_record 1 ''query=a'' ''(1)''))"
  "fits MaxScanTokenSize (marshal_line (opaque_record 1 ''query=a'' [CHR 0xFF] ''''))"
  by (simp_all add: journal_eval json_eval b64_encode_def b64_char_def)

theorem accepted_insert_is_replayed_witness:
  "case run journal_step demo_ops (snd (Append ''query=a'' ''(1)'' (fst demo) (snd demo))) of
     (j2, d2) \<Rightarrow> json_reread (text_record 1 ''query=a'' ''(1)'') \<in> set (fst (ReplayUnacked j2 d2))"
proof -
  obtain j1 d1 where a: "Append ''query=a'' ''(1)'' (fst demo) (snd demo) = (Inr 1, j1, d1)"
    and g: "guarded op_guard journal_step demo_ops (j1, d1)"
    by (simp add: demo_ops_def demo_def journal_eval json_eval wal_lines_def wal_ids_def)
  obtain j2 d2 where r: "run journal_step demo_ops (j1, d1) = (j2, d2)" by (metis surj_pair)
  have "json_reread (text_record 1 ''query=a'' ''(1)'') \<in> set (fst (ReplayUnacked j2 d2))"
    by (rule accepted_insert_is_replayed [of "fst demo" "snd demo", OF _ _ _ a g _ r])
      (use demo_inv demo_fits in \<open>simp_all add: demo_ops_def, simp_all add: demo_def\<close>)
  with a r show ?thesis by simp
qed

text \<open>
  C18. The same for a binary (opaque) insert, again where no file operation of the journal fails
  and every appended line (here with the base64 of the body) fits 64 KiB: it is handed back after
  any such sequence, and the bytes that come back are exactly those of the client, whatever they
  are: they are kept in base64.
\<close>

theorem accepted_opaque_is_replayed_exactly:
  assumes "log_inv (j, d)" "j_nextID j \<noteq> - 1"
    and "fits MaxScanTokenSize (marshal_line (opaque_record (j_nextID j + 1) params content ct))"
    and "AppendOpaque params content ct j d = (Inr i, j1, d1)"
    and "guarded op_guard journal_step ops (j1, d1)" "\<forall>x \<in> set ops. i \<notin> op_acks x"
    and "run journal_step ops (j1, d1) = (j2, d2)"
  shows "\<exists>r \<in> set (fst (ReplayUnacked j2 d2)). rec_ID r = i \<and> rec_Opaque r
    \<and> b64_decode (rec_ContentB64 r) = Some content"
proof
  show "json_reread (opaque_record i params content ct) \<in> set (fst (ReplayUnacked j2 d2))"
    using appended_survives [of j d "opaque_record 0 params content ct"] assms
    by (simp add: AppendOpaque_record)
  show "rec_ID (json_reread (opaque_record i params content ct)) = i
    \<and> rec_Opaque (json_reread (opaque_record i params content ct))
    \<and> b64_decode (rec_ContentB64 (json_reread (opaque_record i params content ct))) = Some content"
    by (simp add: json_reread_def opaque_record_def b64_decode_encode json_text_valid valid_utf8_b64)
qed

theorem accepted_opaque_is_replayed_exactly_witness:
  "case run journal_step demo_ops (snd (AppendOpaque ''query=a'' [CHR 0xFF] '''' (fst demo) (snd demo))) of
     (j2, d2) \<Rightarrow> \<exists>r \<in> set (fst (ReplayUnacked j2 d2)). rec_ID r = 1 \<and> rec_Opaque r
       \<and> b64_decode (rec_ContentB64 r) = Some [CHR 0xFF]"
proof -
  obtain j1 d1 where a: "AppendOpaque ''query=a'' [CHR 0xFF] '''' (fst demo) (snd demo) = (Inr 1, j1, d1)"
    and g: "guarded op_guard journal_step demo_ops (j1, d1)"
    by (simp add: demo_ops_def demo_def journal_eval json_eval wal_lines_def wal_ids_def
        b64_encode_def b64_char_def)
  obtain j2 d2 where r: "run journal_step demo_ops (j1, d1) = (j2, d2)" by (metis surj_pair)
  have "\<exists>r \<in> set (fst (ReplayUnacked j2 d2)). rec_ID r = 1 \<and> rec_Opaque r
       \<and> b64_decode (rec_ContentB64 r) = Some [CHR 0xFF]"
    by (rule accepted_opaque_is_replayed_exactly [of "fst demo" "snd demo", OF _ _ _ a g _ r])
      (use demo_inv demo_fits in \<open>simp_all add: demo_ops_def, simp_all add: demo_def\<close>)
  with a r show ?thesis by simp
qed

text \<open>
  C14. A process has opened its journal on a directory whose log has no torn last line and
  whose acknowledgements belong to the log, and has called its operations in any order, with
  any system call failing at any time (a failed write may have written part of its bytes). When
  an append then succeeds, its record is the last line of wal.jsonl, under a number that no
  record and no acknowledgement has. When it fails, every earlier line is still there; if the
  failure is an I/O error, what it has left behind them is nothing, a torn prefix of its own
  line, that line without its line break, or (a failed fsync) the whole line, so that at most
  its own record joins the pending ones; a refusal for the backlog and a panic leave nothing.
\<close>

theorem append_is_on_disk_before_success:
  assumes "NewJournal dir fs maxp t d0 = (Inr (Some j0), d1)"
    and "list_all is_whole (wal_lines d0)" "acked_on_disk d0 \<subseteq> set (wal_ids (wal_lines d0))"
    and "guarded call_guard journal_step ops (j0, d1)" "run journal_step ops (j0, d1) = (j, d)"
    and "j_nextID j \<noteq> - 1" "appendRecord r j d = (res, j', d')"
  shows "case res of
      Inr i \<Rightarrow> wal_lines d' = wal_lines d @ [marshal_line (r\<lparr>rec_ID := i\<rparr>)]
        \<and> i \<notin> set (wal_ids (wal_lines d)) \<and> i \<notin> j_acked j
        \<and> pending j' d' = pending j d @ [json_reread (r\<lparr>rec_ID := i\<rparr>)]
    | Inl e \<Rightarrow> (let new = marshal_line (r\<lparr>rec_ID := j_nextID j + 1\<rparr>) in
        \<exists>rest. wal_lines d' = wal_lines d @ rest
          \<and> (rest = []
             \<or> e = JIOError \<and> rest = [TornLine (wl_text new) (wl_rec new)]
             \<or> e = JIOError \<and> j_fsync j \<and> rest = [new]
             \<or> e = JIOError \<and> (\<exists>s. rest = [TornLine s None] \<and> prefix s (wl_text new) \<and> s \<noteq> wl_text new))
          \<and> (pending j' d' = pending j d
             \<or> rest \<noteq> [] \<and> pending j' d' = pending j d @ [json_reread (r\<lparr>rec_ID := j_nextID j + 1\<rparr>)]))"
proof -
  have s: "journal_sound j d"
    using NewJournal_sound [OF assms(1-3)] sound_calls [OF _ assms(4)] assms(5) by simp
  then have fresh: "j_nextID j + 1 \<notin> set (wal_ids (wal_lines d)) \<union> j_acked j"
    using sound_fresh [OF _ assms(6)] by blast
  from append_sound [OF s assms(7)] obtain rest where 1: "append_lines r j res rest"
    "wal_lines d' = wal_lines d @ rest" "j_acked j' = j_acked j" by metis
  let ?new = "marshal_line (r\<lparr>rec_ID := j_nextID j + 1\<rparr>)"
  have p: "pending j' d' = pending j d @ unacked_recs (j_acked j) rest"
    using 1(2,3) by (simp add: pending_def)
  show ?thesis
  proof (cases res)
    case (Inr i)
    with 1 p fresh show ?thesis by (auto simp: append_lines_def unacked_recs_def)
  next
    case (Inl e)
    show ?thesis
    proof (cases "e = JIOError")
      case True
      then have lo: "left_over (j_fsync j) ?new rest" using 1(1) Inl by (simp add: append_lines_def)
      then have "unacked_recs (j_acked j) rest = []
          \<or> rest \<noteq> [] \<and> unacked_recs (j_acked j) rest = [json_reread (r\<lparr>rec_ID := j_nextID j + 1\<rparr>)]"
        using left_over_recs [OF lo] fresh by (auto simp: unacked_recs_def left_over_def)
      with Inl True 1(2) p lo show ?thesis
        by (auto simp: Let_def left_over_def intro!: exI [of _ rest])
    next
      case False
      then have "rest = []" using 1(1) Inl by (cases e) (auto simp: append_lines_def)
      with Inl 1(2) p show ?thesis by (simp add: Let_def unacked_recs_def)
    qed
  qed
qed

text \<open>A fresh journal whose second append is cut short after five bytes.\<close>

definition torn_start :: "(jerr + journal option) \<times> journal_dir" where
  "torn_start = NewJournal ''journal'' False 2 0
     (empty_dir [Works, Works, Works, Works, Works, Works, Fails 5])"

theorem append_is_on_disk_before_success_witness:
  "case run journal_step [JAppend ''query=a'' ''(1)''] (opened torn_start) of (j, d) \<Rightarrow>
     case Append ''query=b'' ''(2)'' j d of (res, j', d') \<Rightarrow>
       res = Inl JIOError \<and> prefix (wal_lines d) (wal_lines d')
       \<and> map (length \<circ> wl_text) (wal_lines d') = [43, 5] \<and> map wl_rec (wal_lines d') \<noteq> [None, None]"
proof -
  let ?ops = "[JAppend ''query=a'' ''(1)'']"
  obtain j0 d1 j d j' d' where 1: "torn_start = (Inr (Some j0), d1)" "run journal_step ?ops (j0, d1) = (j, d)"
    "Append ''query=b'' ''(2)'' j d = (Inl JIOError, j', d')" "j_nextID j0 \<noteq> - 1" "j_nextID j \<noteq> - 1"
    "map (length \<circ> wl_text) (wal_lines d') = [43, 5]" "map wl_rec (wal_lines d') \<noteq> [None, None]"
    by (simp add: torn_start_def empty_dir_def journal_eval json_eval wal_lines_def)
  have "list_all is_whole (wal_lines (empty_dir fs))" "acked_on_disk (empty_dir fs) = {}" for fs
    by (simp_all add: empty_dir_def wal_lines_def acked_on_disk_def)
  with append_is_on_disk_before_success [OF 1(1) [unfolded torn_start_def] _ _ _ 1(2,5) 1(3) [unfolded Append_text]] 1(4)
  have "prefix (wal_lines d) (wal_lines d')" by (auto simp: Let_def)
  moreover have "opened torn_start = (j0, d1)" by (simp add: 1(1))
  ultimately show ?thesis using 1(2,3,6,7) by simp
qed

section \<open>Acknowledgement and counting\<close>

text \<open>
  C17. An acknowledgement removes the records it names and no other, for good: a process that
  starts on the directory afterwards replays exactly the remaining records, in order.
\<close>

theorem acked_records_are_not_replayed:
  assumes "log_inv (j, d)" "set ids \<subseteq> insert 0 (set (wal_ids (wal_lines d)))"
    and "journal_step (JRestart t) (journal_step (JAck now ids) (j, d)) = (j', d')"
  shows "fst (ReplayUnacked j' d') = filter (\<lambda>r. rec_ID r \<notin> set ids) (fst (ReplayUnacked j d))"
proof -
  obtain j1 d1 where a: "journal_step (JAck now ids) (j, d) = (j1, d1)" by (metis surj_pair)
  have 1: "log_inv (j1, d1)" "pending j1 d1 = filter (\<lambda>r. rec_ID r \<notin> set ids) (pending j d)"
    using wal.inv_step [of "(j, d)" "JAck now ids"] wal.pend_step [of "(j, d)" "JAck now ids"] assms(1,2) a
    by (simp_all del: journal_step.simps)
  have "reopen t (j1, d1) = (j', d')" using a assms(3) by simp
  with reopen_inv [OF 1(1), of t j1] have "log_inv (j', d')" "pending j' d' = pending j1 d1"
    by (simp_all del: reopen.simps)
  then show ?thesis using 1(2) assms(1) by (simp add: replay_is_pending)
qed

definition demo2 :: "journal \<times> journal_dir" where
  "demo2 = run journal_step [JAppend ''query=a'' ''(1)'', JAppend ''query=b'' ''(2)''] demo"

lemma demo2_inv: "log_inv demo2"
  unfolding demo2_def
  by (rule wal.inv_run [OF demo_inv]) (simp add: demo_def journal_eval json_eval)

lemma demo2_log: "wal_ids (wal_lines (snd demo2)) = [1, 2]"
  "fst (ReplayUnacked (fst demo2) (snd demo2)) = [text_record 1 ''query=a'' ''(1)'', text_record 2 ''query=b'' ''(2)'']"
  by (simp_all add: demo2_def demo_def journal_eval json_eval wal_lines_def wal_ids_def)

theorem acked_records_are_not_replayed_witness:
  "case journal_step (JRestart 9) (journal_step (JAck 8 [1]) demo2) of (j', d') \<Rightarrow>
     fst (ReplayUnacked j' d') = [text_record 2 ''query=b'' ''(2)'']"
proof -
  obtain j' d' where r: "journal_step (JRestart 9) (journal_step (JAck 8 [1]) demo2) = (j', d')"
    by (metis surj_pair)
  have "fst (ReplayUnacked j' d')
      = filter (\<lambda>r. rec_ID r \<notin> set [1]) (fst (ReplayUnacked (fst demo2) (snd demo2)))"
    by (rule acked_records_are_not_replayed [where t = 9 and now = 8])
      (use demo2_inv demo2_log(1) r in simp_all)
  with r demo2_log(2) show ?thesis by (simp add: text_record_def)
qed

text \<open>
  C12. The count of pending records that \<open>PendingCount\<close> reports is exact after every run, so an
  insert is refused with \<open>ErrJournalBacklog\<close> exactly when max_journal_pending records wait, and
  the refusal changes nothing.
\<close>

theorem backlog_is_exact:
  assumes "log_inv s" "guarded op_guard journal_step ops s" "run journal_step ops s = (j, d)"
  shows "PendingCount j = int (length (fst (ReplayUnacked j d)))
    \<and> (fst (appendRecord r j d) = Inl ErrJournalBacklog
        \<longleftrightarrow> 0 < j_maxPending j \<and> j_maxPending j \<le> int (length (fst (ReplayUnacked j d))))
    \<and> (fst (appendRecord r j d) = Inl ErrJournalBacklog \<longrightarrow> snd (appendRecord r j d) = (j, d))"
proof -
  have inv: "log_inv (j, d)" using wal.inv_run [OF assms(1,2)] assms(3) by simp
  then have n: "j_pendingCount j = int (length (pending j d))" by (simp add: journal_inv_def)
  have "fst (appendRecord r j d) = Inl ErrJournalBacklog \<longleftrightarrow> backlogged j"
    using appendRecord_backlogged [of j r d] appendRecord_quiet [of j d r] inv by fastforce
  with n inv show ?thesis
    by (auto simp: PendingCount_def replay_is_pending backlogged_def appendRecord_backlogged)
qed

theorem backlog_is_exact_witness:
  "fst (appendRecord (text_record 0 ''query=c'' ''(3)'') (fst demo2) (snd demo2)) = Inl ErrJournalBacklog"
proof -
  have "j_maxPending (fst demo2) = 2"
    by (simp add: demo2_def demo_def journal_eval json_eval)
  then show ?thesis
    using backlog_is_exact [of demo2 "[]" "fst demo2" "snd demo2" "text_record 0 ''query=c'' ''(3)''"]
      demo2_inv demo2_log(2) by simp
qed

text \<open>
  C13. Compaction rewrites wal.jsonl to hold the pending lines and nothing else, empties
  ack.jsonl, and changes neither what a replay hands back nor the next number.
\<close>

theorem compaction_keeps_pending:
  assumes "log_inv (j, d)" "Compact now j d = (res, j', d')"
  shows "res = Inr () \<and> wal_lines d' = filter (is_unacked (j_acked j)) (wal_lines d)
    \<and> acked_on_disk d' = {} \<and> j_nextID j' = j_nextID j
    \<and> fst (ReplayUnacked j' d') = fst (ReplayUnacked j d)"
proof -
  obtain j1 d1 where 1: "compactLocked now j d = (Inr (), j1, d1)" "journal_inv j1 d1" "quiet d1"
    "wal_lines d1 = filter (is_unacked (j_acked j)) (wal_lines d)" "j_acked j1 = {}"
    "j_nextID j1 = j_nextID j"
    using compact_quiet [of j d now] assms(1) by auto
  with assms(2) have "j' = j1" "d' = d1" "res = Inr ()" by (simp_all add: Compact_def)
  moreover have "pending j1 d1 = pending j d" using 1(4,5) by (rule pending_compacted)
  moreover have "acked_on_disk d1 = {}" using 1(2,5) by (simp add: journal_inv_def)
  moreover have "log_inv (j1, d1)" using 1(2,3) by simp
  ultimately show ?thesis
    using 1(4,6) assms(1) replay_is_pending by metis
qed

theorem compaction_keeps_pending_witness:
  "case Compact 9 (fst demo2) (snd demo2) of (res, j', d') \<Rightarrow>
     res = Inr () \<and> length (fst (ReplayUnacked j' d')) = 2"
proof -
  obtain res j' d' where c: "Compact 9 (fst demo2) (snd demo2) = (res, j', d')" by (metis surj_pair)
  have "log_inv (fst demo2, snd demo2)" using demo2_inv by simp
  from compaction_keeps_pending [OF this c] c show ?thesis by (simp add: demo2_log(2))
qed

section \<open>Failure modes\<close>

text \<open>
  C38. The log holds a pending record whose line does not fit the default buffer of
  \<open>bufio.Scanner\<close> (64 KiB), which \<open>Append\<close> accepts; every line is below the 1 MiB that the scanner
  of the compaction takes, max_journal_pending is not reached, and no file operation fails.
  Then the next compaction fails after it has closed the log, every later append panics on the
  nil writer, and a restart cannot open the journal.
\<close>

theorem long_record_disables_journal:
  assumes "quiet d" "j_walWriter j = Some new_writer" "jf_wal d = Some ls"
    and "list_all (fits replayScanLimit) ls" "\<not> backlogged j"
    and "l \<in> set ls" "is_unacked (j_acked j) l" "\<not> fits MaxScanTokenSize l"
  shows "\<exists>j' d'. compactLocked now j d = (Inl ErrTooLong, j', d')
    \<and> fst (appendRecord r j' d') = Inl JPanic
    \<and> fst (NewJournal ''journal'' fs maxp t d') = Inl ErrTooLong"
proof -
  define pend where "pend = filter (is_unacked (j_acked j)) ls"
  have long: "\<not> list_all (fits MaxScanTokenSize) (map ended pend)"
    using assms(6-8) by (auto simp: pend_def list_all_iff)
  from flushWal_quiet [OF assms(2,1)] obtain d1 where d1: "flushWalLocked j d = (Inr (), j, d1)"
    "quiet d1" "jf_wal d1 = Some ls" using assms(3) by metis
  let ?d = "served (served d1)\<lparr>jf_tmp := Some []\<rparr>"
  have "quiet ?d" "jf_tmp ?d = Some []" using d1 by simp_all
  from writeTmp_quiet [OF this, of pend j]
  obtain d2 where d2: "writeTmp pend j ?d = (Inr (), j, d2)" "quiet d2" "jf_tmp d2 = Some (map ended pend)"
    by auto
  have "backlogged j = backlogged (j\<lparr>j_wal := w, j_walWriter := b, j_nextID := n\<rparr>)" for w b n
    by (simp add: backlogged_def)
  with assms(4,5) d1 d2 long show ?thesis
    by (auto simp: compactLocked_def journal_simps pend_def [symmetric] openWAL_def scanMaxID_def
        scan_def [of MaxScanTokenSize] appendRecord_def backlogged_def walWrite_def NewJournal_def
        loadAcked_def split: option.splits)
qed

definition long_line :: wal_line where
  "long_line = WalLine (replicate 65536 (CHR ''x'')) (Some (text_record 1 ''query=a'' ''(1)''))"

theorem long_record_disables_journal_witness:
  "\<exists>j' d'. compactLocked 9 (fst demo) (snd demo\<lparr>jf_wal := Some [long_line]\<rparr>) = (Inl ErrTooLong, j', d')
    \<and> fst (appendRecord (text_record 0 ''query=b'' ''(2)'') j' d') = Inl JPanic
    \<and> fst (NewJournal ''journal'' False 0 10 d') = Inl ErrTooLong"
  by (rule long_record_disables_journal [where ls = "[long_line]" and l = long_line])
    (simp_all add: demo_def quiet_def long_line_def fits_def replayScanLimit_def
      MaxScanTokenSize_def is_unacked_def backlogged_def)

text \<open>
  C39. The directory that a compaction leaves when it is interrupted after it has renamed
  wal.jsonl and before it has emptied ack.jsonl, and a process that starts on it as
  \<open>runServer\<close> does: it opens the journal, replays (there is nothing to replay), and compacts.
  Where that compaction fails as well, so that ack.jsonl still holds the old acknowledgement
  (\<open>runServer\<close> logs a warning and goes on), the process gives the number 1 again, and no process
  that starts on the directory afterwards hands the insert back that the journal has accepted.
\<close>

theorem interrupted_compaction_hides_insert:
  assumes "jf_wal d = Some []" "jf_ack d = Some as" "Some 1 \<in> set as"
    and "NewJournal dir fs maxp now d = (Inr (Some j0), d0)"
    and "ReplayUnacked j0 d0 = (recs, Inr (), j1, d1)"
    and "Compact now' j1 d1 = (Inl e, j2, d2)" "jf_ack d2 = Some as"
    and "Append p c j2 d2 = (Inr i, j3, d3)"
  shows "recs = [] \<and> i = 1 \<and> unacked_recs (acked_on_disk d3) (wal_lines d3) = []
    \<and> (\<forall>fs' maxp' t j4 d4. NewJournal dir fs' maxp' t d3 = (Inr (Some j4), d4)
         \<longrightarrow> fst (ReplayUnacked j4 d4) = [])"
proof -
  have 0: "j_nextID j0 = 0" "j_walWriter j0 = Some new_writer" "jf_wal d0 = Some []" "jf_ack d0 = Some as"
    using assms(1,2,4)
    by (auto simp: NewJournal_def jsys_eq jok_def jfail_def Let_def loadAcked_def openWAL_def scanMaxID_def
        openAckFile_def countPendingOnDiskLocked_def scan_def split: if_splits)
  have 1: "recs = []" "j1 = j0" "jf_wal d1 = Some []"
    using assms(5) 0 by (auto simp: ReplayUnacked_def flushWal_idle jsys_eq jok_def jfail_def scan_def split: if_splits)
  have 2: "j_nextID j2 = 0" "jf_wal d2 = Some []" "j_walWriter j2 = None \<or> j_walWriter j2 = Some new_writer"
    using compact_empty [of j1 d1 now'] 0 1 assms(6) by (simp_all add: Compact_def)
  let ?l = "marshal_line (text_record 1 p c)"
  have nb: "\<not> backlogged j2" using assms(8) by (auto simp: Append_text appendRecord_backlogged)
  have "j_walWriter j2 = Some new_writer"
    using assms(8) nb 2(3) by (auto simp: Append_text writer_gone writer_failed split: if_splits)
  from this 2(2) _ nb assms(8) [unfolded Append_text]
  have 3: "i = 1" "jf_wal d3 = Some [?l]" "jf_ack d3 = Some as"
    by (cases rule: appendRecord_cases; simp add: 2(1) assms(7))+
  then have log: "wal_lines d3 = [?l]" "acked_on_disk d3 = {x. Some x \<in> set as}"
    by (simp_all add: wal_lines_def acked_on_disk_def)
  have "fst (ReplayUnacked j4 d4) = []"
    if n: "NewJournal dir fs' maxp' t d3 = (Inr (Some j4), d4)" for fs' maxp' t j4 d4
  proof -
    have "j_acked j4 = {x. Some x \<in> set as}" "jf_wal d4 = Some [?l]" "j_walWriter j4 = Some new_writer"
      using n 3
      by (auto simp: NewJournal_def jsys_eq jok_def jfail_def Let_def loadAcked_def openWAL_def scanMaxID_def
          openAckFile_def countPendingOnDiskLocked_def split: if_splits prod.splits)
    moreover have "\<not> is_unacked {x. Some x \<in> set as} ?l"
      using assms(3) by (simp add: is_unacked_def text_record_def)
    ultimately show ?thesis
      by (simp add: ReplayUnacked_def flushWal_idle jsys_eq jok_def jfail_def scan_def)
  qed
  then show ?thesis
    using 1(1) 3(1) log assms(3) by (simp add: unacked_recs_def text_record_def marshal_line_def)
qed

text \<open>
  How such a directory comes about: one insert is sent and acknowledged five seconds later,
  which compacts the log; the fourteenth system call, the closing of ack.jsonl, fails. In the
  next process the ninth call, the creation of the temporary file, fails.
\<close>

definition interrupted_dir :: journal_dir where
  "interrupted_dir =
     (let (j, d) = opened (NewJournal ''journal'' False 0 0 (empty_dir
            (replicate 13 Works @ [Fails 0] @ replicate 8 Works @ [Fails 0])));
          (_, j, d) = Append ''query=a'' ''(1)'' j d;
          (_, j, d) = Ack (5 * second) [1] j d
      in d)"

lemma works_list: "replicate 13 Works = [Works, Works, Works, Works, Works, Works, Works, Works, Works, Works, Works, Works, Works]"
  "replicate 8 Works = [Works, Works, Works, Works, Works, Works, Works, Works]"
  by (simp_all add: numeral_eq_Suc)

lemma interrupted_dir_eq: "interrupted_dir
    = \<lparr>jf_wal = Some [], jf_tmp = None, jf_ack = Some [Some 1], jf_faults = replicate 8 Works @ [Fails 0]\<rparr>"
  by (simp add: interrupted_dir_def empty_dir_def journal_eval json_eval works_list)

theorem interrupted_compaction_hides_insert_witness:
  "case opened (NewJournal ''journal'' False 0 6 interrupted_dir) of (j0, d0) \<Rightarrow>
     case snd (ReplayUnacked j0 d0) of (_, j1, d1) \<Rightarrow>
       case Compact 6 j1 d1 of (_, j2, d2) \<Rightarrow>
         case Append ''query=b'' ''(2)'' j2 d2 of (res, j3, d3) \<Rightarrow>
           res = Inr 1 \<and> unacked_recs (acked_on_disk d3) (wal_lines d3) = []"
proof -
  obtain j0 d0 j1 d1 j2 d2 j3 d3 where 1: "NewJournal ''journal'' False 0 6 interrupted_dir = (Inr (Some j0), d0)"
    "ReplayUnacked j0 d0 = ([], Inr (), j1, d1)" "Compact 6 j1 d1 = (Inl JIOError, j2, d2)"
    "jf_ack d2 = Some [Some 1]" "Append ''query=b'' ''(2)'' j2 d2 = (Inr 1, j3, d3)"
    by (simp add: interrupted_dir_eq journal_eval json_eval works_list)
  have "unacked_recs (acked_on_disk d3) (wal_lines d3) = []"
    using interrupted_compaction_hides_insert [OF _ _ _ 1] by (simp add: interrupted_dir_eq)
  with 1 show ?thesis by simp
qed

text \<open>
  Where that start-up compaction succeeds it heals the directory: the old acknowledgements are
  gone from memory and from ack.jsonl.
\<close>

lemma start_up_compaction_heals:
  assumes "NewJournal dir fs maxp now d = (Inr (Some j0), d0)"
    and "ReplayUnacked j0 d0 = (recs, Inr (), j1, d1)" "Compact now' j1 d1 = (Inr (), j2, d2)"
  shows "j_acked j2 = {} \<and> acked_on_disk d2 = {}"
proof -
  have 0: "j_walWriter j0 = Some new_writer" "jf_wal d0 \<noteq> None"
    using assms(1)
    by (auto simp: NewJournal_def jsys_eq jok_def jfail_def Let_def loadAcked_def openWAL_def scanMaxID_def
        openAckFile_def countPendingOnDiskLocked_def split: if_splits prod.splits option.splits)
  then have "j_walWriter j1 = Some new_writer" "jf_wal d1 \<noteq> None"
    using assms(2)
    by (auto simp: ReplayUnacked_def flushWal_idle jsys_eq jok_def jfail_def split: if_splits prod.splits option.splits)
  with compact_clears_acks [of now' j1 d1 j2 d2] assms(3) show ?thesis
    by (simp add: Compact_def acked_on_disk_def)
qed

text \<open>
  A text insert read back from the journal has the bytes of the client exactly when they
  are UTF-8: the JSON encoder replaces every other byte by U+FFFD.
\<close>

theorem text_record_content_iff_utf8:
  "rec_Content (json_reread (text_record i params content)) = content \<longleftrightarrow> valid_utf8 content"
  by (simp add: json_reread_def text_record_def json_text_id_iff)

text \<open>
  Without fsync, an append that fails because the log could not be written is the last
  thing the journal does: every later append and compaction of the process fails too, and
  nothing that was pending is lost.
\<close>

theorem failed_write_stops_journal:
  assumes "journal_inv j d" "\<not> j_fsync j" "appendRecord r j d = (Inl JIOError, j1, d1)"
  shows "fst (appendRecord r' j1 d1) = Inl JIOError \<and> fst (Compact now j1 d1) = Inl JIOError
    \<and> prefix (pending j d) (pending j1 d1)"
proof -
  have nb: "\<not> backlogged j" using assms(3) by (auto simp: appendRecord_backlogged)
  obtain ls where ls: "j_walWriter j = Some new_writer" "jf_wal d = Some ls" "list_all is_whole ls"
    using assms(1) by (auto simp: wal_wf_def elim: journal_invE)
  from ls nb assms(3) obtain w where st: "j_walWriter j1 = Some w" "w_err w" "backlogged j1 = backlogged j"
    using assms(2) by (cases rule: appendRecord_cases) (auto simp: backlogged_def)
  have "prefix (pending j d) (pending j1 d1)"
    using appendRecord_effect [OF assms(1) nb assms(3)] by (auto simp: pending_def)
  with st nb show ?thesis
    by (simp add: writer_failed Compact_def compactLocked_def flushWalLocked_def Let_def jfail_def)
qed

theorem failed_write_stops_journal_witness:
  "case Append ''query=a'' ''(1)'' (fst demo) (snd demo\<lparr>jf_faults := [Fails 7]\<rparr>) of (res, j1, d1) \<Rightarrow>
     res = Inl JIOError \<and> fst (Append ''query=a'' ''(1)'' j1 d1) = Inl JIOError"
proof -
  let ?d = "snd demo\<lparr>jf_faults := [Fails 7]\<rparr>"
  obtain j1 d1 where a: "appendRecord (text_record 0 ''query=a'' ''(1)'') (fst demo) ?d = (Inl JIOError, j1, d1)"
    by (simp add: demo_def journal_eval json_eval)
  have "journal_inv (fst demo) ?d"
    using demo_inv by (simp add: demo_def journal_inv_def wal_lines_def acked_on_disk_def pending_def)
  moreover have "\<not> j_fsync (fst demo)" by (simp add: demo_def)
  ultimately have "fst (appendRecord (text_record 0 ''query=a'' ''(1)'') j1 d1) = Inl JIOError"
    using failed_write_stops_journal [OF _ _ a] by blast
  with a show ?thesis by (simp add: Append_text)
qed

text \<open>
  A torn last line is not harmless: \<open>NewJournal\<close> does not repair it, and a process that appends
  before it has compacted writes its line onto the torn one, so that the record of an insert it
  accepts cannot be read back.
\<close>

lemma torn_line_swallows_append:
  assumes "list_all is_whole ls"
  shows "add_lines (ls @ [TornLine s q]) [marshal_line r] = ls @ [WalLine (s @ json_marshal r) None]"
  using assms by (induction ls) (auto simp: marshal_line_def is_whole_def)

end
