(* ===== verification/Go_Path.thy ===== *)
theory Go_Path
  imports Go_Strings
begin

text \<open>
  The functions of Go's packages \<open>path\<close> and \<open>path/filepath\<close> that the program calls, as they
  behave on Unix, where the two packages agree and \<open>ToSlash\<close> is the identity.
\<close>

section \<open>Definitions\<close>

definition slash :: char where
  "slash = CHR 0x2F"

definition rooted :: "string \<Rightarrow> bool" where
  "rooted s = starts_with s [slash]"

text \<open>The elements that \<open>Clean\<close> keeps; the first argument holds the ones kept so far, last first.\<close>

fun clean_parts :: "bool \<Rightarrow> string list \<Rightarrow> string list \<Rightarrow> string list" where
  "clean_parts rt acc [] = rev acc"
| "clean_parts rt acc (p # ps) =
     (if p = [] \<or> p = ''.'' then clean_parts rt acc ps
      else if p = ''..'' then
        (case acc of
           [] \<Rightarrow> clean_parts rt (if rt then [] else [''..'']) ps
         | a # as \<Rightarrow> if a = ''..'' then clean_parts rt (''..'' # acc) ps else clean_parts rt as ps)
      else clean_parts rt (p # acc) ps)"

definition path_parts :: "string \<Rightarrow> string list" where
  "path_parts s = clean_parts (rooted s) [] (split_on slash s)"

definition render_path :: "bool \<Rightarrow> string list \<Rightarrow> string" where
  "render_path rt ps =
     (if rt then slash # join [slash] ps else if ps = [] then ''.'' else join [slash] ps)"

definition path_Clean :: "string \<Rightarrow> string" where
  "path_Clean s = render_path (rooted s) (path_parts s)"

definition path_Join :: "string list \<Rightarrow> string" where
  "path_Join es = (case filter (\<lambda>e. e \<noteq> []) es of [] \<Rightarrow> [] | es' \<Rightarrow> path_Clean (join [slash] es'))"

definition path_Base :: "string \<Rightarrow> string" where
  "path_Base s =
     (if s = [] then ''.''
      else let t = rev (dropWhile (\<lambda>c. c = slash) (rev s))
           in if t = [] then [slash] else last (split_on slash t))"

definition path_Ext :: "string \<Rightarrow> string" where
  "path_Ext s =
     (let r = rev s; e = takeWhile (\<lambda>c. c \<noteq> CHR ''.'' \<and> c \<noteq> slash) r
      in case drop (length e) r of
           [] \<Rightarrow> []
         | c # _ \<Rightarrow> if c = CHR ''.'' then rev (e @ [c]) else [])"

text \<open>\<open>filepath.Rel\<close>, on the elements of the two cleaned paths; \<^term>\<open>None\<close> is its error.\<close>

fun drop_common :: "string list \<Rightarrow> string list \<Rightarrow> string list \<times> string list" where
  "drop_common (b # bs) (t # ts) = (if b = t then drop_common bs ts else (b # bs, t # ts))"
| "drop_common bs ts = (bs, ts)"

definition path_Rel :: "string \<Rightarrow> string \<Rightarrow> string option" where
  "path_Rel base targ =
     (if path_Clean targ = path_Clean base then Some ''.''
      else if rooted base \<noteq> rooted targ then None
      else (case drop_common (path_parts base) (path_parts targ) of
          ([], ts) \<Rightarrow> Some (join [slash] ts)
        | (b # bs, ts) \<Rightarrow>
            if b = ''..'' then None
            else Some (join [slash] (map (\<lambda>_. ''..'') (b # bs) @ ts))))"

section \<open>Names of directory entries\<close>

definition plain_name :: "string \<Rightarrow> bool" where
  "plain_name s = (s \<noteq> [] \<and> s \<noteq> ''.'' \<and> s \<noteq> ''..'' \<and> slash \<notin> set s)"

lemma split_on_snoc: "c \<notin> set t \<Longrightarrow> split_on c (s @ c # t) = split_on c s @ [t]"
proof (induction s)
  case Nil
  then show ?case by (simp add: split_on_no_sep)
next
  case (Cons x xs)
  obtain p ps where "split_on c xs = p # ps" by (cases "split_on c xs") auto
  with Cons show ?case by auto
qed

lemma clean_parts_snoc:
  "plain_name n \<Longrightarrow> clean_parts rt acc (ps @ [n]) = clean_parts rt acc ps @ [n]"
  by (induction rt acc ps rule: clean_parts.induct) (auto simp: plain_name_def split: list.splits)

lemma rooted_append: "s \<noteq> [] \<Longrightarrow> rooted (s @ t) = rooted s"
  by (cases s) (auto simp: rooted_def starts_with_def)

lemma rooted_plain [simp]: "plain_name n \<Longrightarrow> \<not> rooted n"
  by (cases n) (auto simp: rooted_def starts_with_def plain_name_def)

lemma path_parts_plain [simp]: "plain_name n \<Longrightarrow> path_parts n = [n]"
  using clean_parts_snoc [of n False "[]" "[]"]
  by (simp add: path_parts_def split_on_no_sep plain_name_def)

lemma path_parts_Nil [simp]: "path_parts [] = []" "\<not> rooted []"
  by (simp_all add: path_parts_def rooted_def starts_with_def)

lemma path_Join_dir:
  assumes "plain_name n"
  shows "path_Join [dir, n] = render_path (rooted dir) (path_parts dir @ [n])"
proof (cases "dir = []")
  case True
  with assms show ?thesis
    by (simp add: path_Join_def path_Clean_def plain_name_def)
next
  case False
  have n: "n \<noteq> []" "slash \<notin> set n" using assms by (auto simp: plain_name_def)
  have "path_parts (dir @ slash # n) = path_parts dir @ [n]"
    using assms False n by (simp add: path_parts_def rooted_append split_on_snoc clean_parts_snoc)
  with False n show ?thesis by (simp add: path_Join_def path_Clean_def rooted_append)
qed

lemma path_Join_dir2:
  assumes "plain_name m" "plain_name n"
  shows "path_Join [dir, m, n] = render_path (rooted dir) (path_parts dir @ [m, n])"
proof -
  have mn: "m \<noteq> []" "n \<noteq> []" "slash \<notin> set m" "slash \<notin> set n" "m @ slash # n \<noteq> []"
    using assms by (auto simp: plain_name_def)
  have two: "split_on slash (m @ slash # n) = [m, n]" using mn by (simp add: str_simps)
  show ?thesis
  proof (cases "dir = []")
    case True
    have "\<not> rooted (m @ slash # n)" using assms(1) mn by (simp add: rooted_append)
    moreover have "path_parts (m @ slash # n) = [m, n]"
      using clean_parts_snoc [OF assms(2), of False "[]" "[m]"] path_parts_plain [OF assms(1)]
        calculation two mn assms by (simp add: path_parts_def plain_name_def)
    ultimately show ?thesis using True mn by (simp add: path_Join_def path_Clean_def)
  next
    case False
    have "split_on slash (dir @ slash # m @ slash # n) = split_on slash dir @ [m, n]"
      using split_on_snoc [of slash n "dir @ slash # m"] split_on_snoc [of slash m dir] mn by simp
    then have "path_parts (dir @ slash # m @ slash # n) = path_parts dir @ [m, n]"
      using False clean_parts_snoc [OF assms(1), of "rooted dir" "[]"]
        clean_parts_snoc [OF assms(2), of "rooted dir" "[]" "split_on slash dir @ [m]"]
      by (simp add: path_parts_def rooted_append)
    with False mn show ?thesis by (simp add: path_Join_def path_Clean_def rooted_append)
  qed
qed

lemma plain_not_slash_end: "plain_name n \<Longrightarrow> dropWhile (\<lambda>c. c = slash) (rev n @ s) = rev n @ s"
  by (cases "rev n") (auto simp: plain_name_def)

lemma path_Base_render:
  assumes "plain_name n"
  shows "path_Base (render_path rt (ps @ [n])) = n"
proof -
  have n: "n \<noteq> []" "slash \<notin> set n" using assms by (auto simp: plain_name_def)
  have "\<exists>u. render_path rt (ps @ [n]) = u @ n \<and> (u = [] \<or> last u = slash)"
  proof -
    have j: "\<exists>u. join [slash] (ps @ [n]) = u @ n \<and> (u = [] \<or> last u = slash)"
    proof (induction ps)
      case Nil
      then show ?case by simp
    next
      case (Cons p ps)
      then obtain u where "join [slash] (ps @ [n]) = u @ n" "u = [] \<or> last u = slash" by blast
      then have "join [slash] ((p # ps) @ [n]) = (p @ slash # u) @ n"
        "last (p @ slash # u) = slash" by (auto simp: join_Cons)
      then show ?case by blast
    qed
    then obtain u where "join [slash] (ps @ [n]) = u @ n" "u = [] \<or> last u = slash" by blast
    then show ?thesis
      by (cases rt) (auto simp: render_path_def intro: exI [of _ "slash # u"])
  qed
  then obtain u where u: "render_path rt (ps @ [n]) = u @ n" "u = [] \<or> last u = slash" by blast
  have "last (split_on slash (u @ n)) = n"
  proof (cases "u = []")
    case True
    with n show ?thesis by (simp add: split_on_no_sep)
  next
    case False
    with u(2) have "u @ n = butlast u @ slash # n"
      by (metis append.assoc append_Cons append_Nil append_butlast_last_id)
    moreover have "last (split_on slash (butlast u @ slash # n)) = n"
      using n by (simp add: split_on_snoc)
    ultimately show ?thesis by metis
  qed
  moreover have "dropWhile (\<lambda>c. c = slash) (rev n @ rev u) = rev n @ rev u"
    by (rule plain_not_slash_end [OF assms])
  ultimately show ?thesis using u n by (simp add: path_Base_def)
qed

lemma path_Base_Join [simp]: "plain_name n \<Longrightarrow> path_Base (path_Join [dir, n]) = n"
  by (simp add: path_Join_dir path_Base_render)

lemma path_Base_Join2 [simp]:
  "plain_name m \<Longrightarrow> plain_name n \<Longrightarrow> path_Base (path_Join [dir, m, n]) = n"
  using path_Base_render [of n "rooted dir" "path_parts dir @ [m]"] by (simp add: path_Join_dir2)

lemma path_Join_inject [simp]:
  "plain_name m \<Longrightarrow> plain_name n \<Longrightarrow> path_Join [dir, m] = path_Join [dir, n] \<longleftrightarrow> m = n"
  by (metis path_Base_Join)

section \<open>Cleaned paths\<close>

fun clean_acc :: "bool \<Rightarrow> string list \<Rightarrow> bool" where
  "clean_acc rt [] = True"
| "clean_acc rt (a # acc) =
     ((plain_name a \<and> clean_acc rt acc) \<or> (a = ''..'' \<and> \<not> rt \<and> list_all ((=) ''..'') acc))"

lemma dotdot_not_plain [simp]: "\<not> plain_name ''..''"
  by (simp add: plain_name_def)

lemma clean_acc_dotdots: "list_all ((=) ''..'') acc \<Longrightarrow> \<not> rt \<Longrightarrow> clean_acc rt acc"
  by (induction acc) auto

lemma clean_acc_plain: "list_all plain_name ds \<Longrightarrow> clean_acc rt (ds @ acc) = clean_acc rt acc"
  by (induction ds) auto

lemma clean_acc_tl: "clean_acc rt (xs @ acc) \<Longrightarrow> clean_acc rt acc"
  by (induction xs) (auto intro: clean_acc_dotdots)

lemma clean_acc_no_slash: "clean_acc rt acc \<Longrightarrow> p \<in> set acc \<Longrightarrow> slash \<notin> set p"
proof (induction acc)
  case Nil
  then show ?case by simp
next
  case (Cons a acc)
  have d: "slash \<notin> set ''..''" by (simp add: slash_def)
  show ?case
  proof (cases "p = a")
    case True
    with Cons.prems(1) d show ?thesis by (auto simp: plain_name_def)
  next
    case False
    then have "p \<in> set acc" "clean_acc rt acc \<or> p = ''..''"
      using Cons.prems by (auto simp: list_all_iff)
    with Cons.IH d show ?thesis by metis
  qed
qed

lemma clean_parts_clean:
  "clean_acc rt acc \<Longrightarrow> (\<And>p. p \<in> set ps \<Longrightarrow> slash \<notin> set p) \<Longrightarrow> clean_acc rt (rev (clean_parts rt acc ps))"
proof (induction ps arbitrary: acc)
  case Nil
  then show ?case by simp
next
  case (Cons p ps)
  have IH: "\<And>acc. clean_acc rt acc \<Longrightarrow> clean_acc rt (rev (clean_parts rt acc ps))"
    using Cons.IH Cons.prems(2) by simp
  have np: "slash \<notin> set p" using Cons.prems(2) by simp
  consider "p = [] \<or> p = ''.''" | "p = ''..''" | "plain_name p"
    using np by (auto simp: plain_name_def)
  then show ?case
  proof cases
    case 1
    with IH [OF Cons.prems(1)] show ?thesis by auto
  next
    case 2
    show ?thesis
    proof (cases acc)
      case Nil
      with 2 IH [of "if rt then [] else [''..'']"] show ?thesis by simp
    next
      case (Cons a as)
      with \<open>clean_acc rt acc\<close> have "clean_acc rt as" "a = ''..'' \<Longrightarrow> clean_acc rt (''..'' # acc)"
        using clean_acc_tl [of rt "[a]" as] by auto
      with 2 Cons IH [of as] IH [of "''..'' # acc"] show ?thesis by (cases "a = ''..''") auto
    qed
  next
    case 3
    with IH [of "p # acc"] Cons.prems(1) show ?thesis by (simp add: plain_name_def)
  qed
qed

lemma clean_parts_id: "clean_acc rt (rev ps @ acc) \<Longrightarrow> clean_parts rt acc ps = rev acc @ ps"
proof (induction ps arbitrary: acc)
  case Nil
  then show ?case by simp
next
  case (Cons p ps)
  have c: "clean_acc rt (p # acc)" using Cons.prems clean_acc_tl [of rt "rev ps" "p # acc"] by simp
  have ih: "clean_parts rt (p # acc) ps = rev acc @ p # ps" using Cons.IH [of "p # acc"] Cons.prems by simp
  show ?case
  proof (cases "p = ''..''")
    case False
    with c ih show ?thesis by (simp add: plain_name_def)
  next
    case True
    with c have "list_all ((=) ''..'') acc" "\<not> rt" by auto
    with True ih show ?thesis by (cases acc) auto
  qed
qed

lemma path_parts_clean: "clean_acc (rooted s) (rev (path_parts s))"
  unfolding path_parts_def by (rule clean_parts_clean) (auto dest: split_on_parts)

lemma rooted_render:
  assumes "clean_acc rt (rev ps)"
  shows "rooted (render_path rt ps) = rt"
proof (cases rt)
  case True
  then show ?thesis by (simp add: render_path_def rooted_def starts_with_def)
next
  case False
  have "\<not> rooted (join [slash] ps)"
  proof (cases ps)
    case Nil
    then show ?thesis by simp
  next
    case (Cons p qs)
    have "clean_acc rt [p]" using assms Cons clean_acc_tl [of rt "rev qs" "[p]"] by simp
    then have "plain_name p \<or> p = ''..''" by auto
    moreover have "\<not> rooted ''..''" by (simp add: rooted_def starts_with_def slash_def)
    ultimately have "p \<noteq> [] \<and> \<not> rooted p" by (auto simp: plain_name_def)
    with Cons show ?thesis by (cases qs) (auto simp: rooted_append)
  qed
  moreover have "\<not> rooted ''.''" by (simp add: rooted_def starts_with_def slash_def)
  ultimately show ?thesis using False by (simp add: render_path_def)
qed

lemma path_parts_render:
  assumes "clean_acc rt (rev ps)"
  shows "path_parts (render_path rt ps) = ps"
proof -
  have ns: "\<And>p. p \<in> set ps \<Longrightarrow> slash \<notin> set p" using clean_acc_no_slash [OF assms] by simp
  have id: "clean_parts rt [] ps = ps" using clean_parts_id [of rt ps "[]"] assms by simp
  show ?thesis
  proof (cases "ps = []")
    case True
    then show ?thesis
      by (cases rt) (simp_all add: render_path_def path_parts_def slash_def)
  next
    case False
    then have sp: "split_on slash (join [slash] ps) = ps" using ns by (simp add: split_on_join)
    have "rooted (render_path rt ps) = rt" by (rule rooted_render [OF assms])
    moreover have "clean_parts rt [] (split_on slash (render_path rt ps)) = ps"
      using sp id False by (cases rt) (simp_all add: render_path_def)
    ultimately show ?thesis by (simp add: path_parts_def)
  qed
qed

text \<open>The path of a file below a directory, relative to it, is what was joined to it.\<close>

lemma drop_common_prefix: "drop_common ps (ps @ ts) = ([], ts)"
  by (induction ps) (cases ts, auto)

lemma path_Rel_below:
  assumes "ts \<noteq> []" "list_all plain_name ts"
  shows "path_Rel dir (render_path (rooted dir) (path_parts dir @ ts)) = Some (join [slash] ts)"
proof -
  let ?full = "render_path (rooted dir) (path_parts dir @ ts)"
  have c: "clean_acc (rooted dir) (rev (path_parts dir @ ts))"
    using clean_acc_plain [of "rev ts"] path_parts_clean [of dir] assms(2) by (simp add: list_all_iff)
  have p: "path_parts ?full = path_parts dir @ ts" "rooted ?full = rooted dir"
    using path_parts_render [OF c] rooted_render [OF c] by simp_all
  have "path_parts (path_Clean dir) = path_parts dir"
    unfolding path_Clean_def by (rule path_parts_render [OF path_parts_clean])
  moreover have "path_parts (path_Clean ?full) = path_parts dir @ ts"
    using path_parts_render [OF c] p by (simp add: path_Clean_def)
  ultimately have "path_Clean ?full \<noteq> path_Clean dir" using assms(1) by auto
  with p show ?thesis by (simp add: path_Rel_def drop_common_prefix)
qed

section \<open>Elements of a cleaned path\<close>

lemma path_Clean_plain [simp]: "plain_name n \<Longrightarrow> path_Clean n = n"
  by (simp add: path_Clean_def render_path_def)

lemma path_Base_plain [simp]: "plain_name n \<Longrightarrow> path_Base n = n"
  using path_Base_render [of n False "[]"] by (simp add: render_path_def)

lemma plain_no_slash: "plain_name n \<Longrightarrow> \<not> contains n [slash]"
  by (auto simp: plain_name_def contains_iff)

lemma clean_parts_subset:
  "''..'' \<notin> set ps \<Longrightarrow> p \<in> set (clean_parts rt acc ps) \<Longrightarrow> p \<in> set acc \<or> p \<in> set ps \<and> p \<noteq> [] \<and> p \<noteq> ''.''"
proof (induction ps arbitrary: acc)
  case Nil
  then show ?case by simp
next
  case (Cons q qs)
  then have "''..'' \<notin> set qs" "q \<noteq> ''..''" by auto
  with Cons.IH [of acc] Cons.IH [of "q # acc"] Cons.prems(2) show ?case
    by (auto split: if_splits)
qed

lemma path_parts_plain_names:
  assumes "\<not> contains s ''..''" "p \<in> set (path_parts s)"
  shows "plain_name p \<and> \<not> contains p ''..''"
proof -
  have nd: "\<not> contains q ''..''" if "q \<in> set (split_on slash s)" for q
    using split_on_infix [OF that] assms(1) by (auto simp: contains_iff) (metis append.assoc)
  then have "''..'' \<notin> set (split_on slash s)" by (metis append_Nil append_Nil2 contains_iff)
  then have "p \<in> set (split_on slash s)" "p \<noteq> []" "p \<noteq> ''.''"
    using clean_parts_subset assms(2) by (fastforce simp: path_parts_def)+
  moreover have "p \<noteq> ''..''" using \<open>''..'' \<notin> set (split_on slash s)\<close> calculation(1) by blast
  ultimately show ?thesis using nd split_on_parts [of p slash s] by (simp add: plain_name_def)
qed

lemma path_Base_no_slash:
  assumes "\<not> rooted s" "s \<noteq> []"
  shows "slash \<notin> set (path_Base s)"
proof -
  have "dropWhile (\<lambda>c. c = slash) (rev s) \<noteq> []"
  proof
    assume "dropWhile (\<lambda>c. c = slash) (rev s) = []"
    then have "\<forall>c \<in> set s. c = slash" by (auto simp: dropWhile_eq_Nil_conv)
    with assms show False by (cases s) (auto simp: rooted_def starts_with_def)
  qed
  with assms(2) show ?thesis
    by (simp add: path_Base_def Let_def) (metis last_in_set split_on_not_Nil split_on_parts)
qed

lemma path_Clean_no_slash:
  assumes "\<not> contains s ''..''" "\<not> contains (path_Clean s) [slash]" "path_Clean s \<noteq> ''.''"
  shows "plain_name (path_Clean s)" "\<not> contains (path_Clean s) ''..''"
proof -
  have nr: "\<not> rooted s"
  proof
    assume "rooted s"
    then have "path_Clean s = [] @ [slash] @ join [slash] (path_parts s)"
      by (simp add: path_Clean_def render_path_def)
    with assms(2) show False by (metis contains_iff)
  qed
  obtain p ps where pp: "path_parts s = p # ps"
    using assms(3) nr by (cases "path_parts s") (auto simp: path_Clean_def render_path_def)
  have "ps = []"
  proof (rule ccontr)
    assume "ps \<noteq> []"
    then have "path_Clean s = p @ [slash] @ join [slash] ps"
      using nr pp by (simp add: path_Clean_def render_path_def join_Cons)
    with assms(2) show False by (metis contains_iff)
  qed
  with nr pp have "path_Clean s = p" by (simp add: path_Clean_def render_path_def)
  with path_parts_plain_names [OF assms(1), of p] pp
  show "plain_name (path_Clean s)" "\<not> contains (path_Clean s) ''..''" by simp_all
qed

lemma path_Ext_suffix: "path_Ext n = ''.dmp'' \<Longrightarrow> \<exists>u. n = u @ ''.dmp''"
proof -
  assume a: "path_Ext n = ''.dmp''"
  let ?P = "\<lambda>c. c \<noteq> CHR ''.'' \<and> c \<noteq> slash"
  let ?e = "takeWhile ?P (rev n)"
  obtain r where r: "rev n = ?e @ r" by (metis takeWhile_dropWhile_id)
  then have "drop (length ?e) (rev n) = r" by (metis append_eq_conv_conj)
  with a obtain rs where "r = CHR ''.'' # rs" "rev (?e @ [CHR ''.'']) = ''.dmp''"
    by (cases r) (auto simp: path_Ext_def Let_def split: if_splits)
  with r have "rev n = (?e @ [CHR ''.'']) @ rs" by simp
  then have "n = rev rs @ rev (?e @ [CHR ''.''])" by (metis rev_append rev_rev_ident)
  with \<open>rev (?e @ [CHR ''.'']) = ''.dmp''\<close> show ?thesis by metis
qed

lemma path_Ext_dmp: "path_Ext (u @ ''.dmp'') = ''.dmp''"
  by (simp add: path_Ext_def slash_def)

end
