(* ===== verification/Sender.thy ===== *)
theory Sender
  imports Go_Codec
begin

text \<open>
  The requests the program sends to ClickHouse (clickhouse.go) and the Sender interface
  (sender.go): a Go interface value is the record of its methods, each a function on the state
  of the sender behind it. The locale states what the program relies on when it hands a batch
  to a sender.
\<close>

section \<open>Requests and errors\<close>

record ClickhouseRequest =
  req_Params :: string
  req_Query :: string
  req_Content :: string
  req_ContentType :: string
  req_Count :: int
  req_JournalIDs :: "u64 list"
  req_isInsert :: bool
  req_opaque :: bool

text \<open>The errors of a query; \<open>ErrWrongStatus\<close> stands for the text made by \<open>fmt.Errorf\<close>.\<close>

datatype send_err = ErrServerIsDown | ErrNoServers | ErrWrongStatus int

text \<open>HTTP headers in the order an iteration over the map yields them.\<close>

type_synonym headers = "(string \<times> string list) list"

record query_reply =
  rp_response :: string
  rp_status :: int
  rp_headers :: "headers option"
  rp_err :: "send_err option"

section \<open>The interface\<close>

text \<open>\<open>SendQuery\<close> is \<^term>\<open>None\<close> when the call never returns.\<close>

record 's Sender =
  s_Send :: "ClickhouseRequest \<Rightarrow> 's \<Rightarrow> 's"
  s_SendQuery :: "ClickhouseRequest \<Rightarrow> 's \<Rightarrow> (query_reply \<times> 's) option"
  s_Len :: "'s \<Rightarrow> int"
  s_Empty :: "'s \<Rightarrow> bool"

text \<open>
  What the collector relies on: a request handed to \<open>Send\<close> is put last in the queue of its
  worker, and nothing else is. A sender may have several targets, each with a queue of its own,
  and the law holds for each of them.
\<close>

locale batch_queue =
  fixes S :: "'s Sender"
    and inv :: "'s \<Rightarrow> bool"
    and queued :: "'s \<Rightarrow> ClickhouseRequest list"
  assumes inv_Send: "inv s \<Longrightarrow> inv (s_Send S r s)"
    and queued_Send: "inv s \<Longrightarrow> queued (s_Send S r s) = queued s @ [r]"
begin

lemma inv_sends: "inv s \<Longrightarrow> inv (fold (s_Send S) rs s)"
  by (induction rs arbitrary: s) (auto intro: inv_Send)

lemma queued_sends: "inv s \<Longrightarrow> queued (fold (s_Send S) rs s) = queued s @ rs"
  by (induction rs arbitrary: s) (simp_all add: queued_Send inv_Send)

end

text \<open>What a handler relies on besides: \<open>SendQuery\<close> does not touch the queue.\<close>

locale sender = batch_queue +
  assumes inv_SendQuery: "inv s \<Longrightarrow> s_SendQuery S r s = Some (q, s') \<Longrightarrow> inv s'"
    and queued_SendQuery: "inv s \<Longrightarrow> s_SendQuery S r s = Some (q, s') \<Longrightarrow> queued s' = queued s"

lemmas sender_Send = batch_queue.inv_Send [OF sender.axioms(1)] batch_queue.queued_Send [OF sender.axioms(1)]

end
