(* ===== verification/Dumper.thy ===== *)
theory Dumper
  imports Go_Path Sender "HOL-Library.AList" "HOL-Library.Char_ord" "HOL-Library.List_Lexorder"
begin

text \<open>
  The dump directory (dump.go). A \<open>FileDumper\<close> is the Go struct, a \<open>disk\<close> the files and
  directories it works on, by their cleaned paths. Every system call takes its outcome from
  the list of faults of the disk: it may fail, and a write may fail after some of its bytes
  reached the file. A missing parent directory or a lack of permission is such a failure.
\<close>

section \<open>State\<close>

record FileDumper =
  fd_Path :: string
  fd_DumpPrefix :: string
  fd_DumpNum :: int
  fd_MaxDumpFiles :: int
  fd_LockedFiles :: "string list option"

datatype dfault = DOk | DFail | DPartial nat

record disk =
  dk_files :: "(string \<times> string) list"
  dk_dirs :: "string list"
  dk_faults :: "dfault list"

text \<open>The errors, those that \<open>fmt.Errorf\<close> wraps with the step of \<open>ProcessNextDump\<close> that failed.\<close>

datatype derr = ENOENT | EIO | ErrInvalidDumpID | ErrNoDumps | DPanic
  | DumpSearchError derr | MoveError derr | DumpReadError derr | DumpDeleteError derr
  | ServerError int send_err | SentNotDeleted derr

type_synonym 'a dresult = "(derr + 'a) \<times> disk"

definition defaultDumpCheckInterval :: int where
  "defaultDumpCheckInterval = 30"

definition dumpResponseMark :: string where
  "dumpResponseMark = NL # ''### RESPONSE ###'' @ [NL]"

definition dumpKindClientError :: string where
  "dumpKindClientError = ''2''"

definition failedDumpSubdir :: string where
  "failedDumpSubdir = ''failed''"

fun dbind :: "'a dresult \<Rightarrow> ('a \<Rightarrow> disk \<Rightarrow> 'b dresult) \<Rightarrow> 'b dresult" where
  "dbind (Inl e, dk) f = (Inl e, dk)"
| "dbind (Inr x, dk) f = f x dk"

section \<open>System calls\<close>

definition dsys :: "disk \<Rightarrow> dfault \<times> disk" where
  "dsys dk = (case dk_faults dk of [] \<Rightarrow> (DOk, dk) | x # xs \<Rightarrow> (x, dk\<lparr>dk_faults := xs\<rparr>))"

definition is_dir :: "string \<Rightarrow> disk \<Rightarrow> bool" where
  "is_dir p dk = (p \<noteq> [] \<and> path_Clean p \<in> set (dk_dirs dk))"

definition os_Stat :: "string \<Rightarrow> disk \<Rightarrow> unit dresult" where
  "os_Stat p dk = (case dsys dk of
     (DOk, dk) \<Rightarrow> (if is_dir p dk then Inr () else Inl ENOENT, dk)
   | (_, dk) \<Rightarrow> (Inl EIO, dk))"

definition os_Mkdir :: "string \<Rightarrow> disk \<Rightarrow> unit dresult" where
  "os_Mkdir p dk = (case dsys dk of
     (DOk, dk) \<Rightarrow> (if p = [] then (Inl ENOENT, dk)
                   else if is_dir p dk then (Inl EIO, dk)
                   else (Inr (), dk\<lparr>dk_dirs := path_Clean p # dk_dirs dk\<rparr>))
   | (_, dk) \<Rightarrow> (Inl EIO, dk))"

definition os_MkdirAll :: "string \<Rightarrow> disk \<Rightarrow> unit dresult" where
  "os_MkdirAll p dk = (case dsys dk of
     (DOk, dk) \<Rightarrow> (if p = [] then (Inl ENOENT, dk)
                   else (Inr (), dk\<lparr>dk_dirs := List.insert (path_Clean p) (dk_dirs dk)\<rparr>))
   | (_, dk) \<Rightarrow> (Inl EIO, dk))"

definition os_WriteFile :: "string \<Rightarrow> string \<Rightarrow> disk \<Rightarrow> unit dresult" where
  "os_WriteFile p data dk = (case dsys dk of
     (DOk, dk) \<Rightarrow> (Inr (), dk\<lparr>dk_files := AList.update p data (dk_files dk)\<rparr>)
   | (DFail, dk) \<Rightarrow> (Inl EIO, dk)
   | (DPartial k, dk) \<Rightarrow> (Inl EIO, dk\<lparr>dk_files := AList.update p (take k data) (dk_files dk)\<rparr>))"

definition os_ReadFile :: "string \<Rightarrow> disk \<Rightarrow> string dresult" where
  "os_ReadFile p dk = (case dsys dk of
     (DOk, dk) \<Rightarrow> (case map_of (dk_files dk) p of None \<Rightarrow> (Inl ENOENT, dk) | Some s \<Rightarrow> (Inr s, dk))
   | (_, dk) \<Rightarrow> (Inl EIO, dk))"

definition os_Remove :: "string \<Rightarrow> disk \<Rightarrow> unit dresult" where
  "os_Remove p dk = (case dsys dk of
     (DOk, dk) \<Rightarrow> (case map_of (dk_files dk) p of
         None \<Rightarrow> (Inl ENOENT, dk)
       | Some _ \<Rightarrow> (Inr (), dk\<lparr>dk_files := AList.delete p (dk_files dk)\<rparr>))
   | (_, dk) \<Rightarrow> (Inl EIO, dk))"

definition os_Rename :: "string \<Rightarrow> string \<Rightarrow> disk \<Rightarrow> unit dresult" where
  "os_Rename src dst dk = (case dsys dk of
     (DOk, dk) \<Rightarrow> (case map_of (dk_files dk) src of
         None \<Rightarrow> (Inl ENOENT, dk)
       | Some s \<Rightarrow> (Inr (), dk\<lparr>dk_files := AList.update dst s (AList.delete src (dk_files dk))\<rparr>))
   | (_, dk) \<Rightarrow> (Inl EIO, dk))"

text \<open>The names of the regular files of a directory.\<close>

definition names_in :: "string \<Rightarrow> disk \<Rightarrow> string list" where
  "names_in dir dk =
     map path_Base (filter (\<lambda>p. path_Join [dir, path_Base p] = p) (map fst (dk_files dk)))"

definition os_ReadDir :: "string \<Rightarrow> disk \<Rightarrow> string list dresult" where
  "os_ReadDir dir dk = (case dsys dk of
     (DOk, dk) \<Rightarrow> (if is_dir dir dk then Inr (sort (names_in dir dk)) else Inl ENOENT, dk)
   | (_, dk) \<Rightarrow> (Inl EIO, dk))"

section \<open>Names and paths\<close>

definition safeDumpRelPath :: "string \<Rightarrow> derr + string" where
  "safeDumpRelPath fid =
     (if contains fid ''..'' then Inl ErrInvalidDumpID
      else
        (let clean = path_Clean fid; base = path_Base clean
         in if clean = failedDumpSubdir then Inl ErrInvalidDumpID
            else if starts_with clean (failedDumpSubdir @ [slash]) then
              (if base = [] \<or> base = ''.'' \<or> base = ''..'' then Inl ErrInvalidDumpID
               else Inr (path_Join [failedDumpSubdir, base]))
            else if contains clean [slash] then Inl ErrInvalidDumpID
            else if base = [] \<or> base = ''.'' \<or> base = ''..'' then Inl ErrInvalidDumpID
            else Inr base))"

definition makePath :: "FileDumper \<Rightarrow> string \<Rightarrow> derr + string" where
  "makePath d fid = (case safeDumpRelPath fid of
     Inl e \<Rightarrow> Inl e
   | Inr rel \<Rightarrow>
       (let full = path_Join [fd_Path d, rel]
        in case path_Rel (fd_Path d) full of
             None \<Rightarrow> Inl ErrInvalidDumpID
           | Some chk \<Rightarrow> if starts_with chk ''..'' then Inl ErrInvalidDumpID else Inr full))"

definition checkDir :: "FileDumper \<Rightarrow> bool \<Rightarrow> disk \<Rightarrow> unit dresult" where
  "checkDir d create dk = (case os_Stat (fd_Path d) dk of
     (Inl e, dk) \<Rightarrow> if e = ENOENT \<and> create then os_Mkdir (fd_Path d) dk else (Inl e, dk)
   | (Inr u, dk) \<Rightarrow> (Inr u, dk))"

definition dumpName :: "FileDumper \<Rightarrow> int \<Rightarrow> string \<Rightarrow> int \<Rightarrow> string" where
  "dumpName d num kind status =
     ''dump'' @ fd_DumpPrefix d @ kind @ ''-'' @ itoa num @ ''-'' @ itoa status @ ''.dmp''"

text \<open>\<open>NewDumper\<close>; the second argument is the start time in the layout 20060102150405.\<close>

definition NewDumper :: "string \<Rightarrow> string \<Rightarrow> FileDumper" where
  "NewDumper path stamp = \<lparr>fd_Path = path, fd_DumpPrefix = stamp, fd_DumpNum = 0,
     fd_MaxDumpFiles = 0, fd_LockedFiles = None\<rparr>"

text \<open>The pattern \<open>^dump\d{14}2-\d+-\d+\.dmp$\<close>.\<close>

definition isClientErrorDumpFile :: "string \<Rightarrow> bool" where
  "isClientErrorDumpFile name =
     (let stamp = drop 4 name; r = drop 14 stamp; num = drop 2 r;
          st = dropWhile is_digit_char num; status = drop 1 st
      in starts_with name ''dump''
       \<and> 14 \<le> length stamp \<and> list_all is_digit_char (take 14 stamp)
       \<and> starts_with r (dumpKindClientError @ ''-'')
       \<and> takeWhile is_digit_char num \<noteq> [] \<and> starts_with st ''-''
       \<and> takeWhile is_digit_char status \<noteq> [] \<and> dropWhile is_digit_char status = ''.dmp'')"

definition failedDir :: "FileDumper \<Rightarrow> string" where
  "failedDir d = path_Join [fd_Path d, failedDumpSubdir]"

section \<open>Writing\<close>

definition listPendingDumpFiles :: "FileDumper \<Rightarrow> disk \<Rightarrow> string list dresult" where
  "listPendingDumpFiles d dk = (case checkDir d False dk of
     (Inl e, dk) \<Rightarrow> (if e = ENOENT then Inr [] else Inl e, dk)
   | (Inr _, dk) \<Rightarrow> dbind (os_ReadDir (fd_Path d) dk) (\<lambda>names dk.
       (Inr (sort (filter (\<lambda>n. path_Ext n = ''.dmp'') names)), dk)))"

fun pruneLoop :: "FileDumper \<Rightarrow> string list \<Rightarrow> disk \<Rightarrow> disk" where
  "pruneLoop d [] dk = dk"
| "pruneLoop d (oldest # files) dk =
     (if fd_MaxDumpFiles d < int (length (oldest # files)) then
        (case makePath d oldest of
           Inl _ \<Rightarrow> dk
         | Inr p \<Rightarrow> (case os_Remove p dk of
             (Inl _, dk) \<Rightarrow> dk
           | (Inr _, dk) \<Rightarrow> pruneLoop d files dk))
      else dk)"

definition pruneOldestIfNeeded :: "FileDumper \<Rightarrow> disk \<Rightarrow> disk" where
  "pruneOldestIfNeeded d dk =
     (if fd_MaxDumpFiles d \<le> 0 then dk
      else (case listPendingDumpFiles d dk of
          (Inl _, dk) \<Rightarrow> dk
        | (Inr files, dk) \<Rightarrow> pruneLoop d files dk))"

definition dump_data :: "string \<Rightarrow> string \<Rightarrow> string \<Rightarrow> string" where
  "dump_data params content response =
     params @ [NL] @ content @ (if response = [] then [] else dumpResponseMark @ response)"

definition Dump :: "string \<Rightarrow> string \<Rightarrow> string \<Rightarrow> string \<Rightarrow> int \<Rightarrow> FileDumper \<Rightarrow> disk
    \<Rightarrow> (derr + unit) \<times> FileDumper \<times> disk" where
  "Dump params content response kind status d dk = (case checkDir d True dk of
     (Inl e, dk) \<Rightarrow> (Inl e, d, dk)
   | (Inr _, dk) \<Rightarrow>
       (let d = d\<lparr>fd_DumpNum := fd_DumpNum d + 1\<rparr>;
            file_path = path_Join [fd_Path d, dumpName d (fd_DumpNum d) kind status]
        in case os_WriteFile file_path (dump_data params content response) dk of
             (Inl e, dk) \<Rightarrow> (Inl e, d, dk)
           | (Inr _, dk) \<Rightarrow> (Inr (), d, pruneOldestIfNeeded d dk)))"

section \<open>Reading\<close>

definition effectiveReplayBatch :: "int \<Rightarrow> int" where
  "effectiveReplayBatch configured = (if 0 < configured then configured else 0)"

definition is_locked :: "FileDumper \<Rightarrow> string \<Rightarrow> bool" where
  "is_locked d f = (case fd_LockedFiles d of None \<Rightarrow> False | Some L \<Rightarrow> f \<in> set L)"

definition GetDump :: "FileDumper \<Rightarrow> disk \<Rightarrow> string dresult" where
  "GetDump d dk = (case checkDir d False dk of
     (Inl e, dk) \<Rightarrow> (Inl (if e = ENOENT then ErrNoDumps else e), dk)
   | (Inr _, dk) \<Rightarrow> dbind (listPendingDumpFiles d dk) (\<lambda>files dk.
       (case filter (\<lambda>f. \<not> is_locked d f) files of
          [] \<Rightarrow> (Inl ErrNoDumps, dk)
        | f # _ \<Rightarrow> (Inr f, dk))))"

definition GetDumpData :: "FileDumper \<Rightarrow> string \<Rightarrow> disk \<Rightarrow> (string \<times> string) dresult" where
  "GetDumpData d fid dk = (case makePath d fid of
     Inl e \<Rightarrow> (Inl e, dk)
   | Inr filePath \<Rightarrow> dbind (os_ReadFile filePath dk) (\<lambda>s dk.
       (case split_str dumpResponseMark s of
          [] \<Rightarrow> (Inl DPanic, dk)
        | [x] \<Rightarrow> (Inr (x, []), dk)
        | x # y # _ \<Rightarrow> (Inr (x, y), dk))))"

definition moveToFailed :: "FileDumper \<Rightarrow> string \<Rightarrow> disk \<Rightarrow> unit dresult" where
  "moveToFailed d name dk = (case safeDumpRelPath name of
     Inl e \<Rightarrow> (Inl e, dk)
   | Inr safeName \<Rightarrow> dbind (os_MkdirAll (failedDir d) dk) (\<lambda>_ dk.
       (case makePath d safeName of
          Inl e \<Rightarrow> (Inl e, dk)
        | Inr src \<Rightarrow> os_Rename src (path_Join [failedDir d, safeName]) dk)))"

text \<open>The attempts of \<open>DeleteDump\<close>; the error of the last one is the result.\<close>

fun removeAttempts :: "nat \<Rightarrow> string \<Rightarrow> disk \<Rightarrow> unit dresult" where
  "removeAttempts 0 p dk = os_Remove p dk"
| "removeAttempts (Suc n) p dk = (case os_Remove p dk of
     (Inr _, dk) \<Rightarrow> (Inr (), dk)
   | (Inl _, dk) \<Rightarrow> removeAttempts n p dk)"

definition DeleteDump :: "FileDumper \<Rightarrow> string \<Rightarrow> disk \<Rightarrow> unit dresult" where
  "DeleteDump d fid dk = (case makePath d fid of
     Inl e \<Rightarrow> (Inl e, dk)
   | Inr filePath \<Rightarrow> removeAttempts 2 filePath dk)"

section \<open>Replay\<close>

text \<open>\<open>parseDumpPayload\<close>: params, query, content and number of rows.\<close>

definition parseDumpPayload :: "string \<Rightarrow> string \<times> string \<times> string \<times> int" where
  "parseDumpPayload data = (case split_on NL data of
     [] \<Rightarrow> ([], [], [], 0)
   | l # ls \<Rightarrow>
       (if HasPrefix l ''insert'' then ([], l, join [NL] ls, int (length (l # ls)) - 1)
        else (l, (case ls of [] \<Rightarrow> [] | q # _ \<Rightarrow> q), join [NL] ls, int (length (drop 2 (l # ls))))))"

definition dump_request :: "string \<Rightarrow> ClickhouseRequest" where
  "dump_request data = (case parseDumpPayload data of (params, query, content, rows) \<Rightarrow>
     \<lparr>req_Params = params, req_Query = query, req_Content = content, req_ContentType = [],
      req_Count = rows, req_JournalIDs = [], req_isInsert = True, req_opaque = False\<rparr>)"

definition sendDumpPayload :: "'s Sender \<Rightarrow> string \<Rightarrow> 's \<Rightarrow> ((int \<times> send_err option) \<times> 's) option" where
  "sendDumpPayload S data s =
     (let r = dump_request data
      in if req_Content r = [] \<and> req_Query r = [] \<and> req_Params r = [] then Some ((200, None), s)
         else map_option (\<lambda>(q, s). ((rp_status q, rp_err q), s)) (s_SendQuery S r s))"

definition listFailedDumpFiles :: "FileDumper \<Rightarrow> disk \<Rightarrow> string list dresult" where
  "listFailedDumpFiles d dk = (case os_ReadDir (failedDir d) dk of
     (Inl e, dk) \<Rightarrow> (if e = ENOENT then Inr [] else Inl e, dk)
   | (Inr names, dk) \<Rightarrow> (Inr (sort (filter (\<lambda>n. path_Ext n = ''.dmp'') names)), dk))"

record FailedReplayItem =
  it_File :: string
  it_Status :: int
  it_Error :: "derr option"

record FailedReplayReport =
  rep_Sent :: int
  rep_Errors :: int
  rep_Remaining :: int
  rep_Items :: "FailedReplayItem list"

definition replay_error :: "string \<Rightarrow> int \<Rightarrow> derr \<Rightarrow> FailedReplayReport \<Rightarrow> FailedReplayReport" where
  "replay_error name status e rep = rep\<lparr>rep_Errors := rep_Errors rep + 1,
     rep_Items := rep_Items rep @ [\<lparr>it_File = name, it_Status = status, it_Error = Some e\<rparr>]\<rparr>"

text \<open>One file of \<open>failed/\<close>: the body of the loop of \<open>ReplayFailed\<close>.\<close>

definition replayFailedFile :: "'s Sender \<Rightarrow> FileDumper \<Rightarrow> string \<Rightarrow> FailedReplayReport \<Rightarrow> disk \<Rightarrow> 's
    \<Rightarrow> (FailedReplayReport \<times> disk \<times> 's) option" where
  "replayFailedFile S d name rep dk s =
     (let rel = path_Join [failedDumpSubdir, name]
      in case GetDumpData d rel dk of
          (Inl e, dk) \<Rightarrow> Some (replay_error name 0 e rep, dk, s)
        | (Inr (data, _), dk) \<Rightarrow> (case sendDumpPayload S data s of
            None \<Rightarrow> None
          | Some ((status, Some err), s) \<Rightarrow>
              Some (replay_error name status (ServerError status err) rep, dk, s)
          | Some ((status, None), s) \<Rightarrow> (case makePath d rel of
              Inl e \<Rightarrow> Some (replay_error name 0 e rep, dk, s)
            | Inr rmPath \<Rightarrow> (case os_Remove rmPath dk of
                (Inl e, dk) \<Rightarrow> Some (replay_error name 0 (SentNotDeleted e) rep, dk, s)
              | (Inr _, dk) \<Rightarrow>
                  Some (rep\<lparr>rep_Sent := rep_Sent rep + 1, rep_Items := rep_Items rep @
                      [\<lparr>it_File = name, it_Status = 0, it_Error = None\<rparr>]\<rparr>, dk, s)))))"

fun replayFailedLoop :: "'s Sender \<Rightarrow> FileDumper \<Rightarrow> int \<Rightarrow> int \<Rightarrow> string list \<Rightarrow> FailedReplayReport \<Rightarrow> disk \<Rightarrow> 's
    \<Rightarrow> (FailedReplayReport \<times> disk \<times> 's) option" where
  "replayFailedLoop S d limit processed [] rep dk s = Some (rep, dk, s)"
| "replayFailedLoop S d limit processed (name # names) rep dk s =
     (if 0 < limit \<and> limit \<le> processed then Some (rep, dk, s)
      else (case replayFailedFile S d name rep dk s of
          None \<Rightarrow> None
        | Some (rep, dk, s) \<Rightarrow> replayFailedLoop S d limit (processed + 1) names rep dk s))"

definition ReplayFailed :: "'s Sender \<Rightarrow> int \<Rightarrow> FileDumper \<Rightarrow> disk \<Rightarrow> 's
    \<Rightarrow> (FailedReplayReport \<times> disk \<times> 's) option" where
  "ReplayFailed S limit d dk s =
     (let rep = \<lparr>rep_Sent = 0, rep_Errors = 0, rep_Remaining = 0, rep_Items = []\<rparr>
      in case listFailedDumpFiles d dk of
          (Inl e, dk) \<Rightarrow> Some (replay_error [] 0 e rep, dk, s)
        | (Inr files, dk) \<Rightarrow> (case replayFailedLoop S d limit 0 files rep dk s of
            None \<Rightarrow> None
          | Some (rep, dk, s) \<Rightarrow> (case listFailedDumpFiles d dk of
              (Inl _, dk) \<Rightarrow> Some (rep\<lparr>rep_Remaining := 0\<rparr>, dk, s)
            | (Inr remaining, dk) \<Rightarrow> Some (rep\<lparr>rep_Remaining := int (length remaining)\<rparr>, dk, s))))"

text \<open>The end of \<open>ProcessNextDump\<close>: delete the file, or lock it against a second sending.\<close>

definition finishDump :: "string \<Rightarrow> FileDumper \<Rightarrow> disk \<Rightarrow> (derr + unit) \<times> FileDumper \<times> disk" where
  "finishDump f d dk = (case DeleteDump d f dk of
     (Inr _, dk) \<Rightarrow> (Inr (), d, dk)
   | (Inl e, dk) \<Rightarrow> (case fd_LockedFiles d of
       None \<Rightarrow> (Inl DPanic, d, dk)
     | Some L \<Rightarrow> (Inl (DumpDeleteError e), d\<lparr>fd_LockedFiles := Some (f # L)\<rparr>, dk)))"

definition ProcessNextDump :: "'s Sender \<Rightarrow> FileDumper \<Rightarrow> disk \<Rightarrow> 's
    \<Rightarrow> ((derr + unit) \<times> FileDumper \<times> disk \<times> 's) option" where
  "ProcessNextDump S d dk s = (case GetDump d dk of
     (Inl e, dk) \<Rightarrow> Some (Inl (if e = ErrNoDumps then e else DumpSearchError e), d, dk, s)
   | (Inr f, dk) \<Rightarrow>
       (if f = [] then Some (Inr (), d, dk, s)
        else if isClientErrorDumpFile f then
          (case moveToFailed d f dk of
             (Inl e, dk) \<Rightarrow> Some (Inl (MoveError e), d, dk, s)
           | (Inr _, dk) \<Rightarrow> Some (Inr (), d, dk, s))
        else (case GetDumpData d f dk of
            (Inl e, dk) \<Rightarrow> Some (Inl (DumpReadError e), d, dk, s)
          | (Inr (data, _), dk) \<Rightarrow>
              (case (if data = [] then Some ((200, None), s) else sendDumpPayload S data s) of
                 None \<Rightarrow> None
               | Some ((status, Some err), s) \<Rightarrow> Some (Inl (ServerError status err), d, dk, s)
               | Some ((status, None), s) \<Rightarrow>
                   (case finishDump f d dk of (res, d, dk) \<Rightarrow> Some (res, d, dk, s))))))"

text \<open>One tick of the loop of \<open>Listen\<close>: \<^term>\<open>None\<close> when it never ends.\<close>

partial_function (option) listenTick :: "'s Sender \<Rightarrow> int \<Rightarrow> int \<Rightarrow> FileDumper \<Rightarrow> disk \<Rightarrow> 's
    \<Rightarrow> (derr option \<times> FileDumper \<times> disk \<times> 's) option" where
  "listenTick S batchLimit processed d dk s =
     (if 0 < batchLimit \<and> batchLimit \<le> processed then Some (None, d, dk, s)
      else (case ProcessNextDump S d dk s of
          None \<Rightarrow> None
        | Some (res, d, dk, s) \<Rightarrow>
            (case res of
               Inl e \<Rightarrow> Some (Some e, d, dk, s)
             | Inr _ \<Rightarrow> listenTick S batchLimit (processed + 1) d dk s)))"

definition Listen_init :: "FileDumper \<Rightarrow> FileDumper" where
  "Listen_init d = d\<lparr>fd_LockedFiles := Some []\<rparr>"

definition listenInterval :: "int \<Rightarrow> int" where
  "listenInterval interval = (if interval = 0 then defaultDumpCheckInterval else interval)"

end
