(* ===== verification/Dumper_Facts.thy ===== *)
theory Dumper_Facts
  imports Dumper
begin

text \<open>
  Lemmas on the dump directory: which paths the dumper can name, what each of its operations
  does to the files, under any failures of the system calls.
\<close>


section \<open>Names\<close>

definition dump_file_name :: "string \<Rightarrow> bool" where
  "dump_file_name n = (plain_name n \<and> \<not> contains n ''..'' \<and> path_Ext n = ''.dmp'')"

lemma plain_failed [simp]: "plain_name failedDumpSubdir"
  by (simp add: plain_name_def failedDumpSubdir_def slash_def)

lemma plain_not_below: "plain_name n \<Longrightarrow> \<not> starts_with n (failedDumpSubdir @ [slash])"
proof
  assume p: "plain_name n" "starts_with n (failedDumpSubdir @ [slash])"
  then have "n = (failedDumpSubdir @ [slash]) @ drop (length (failedDumpSubdir @ [slash])) n"
    unfolding starts_with_def by (metis append_take_drop_id)
  then have "slash \<in> set n" by (metis in_set_conv_decomp append.assoc append_Cons append_Nil)
  with p(1) show False by (simp add: plain_name_def)
qed

lemma dump_name_not_failed: "path_Ext n = ''.dmp'' \<Longrightarrow> n \<noteq> failedDumpSubdir \<and> n \<noteq> []"
  using path_Ext_suffix [of n] by (auto simp: failedDumpSubdir_def path_Ext_def slash_def)

section \<open>Paths\<close>

lemma safeDumpRelPath_name:
  "plain_name n \<Longrightarrow> \<not> contains n ''..'' \<Longrightarrow> n \<noteq> failedDumpSubdir \<Longrightarrow> safeDumpRelPath n = Inr n"
  by (simp add: safeDumpRelPath_def plain_not_below plain_no_slash)
    (simp add: plain_name_def)

lemma safe_rel_cases:
  assumes "safeDumpRelPath fid = Inr rel"
  obtains (name) "plain_name rel" "\<not> contains rel ''..''" "rel \<noteq> failedDumpSubdir"
    | (failed) n where "plain_name n" "rel = path_Join [failedDumpSubdir, n]"
proof -
  let ?c = "path_Clean fid" and ?b = "path_Base (path_Clean fid)"
  have nd: "\<not> contains fid ''..''" "?c \<noteq> failedDumpSubdir"
    using assms by (auto simp: safeDumpRelPath_def Let_def split: if_splits)
  show ?thesis
  proof (cases "starts_with ?c (failedDumpSubdir @ [slash])")
    case True
    with assms nd have b: "?b \<noteq> []" "?b \<noteq> ''.''" "?b \<noteq> ''..''"
      and rel: "rel = path_Join [failedDumpSubdir, ?b]"
      by (auto simp: safeDumpRelPath_def Let_def split: if_splits)
    have "\<not> rooted ?c" "?c \<noteq> []"
      using True by (auto simp: starts_with_iff failedDumpSubdir_def rooted_def slash_def)
    then have "slash \<notin> set ?b" by (rule path_Base_no_slash)
    with b have "plain_name ?b" by (simp add: plain_name_def)
    then show ?thesis using rel by (rule failed)
  next
    case False
    with assms nd have ns: "\<not> contains ?c [slash]" and b: "?b \<noteq> ''.''" and rel: "rel = ?b"
      by (auto simp: safeDumpRelPath_def Let_def split: if_splits)
    have "?c \<noteq> ''.''" using b by (auto simp: path_Base_def slash_def)
    from path_Clean_no_slash [OF nd(1) ns this] rel nd(2) show ?thesis
      by (intro name) simp_all
  qed
qed

lemma not_dotdot_start: "\<not> contains n ''..'' \<Longrightarrow> \<not> starts_with n ''..''"
  by (metis append_Nil contains_iff starts_with_iff)

lemma makePath_name:
  assumes "plain_name n" "\<not> contains n ''..''" "n \<noteq> failedDumpSubdir"
  shows "makePath d n = Inr (path_Join [fd_Path d, n])"
proof -
  have "path_Rel (fd_Path d) (path_Join [fd_Path d, n]) = Some n"
    using path_Rel_below [of "[n]" "fd_Path d"] assms(1) by (simp add: path_Join_dir)
  with assms show ?thesis by (simp add: makePath_def safeDumpRelPath_name not_dotdot_start)
qed

lemma path_Join_failed: "plain_name n \<Longrightarrow> path_Join [failedDumpSubdir, n] = failedDumpSubdir @ slash # n"
  by (simp add: path_Join_dir render_path_def)

lemma path_Join_failed2:
  "plain_name n \<Longrightarrow> path_Join [dir, failedDumpSubdir @ slash # n] = path_Join [dir, failedDumpSubdir, n]"
  by (auto simp: path_Join_def plain_name_def failedDumpSubdir_def)

lemma makePath_inside:
  assumes "makePath d fid = Inr p"
  shows "\<exists>n. plain_name n \<and> (p = path_Join [fd_Path d, n] \<or> p = path_Join [fd_Path d, failedDumpSubdir, n])"
proof -
  obtain rel where "safeDumpRelPath fid = Inr rel" "p = path_Join [fd_Path d, rel]"
    using assms by (auto simp: makePath_def Let_def split: sum.splits option.splits if_splits)
  then show ?thesis
    by (elim safe_rel_cases) (auto simp: path_Join_failed path_Join_failed2)
qed

lemma safe_rel_failed:
  assumes "plain_name n" "\<not> contains n ''..''"
  shows "safeDumpRelPath (failedDumpSubdir @ slash # n) = Inr (failedDumpSubdir @ slash # n)"
proof -
  let ?f = "failedDumpSubdir @ slash # n"
  have r: "?f = render_path False [failedDumpSubdir, n]" by (simp add: render_path_def)
  have c: "path_Clean ?f = ?f"
  proof -
    have "path_parts ?f = [failedDumpSubdir, n]" "\<not> rooted ?f"
      unfolding r using assms by (simp_all add: path_parts_render rooted_render)
    then show ?thesis by (simp add: path_Clean_def r)
  qed
  have b: "path_Base ?f = n"
    unfolding r using path_Base_render [of n False "[failedDumpSubdir]"] assms by simp
  have "\<not> contains ?f ''..''"
  proof
    assume "contains ?f ''..''"
    then have "contains n ''..''"
      using contains_skip [of "CHR ''.''" "failedDumpSubdir @ [slash]" n "''.''"]
      by (simp add: failedDumpSubdir_def slash_def)
    with assms(2) show False by simp
  qed
  moreover have "?f \<noteq> failedDumpSubdir" by simp
  moreover have "starts_with ?f (failedDumpSubdir @ [slash])" by (simp add: starts_with_iff)
  moreover have "n \<noteq> []" "n \<noteq> ''.''" "n \<noteq> ''..''" using assms by (auto simp: plain_name_def)
  ultimately show ?thesis using c b assms by (simp add: safeDumpRelPath_def path_Join_failed)
qed

lemma makePath_failed:
  assumes "plain_name n" "\<not> contains n ''..''"
  shows "makePath d (path_Join [failedDumpSubdir, n]) = Inr (path_Join [fd_Path d, failedDumpSubdir, n])"
proof -
  have "path_Rel (fd_Path d) (path_Join [fd_Path d, failedDumpSubdir, n]) = Some (failedDumpSubdir @ slash # n)"
    using path_Rel_below [of "[failedDumpSubdir, n]" "fd_Path d"] assms(1) by (simp add: path_Join_dir2)
  moreover have "\<not> starts_with (failedDumpSubdir @ slash # n) ''..''"
    by (simp add: starts_with_def failedDumpSubdir_def)
  ultimately show ?thesis
    using assms by (simp add: makePath_def path_Join_failed safe_rel_failed path_Join_failed2)
qed

lemma failed_not_in_dir [simp]:
  assumes "plain_name m" "plain_name n"
  shows "path_Join [dir, failedDumpSubdir, m] \<noteq> path_Join [dir, n]"
proof
  assume a: "path_Join [dir, failedDumpSubdir, m] = path_Join [dir, n]"
  have c: "clean_acc (rooted dir) (rev (path_parts dir @ ts))" if "list_all plain_name ts" for ts
    using clean_acc_plain [of "rev ts"] path_parts_clean [of dir] that by (simp add: list_all_iff)
  have "path_parts dir @ [failedDumpSubdir, m] = path_parts dir @ [n]"
    using arg_cong [OF a, of path_parts] assms path_parts_render [OF c [of "[n]"]]
      path_parts_render [OF c [of "[failedDumpSubdir, m]"]]
    by (simp add: path_Join_dir path_Join_dir2)
  then show False by simp
qed

section \<open>System calls\<close>

definition same_files :: "disk \<Rightarrow> disk \<Rightarrow> bool" where
  "same_files dk dk' = (dk_files dk' = dk_files dk)"

lemma same_files_refl [simp]: "same_files dk dk"
  by (simp add: same_files_def)

lemma same_files_trans: "same_files a b \<Longrightarrow> same_files b c \<Longrightarrow> same_files a c"
  by (simp add: same_files_def)

lemma dsys_files: "dsys dk = (x, dk') \<Longrightarrow> same_files dk dk'"
  by (auto simp: dsys_def same_files_def split: list.splits)

lemma names_in_cong: "same_files dk dk' \<Longrightarrow> names_in dir dk' = names_in dir dk"
  by (simp add: same_files_def names_in_def)

lemma sys_files:
  "os_Stat p dk = (a, dk') \<Longrightarrow> same_files dk dk'"
  "os_Mkdir p dk = (a, dk') \<Longrightarrow> same_files dk dk'"
  "os_MkdirAll p dk = (a, dk') \<Longrightarrow> same_files dk dk'"
  "os_ReadFile p dk = (b, dk') \<Longrightarrow> same_files dk dk'"
  "os_ReadDir p dk = (c, dk') \<Longrightarrow> same_files dk dk'"
  by (auto simp: os_Stat_def os_Mkdir_def os_MkdirAll_def os_ReadFile_def os_ReadDir_def same_files_def
      dest!: dsys_files split: prod.splits dfault.splits if_splits option.splits)

lemma os_ReadFile_Inr:
  "os_ReadFile p dk = (Inr s, dk') \<Longrightarrow> map_of (dk_files dk) p = Some s \<and> same_files dk dk'"
  by (auto simp: os_ReadFile_def same_files_def
      dest!: dsys_files split: prod.splits dfault.splits if_splits option.splits)

lemma os_ReadDir_Inr:
  "os_ReadDir p dk = (Inr ns, dk') \<Longrightarrow> ns = sort (names_in p dk) \<and> same_files dk dk'"
  by (auto simp: os_ReadDir_def same_files_def names_in_def
      dest!: dsys_files split: prod.splits dfault.splits if_splits option.splits)

lemma os_Remove_cases:
  assumes "os_Remove p dk = (r, dk')"
  obtains e where "r = Inl e" "same_files dk dk'"
    | s where "r = Inr ()" "map_of (dk_files dk) p = Some s"
      "dk_files dk' = AList.delete p (dk_files dk)"
  using assms by (auto simp: os_Remove_def same_files_def
      dest!: dsys_files split: prod.splits dfault.splits if_splits option.splits)

lemma os_Rename_cases:
  assumes "os_Rename p p' dk = (r, dk')"
  obtains e where "r = Inl e" "same_files dk dk'"
    | s where "r = Inr ()" "map_of (dk_files dk) p = Some s"
      "dk_files dk' = AList.update p' s (AList.delete p (dk_files dk))"
  using assms by (auto simp: os_Rename_def same_files_def
      dest!: dsys_files split: prod.splits dfault.splits if_splits option.splits)

lemma removeAttempts_cases:
  assumes "removeAttempts n p dk = (r, dk')"
  obtains e where "r = Inl e" "same_files dk dk'"
    | s where "r = Inr ()" "map_of (dk_files dk) p = Some s"
      "dk_files dk' = AList.delete p (dk_files dk)"
  using assms
proof (induction n arbitrary: dk thesis)
  case 0
  then show ?case by (auto elim: os_Remove_cases)
next
  case (Suc n)
  from Suc.prems(3) obtain r1 dk1 where 1: "os_Remove p dk = (r1, dk1)" by (metis surj_pair)
  show ?case
  proof (rule os_Remove_cases [OF 1])
    fix e assume e: "r1 = Inl e" "same_files dk dk1"
    with 1 Suc.prems(3) have "removeAttempts n p dk1 = (r, dk')" by simp
    from Suc.IH [OF _ _ this] Suc.prems(1,2) e(2) show ?case by (auto simp: same_files_def)
  next
    fix s assume "r1 = Inr ()" "map_of (dk_files dk) p = Some s"
      "dk_files dk1 = AList.delete p (dk_files dk)"
    with 1 Suc.prems show ?case by auto
  qed
qed

section \<open>Listings\<close>

text \<open>The names of the dump files waiting in the dump directory.\<close>

definition pending_names :: "FileDumper \<Rightarrow> disk \<Rightarrow> string list" where
  "pending_names d dk = filter (\<lambda>n. path_Ext n = ''.dmp'') (names_in (fd_Path d) dk)"

lemma pending_names_cong: "same_files dk dk' \<Longrightarrow> pending_names d dk' = pending_names d dk"
  by (simp add: pending_names_def names_in_cong)

lemma set_names_in: "n \<in> set (names_in dir dk) \<Longrightarrow> path_Join [dir, n] \<in> fst ` set (dk_files dk)"
  by (auto simp: names_in_def image_iff)

lemma set_pending:
  "n \<in> set (pending_names d dk) \<Longrightarrow> path_Ext n = ''.dmp''"
  "n \<in> set (pending_names d dk) \<Longrightarrow> \<exists>c. map_of (dk_files dk) (path_Join [fd_Path d, n]) = Some c"
  using set_names_in [of n "fd_Path d" dk]
  by (auto simp: pending_names_def map_of_eq_None_iff dest!: weak_map_of_SomeI)

lemma checkDir_files: "checkDir d create dk = (r, dk') \<Longrightarrow> same_files dk dk'"
  by (auto simp: checkDir_def split: prod.splits sum.splits if_splits
      dest!: sys_files elim: same_files_trans)

lemma listPending_files: "listPendingDumpFiles d dk = (r, dk') \<Longrightarrow> same_files dk dk'"
proof -
  assume l: "listPendingDumpFiles d dk = (r, dk')"
  obtain c dk1 where c: "checkDir d False dk = (c, dk1)" by (metis surj_pair)
  obtain x dk2 where x: "os_ReadDir (fd_Path d) dk1 = (x, dk2)" by (metis surj_pair)
  have "dk' = dk1 \<or> dk' = dk2"
    using l c x by (cases c; cases x) (auto simp: listPendingDumpFiles_def split: if_splits)
  with checkDir_files [OF c] sys_files(5) [OF x] show ?thesis by (auto elim: same_files_trans)
qed

lemma listPending_Inr:
  assumes "listPendingDumpFiles d dk = (Inr files, dk')"
  shows "files = [] \<or> files = sort (pending_names d dk)"
proof -
  obtain c dk1 where c: "checkDir d False dk = (c, dk1)" by (metis surj_pair)
  obtain x dk2 where x: "os_ReadDir (fd_Path d) dk1 = (x, dk2)" by (metis surj_pair)
  have "files = [] \<or> (\<exists>ns. x = Inr ns \<and> files = sort (filter (\<lambda>n. path_Ext n = ''.dmp'') ns))"
    using assms c x by (cases c; cases x) (auto simp: listPendingDumpFiles_def split: if_splits)
  moreover have "sort (filter P (sort xs)) = sort (filter P xs)" for P and xs :: "string list"
    by (simp add: filter_sort sorted_sort_id)
  ultimately show ?thesis
    using x os_ReadDir_Inr [of "fd_Path d" dk1] checkDir_files [OF c]
    by (auto simp: pending_names_def names_in_cong)
qed

lemma GetDump_files: "GetDump d dk = (r, dk') \<Longrightarrow> same_files dk dk'"
proof -
  assume l: "GetDump d dk = (r, dk')"
  obtain c dk1 where c: "checkDir d False dk = (c, dk1)" by (metis surj_pair)
  obtain x dk2 where x: "listPendingDumpFiles d dk1 = (x, dk2)" by (metis surj_pair)
  have "dk' = dk1 \<or> dk' = dk2"
    using l c x by (cases c; cases x) (auto simp: GetDump_def split: list.splits)
  with checkDir_files [OF c] listPending_files [OF x] show ?thesis by (auto elim: same_files_trans)
qed

text \<open>\<open>GetDump\<close> picks the first name in the order of strings that is not locked.\<close>

lemma GetDump_Inr:
  assumes "GetDump d dk = (Inr f, dk')"
  shows "f \<in> set (pending_names d dk) \<and> \<not> is_locked d f
    \<and> (\<forall>g \<in> set (pending_names d dk). is_locked d g \<or> f \<le> g)"
proof -
  obtain c dk1 where c: "checkDir d False dk = (c, dk1)" by (metis surj_pair)
  obtain x dk2 where x: "listPendingDumpFiles d dk1 = (x, dk2)" by (metis surj_pair)
  obtain files fs where f: "x = Inr files" "filter (\<lambda>f. \<not> is_locked d f) files = f # fs"
    using assms c x by (cases c; cases x) (auto simp: GetDump_def split: list.splits)
  have "files = sort (pending_names d dk)"
    using listPending_Inr x f pending_names_cong [OF checkDir_files [OF c]] by fastforce
  then have "filter (\<lambda>f. \<not> is_locked d f) (sort (pending_names d dk)) = f # fs" using f(2) by simp
  then have s: "sort (filter (\<lambda>f. \<not> is_locked d f) (pending_names d dk)) = f # fs"
    by (simp add: filter_sort)
  then have "set (f # fs) = set (filter (\<lambda>f. \<not> is_locked d f) (pending_names d dk))"
    by (metis set_sort)
  moreover have "sorted (f # fs)" by (metis s sorted_sort)
  ultimately show ?thesis by (auto simp: set_eq_iff)
qed

lemma listFailed_files: "listFailedDumpFiles d dk = (r, dk') \<Longrightarrow> same_files dk dk'"
  by (auto simp: listFailedDumpFiles_def split: prod.splits sum.splits if_splits dest!: sys_files)

section \<open>Reading, moving and deleting\<close>

lemma GetDumpData_files: "GetDumpData d fid dk = (r, dk') \<Longrightarrow> same_files dk dk'"
proof -
  assume l: "GetDumpData d fid dk = (r, dk')"
  show ?thesis
  proof (cases "makePath d fid")
    case (Inl e)
    with l show ?thesis by (simp add: GetDumpData_def)
  next
    case (Inr p)
    obtain x dk1 where x: "os_ReadFile p dk = (x, dk1)" by (metis surj_pair)
    with l Inr x have "dk' = dk1" by (cases x) (auto simp: GetDumpData_def split: list.splits)
    with sys_files(4) [OF x] show ?thesis by simp
  qed
qed

lemma GetDumpData_Inr:
  assumes "GetDumpData d fid dk = (Inr (data, resp), dk')"
  shows "\<exists>p s. makePath d fid = Inr p \<and> map_of (dk_files dk) p = Some s
    \<and> data = hd (split_str dumpResponseMark s)"
proof (cases "makePath d fid")
  case (Inl e)
  with assms show ?thesis by (simp add: GetDumpData_def)
next
  case (Inr p)
  obtain x dk1 where x: "os_ReadFile p dk = (x, dk1)" by (metis surj_pair)
  with assms Inr obtain s where s: "x = Inr s" by (cases x) (auto simp: GetDumpData_def)
  with x have "map_of (dk_files dk) p = Some s" by (simp add: os_ReadFile_Inr)
  with assms Inr x s show ?thesis
    by (auto simp: GetDumpData_def split: list.splits)
qed

lemma moveToFailed_cases:
  assumes "moveToFailed d f dk = (r, dk')" "plain_name f" "\<not> contains f ''..''" "f \<noteq> failedDumpSubdir"
  obtains e where "r = Inl e" "same_files dk dk'"
    | c where "r = Inr ()" "map_of (dk_files dk) (path_Join [fd_Path d, f]) = Some c"
      "dk_files dk' = AList.update (path_Join [failedDir d, f]) c
         (AList.delete (path_Join [fd_Path d, f]) (dk_files dk))"
proof -
  obtain m dk1 where m: "os_MkdirAll (failedDir d) dk = (m, dk1)" by (metis surj_pair)
  have k: "same_files dk dk1" by (rule sys_files(3) [OF m])
  show ?thesis
  proof (cases m)
    case (Inl e)
    with assms m k that(1) show ?thesis by (auto simp: moveToFailed_def safeDumpRelPath_name)
  next
    case (Inr u)
    with assms m have "os_Rename (path_Join [fd_Path d, f]) (path_Join [failedDir d, f]) dk1 = (r, dk')"
      by (simp add: moveToFailed_def safeDumpRelPath_name makePath_name)
    then show ?thesis
      by (rule os_Rename_cases) (use k that in \<open>auto simp: same_files_def\<close>)
  qed
qed

lemma failedDir_join: "plain_name n \<Longrightarrow> path_Join [failedDir d, n] = path_Join [fd_Path d, failedDumpSubdir, n]"
proof -
  assume n: "plain_name n"
  have c: "clean_acc (rooted (fd_Path d)) (rev (path_parts (fd_Path d) @ [failedDumpSubdir]))"
    using clean_acc_plain [of "[failedDumpSubdir]"] path_parts_clean by simp
  have "failedDir d = render_path (rooted (fd_Path d)) (path_parts (fd_Path d) @ [failedDumpSubdir])"
    by (simp add: failedDir_def path_Join_dir)
  then have "path_parts (failedDir d) = path_parts (fd_Path d) @ [failedDumpSubdir]"
    "rooted (failedDir d) = rooted (fd_Path d)"
    using path_parts_render [OF c] rooted_render [OF c] by simp_all
  with n show ?thesis by (simp add: path_Join_dir path_Join_dir2)
qed

lemma finishDump_cases:
  assumes "finishDump f d dk = (r, d', dk')" "plain_name f" "\<not> contains f ''..''" "f \<noteq> failedDumpSubdir"
  obtains e where "r = Inl e" "same_files dk dk'"
      "\<And>L. fd_LockedFiles d = Some L \<Longrightarrow> d' = d\<lparr>fd_LockedFiles := Some (f # L)\<rparr>"
    | c where "r = Inr ()" "d' = d" "map_of (dk_files dk) (path_Join [fd_Path d, f]) = Some c"
      "dk_files dk' = AList.delete (path_Join [fd_Path d, f]) (dk_files dk)"
proof -
  obtain m dk1 where m: "removeAttempts 2 (path_Join [fd_Path d, f]) dk = (m, dk1)" by (metis surj_pair)
  with assms have m': "DeleteDump d f dk = (m, dk1)" by (simp add: DeleteDump_def makePath_name)
  show ?thesis
    by (rule removeAttempts_cases [OF m])
      (use assms m' that in \<open>auto simp: finishDump_def split: option.splits\<close>)
qed

lemma path_Base_slash: "path_Base s = [slash] \<or> slash \<notin> set (path_Base s)"
proof -
  let ?t = "rev (dropWhile (\<lambda>c. c = slash) (rev s))"
  have "slash \<notin> set (last (split_on slash ?t))"
    by (rule split_on_parts [of _ slash ?t]) simp
  moreover have "slash \<notin> set ''.''" by (simp add: slash_def)
  ultimately show ?thesis by (auto simp: path_Base_def Let_def)
qed

lemma pending_plain:
  assumes "n \<in> set (pending_names d dk)"
  shows "plain_name n" "n \<noteq> failedDumpSubdir"
proof -
  have e: "path_Ext n = ''.dmp''" using assms by (rule set_pending(1))
  then obtain u where u: "n = u @ ''.dmp''" using path_Ext_suffix by blast
  obtain p where "n = path_Base p" using assms by (auto simp: pending_names_def names_in_def)
  with path_Base_slash [of p] u have "slash \<notin> set n" by (auto simp: slash_def)
  with u show "plain_name n"
    by (auto simp: plain_name_def append_eq_Cons_conv)
  show "n \<noteq> failedDumpSubdir" using dump_name_not_failed [OF e] by simp
qed

lemma makePath_pending:
  assumes "n \<in> set (pending_names d dk)" "makePath d n = Inr p"
  shows "p = path_Join [fd_Path d, n]" "\<not> contains n ''..''"
proof -
  show c: "\<not> contains n ''..''" using assms(2) by (auto simp: makePath_def safeDumpRelPath_def)
  show "p = path_Join [fd_Path d, n]"
    using makePath_name [OF pending_plain(1) [OF assms(1)] c pending_plain(2) [OF assms(1)], of d] assms(2)
    by simp
qed

section \<open>One step of the replay\<close>

definition dump_payload :: "string \<Rightarrow> string" where
  "dump_payload c = hd (split_str dumpResponseMark c)"

text \<open>The payload reached ClickHouse, or there was nothing to send.\<close>

definition delivered :: "'s Sender \<Rightarrow> string \<Rightarrow> 's \<Rightarrow> 's \<Rightarrow> bool" where
  "delivered S data s s' =
     (data = [] \<and> s' = s \<or> (\<exists>st. sendDumpPayload S data s = Some ((st, None), s')))"

lemma ProcessNextDump_cases:
  assumes "ProcessNextDump S d dk s = Some (res, d', dk', s')"
  obtains (failed) e where "res = Inl e" "same_files dk dk'" "d' = d" "s' = s"
    | (server) f c st e where "res = Inl (ServerError st e)" "same_files dk dk'" "d' = d"
        "f \<in> set (pending_names d dk)" "\<not> is_locked d f" "map_of (dk_files dk) (path_Join [fd_Path d, f]) = Some c"
        "sendDumpPayload S (dump_payload c) s = Some ((st, Some e), s')"
    | (moved) f c where "res = Inr ()" "d' = d" "s' = s" "f \<in> set (pending_names d dk)" "\<not> is_locked d f"
        "isClientErrorDumpFile f" "map_of (dk_files dk) (path_Join [fd_Path d, f]) = Some c"
        "dk_files dk' = AList.update (path_Join [failedDir d, f]) c
           (AList.delete (path_Join [fd_Path d, f]) (dk_files dk))"
    | (sent) f c where "f \<in> set (pending_names d dk)" "\<not> isClientErrorDumpFile f" "\<not> is_locked d f"
        "map_of (dk_files dk) (path_Join [fd_Path d, f]) = Some c"
        "delivered S (dump_payload c) s s'"
        "res = Inr () \<and> d' = d \<and> dk_files dk' = AList.delete (path_Join [fd_Path d, f]) (dk_files dk)
         \<or> (\<exists>e. res = Inl e) \<and> same_files dk dk'
           \<and> (\<forall>L. fd_LockedFiles d = Some L \<longrightarrow> d' = d\<lparr>fd_LockedFiles := Some (f # L)\<rparr>)"
proof -
  obtain g dk1 where g: "GetDump d dk = (g, dk1)" by (metis surj_pair)
  have k1: "same_files dk dk1" by (rule GetDump_files [OF g])
  show ?thesis
  proof (cases g)
    case (Inl e)
    with assms g k1 failed show ?thesis by (auto simp: ProcessNextDump_def split: if_splits)
  next
    case (Inr f)
    note fp = GetDump_Inr [OF g [unfolded Inr]]
    have fpend: "f \<in> set (pending_names d dk)" "\<not> is_locked d f" "f \<noteq> []"
      using fp pending_plain [of f d dk] by (auto simp: plain_name_def)
    note fok = pending_plain [OF fpend(1)]
    show ?thesis
    proof (cases "isClientErrorDumpFile f")
      case True
      obtain m dk2 where m: "moveToFailed d f dk1 = (m, dk2)" by (metis surj_pair)
      have mres: "(\<exists>e. res = Inl e \<and> m = Inl (case e of MoveError e \<Rightarrow> e | _ \<Rightarrow> e)) \<or> res = m" "dk' = dk2" "d' = d" "s' = s"
        using assms g Inr True fpend(3) m by (cases m; auto simp: ProcessNextDump_def)+
      show ?thesis
      proof (cases "contains f ''..''")
        case True
        then have "m = Inl ErrInvalidDumpID" "dk2 = dk1"
          using m by (simp_all add: moveToFailed_def safeDumpRelPath_def)
        with mres k1 failed show ?thesis by auto
      next
        case False
        from m fok(1) False fok(2) show ?thesis
        proof (rule moveToFailed_cases)
          fix e assume "m = Inl e" "same_files dk1 dk2"
          with mres same_files_trans [OF k1 \<open>same_files dk1 dk2\<close>] failed show ?thesis by auto
        next
          fix c assume "m = Inr ()" "map_of (dk_files dk1) (path_Join [fd_Path d, f]) = Some c"
            "dk_files dk2 = AList.update (path_Join [failedDir d, f]) c
               (AList.delete (path_Join [fd_Path d, f]) (dk_files dk1))"
          with mres k1 True fpend moved show ?thesis by (auto simp: same_files_def)
        qed
      qed
    next
      case False
      obtain r dk2 where r: "GetDumpData d f dk1 = (r, dk2)" by (metis surj_pair)
      have k2: "same_files dk dk2" using same_files_trans [OF k1 GetDumpData_files [OF r]] .
      show ?thesis
      proof (cases r)
        case (Inl e)
        with assms g Inr False fpend(3) r k2 failed show ?thesis by (auto simp: ProcessNextDump_def)
      next
        case r': (Inr dr)
        obtain data resp where dr: "dr = (data, resp)" by (cases dr)
        with r r' obtain p c where p: "makePath d f = Inr p" "map_of (dk_files dk1) p = Some c"
          "data = dump_payload c" using GetDumpData_Inr unfolding dump_payload_def by blast
        note mk = makePath_pending [OF fpend(1) p(1)]
        have c: "map_of (dk_files dk) (path_Join [fd_Path d, f]) = Some c"
          using p k1 mk by (simp add: same_files_def)
        let ?send = "if data = [] then Some ((200, None), s) else sendDumpPayload S data s"
        have eq: "ProcessNextDump S d dk s = (case ?send of
                 None \<Rightarrow> None
               | Some ((status, Some err), s) \<Rightarrow> Some (Inl (ServerError status err), d, dk2, s)
               | Some ((status, None), s) \<Rightarrow>
                   (case finishDump f d dk2 of (res, d, dk) \<Rightarrow> Some (res, d, dk, s)))"
          using g Inr False fpend(3) r r' dr by (simp add: ProcessNextDump_def)
        obtain st eo s1 where sd: "?send = Some ((st, eo), s1)"
          using assms eq by (cases ?send) auto
        show ?thesis
        proof (cases eo)
          case (Some e)
          with sd have "sendDumpPayload S data s = Some ((st, Some e), s1)" by (auto split: if_splits)
          with Some sd eq assms k2 fpend(1,2) c p(3) server show ?thesis by (auto split: if_splits)
        next
          case None
          obtain fr d2 dk3 where f: "finishDump f d dk2 = (fr, d2, dk3)" by (metis surj_pair)
          have res: "res = fr" "d' = d2" "dk' = dk3" "s' = s1"
            using None sd eq assms f by auto
          have del: "delivered S (dump_payload c) s s'"
            using sd None p(3) res by (auto simp: delivered_def split: if_splits)
          have fc: "\<not> contains f ''..''" by (rule mk(2))
          from f fok(1) fc fok(2) show ?thesis
          proof (rule finishDump_cases)
            fix e assume a: "fr = Inl e" "same_files dk2 dk3"
              "\<And>L. fd_LockedFiles d = Some L \<Longrightarrow> d2 = d\<lparr>fd_LockedFiles := Some (f # L)\<rparr>"
            show ?thesis
              by (rule sent [OF fpend(1) False fpend(2) c del])
                (use a res same_files_trans [OF k2 a(2)] in auto)
          next
            fix c' assume a: "fr = Inr ()" "d2 = d"
              "dk_files dk3 = AList.delete (path_Join [fd_Path d, f]) (dk_files dk2)"
            show ?thesis
              by (rule sent [OF fpend(1) False fpend(2) c del])
                (use a res k2 in \<open>auto simp: same_files_def\<close>)
          qed
        qed
      qed
    qed
  qed
qed

section \<open>The replay of a tick ends\<close>

lemma names_in_delete:
  "names_in dir (dk\<lparr>dk_files := AList.delete p (dk_files dk)\<rparr>) =
   map path_Base (filter (\<lambda>q. q \<noteq> p \<and> path_Join [dir, path_Base q] = q) (map fst (dk_files dk)))"
proof -
  have "map fst (AList.delete p xs) = filter (\<lambda>q. q \<noteq> p) (map fst xs)" for xs :: "(string \<times> string) list"
    by (induction xs) auto
  then show ?thesis by (simp add: names_in_def conj_commute)
qed

lemma names_in_files: "dk_files dk = dk_files dk' \<Longrightarrow> names_in dir dk = names_in dir dk'"
  by (simp add: names_in_def)

lemma pending_delete_less:
  assumes "f \<in> set (pending_names d dk)"
    and "dk_files dk' = AList.delete (path_Join [fd_Path d, f]) (dk_files dk)"
  shows "length (pending_names d dk') < length (pending_names d dk)"
proof -
  let ?p = "path_Join [fd_Path d, f]"
  let ?P = "\<lambda>q. path_Join [fd_Path d, path_Base q] = q \<and> path_Ext (path_Base q) = ''.dmp''"
  have l: "length (pending_names d dk) = length (filter ?P (map fst (dk_files dk)))"
    by (simp add: pending_names_def names_in_def filter_map comp_def conj_commute)
  have "names_in (fd_Path d) dk' = names_in (fd_Path d) (dk\<lparr>dk_files := AList.delete ?p (dk_files dk)\<rparr>)"
    using assms(2) by (intro names_in_files) simp
  then have l': "length (pending_names d dk') = length (filter (\<lambda>q. q \<noteq> ?p) (filter ?P (map fst (dk_files dk))))"
    by (simp add: pending_names_def names_in_delete filter_map comp_def conj_ac)
  have "?p \<in> set (filter ?P (map fst (dk_files dk)))"
    using assms(1) set_names_in [of f "fd_Path d" dk] pending_plain(1) [OF assms(1)]
    by (auto simp: pending_names_def)
  then show ?thesis unfolding l l' by (rule length_filter_less) simp
qed

lemma pending_update_other:
  assumes "path_Join [fd_Path d, path_Base q] \<noteq> q"
  shows "pending_names d (dk\<lparr>dk_files := AList.update q c (dk_files dk)\<rparr>) = pending_names d dk"
  using assms by (simp add: pending_names_def names_in_def update_keys)

lemma ProcessNextDump_decreases:
  assumes "ProcessNextDump S d dk s = Some (Inr (), d', dk', s')"
  shows "d' = d" "length (pending_names d dk') < length (pending_names d dk)"
proof -
  have "d' = d \<and> length (pending_names d dk') < length (pending_names d dk)"
    using assms
  proof (cases rule: ProcessNextDump_cases)
    case (moved f c)
    let ?q = "path_Join [failedDir d, f]"
    let ?dk = "dk\<lparr>dk_files := AList.delete (path_Join [fd_Path d, f]) (dk_files dk)\<rparr>"
    have "path_Base ?q = f" "path_Join [fd_Path d, f] \<noteq> ?q"
      using pending_plain(1) [OF moved(4)] failed_not_in_dir [of f f "fd_Path d"]
      by (simp_all add: failedDir_join del: failed_not_in_dir)
    then have "pending_names d (?dk\<lparr>dk_files := AList.update ?q c (dk_files ?dk)\<rparr>) = pending_names d ?dk"
      by (intro pending_update_other) simp
    moreover have "pending_names d dk' = pending_names d (?dk\<lparr>dk_files := AList.update ?q c (dk_files ?dk)\<rparr>)"
      using moved(8) by (intro pending_names_cong) (simp add: same_files_def)
    ultimately show ?thesis using pending_delete_less [OF moved(4), of ?dk] moved(2) by simp
  qed (auto intro: pending_delete_less)
  then show "d' = d" "length (pending_names d dk') < length (pending_names d dk)" by simp_all
qed

lemma ProcessNextDump_returns:
  assumes "\<And>r s. s_SendQuery S r s \<noteq> None"
  shows "ProcessNextDump S d dk s \<noteq> None"
proof -
  have snd: "sendDumpPayload S data s \<noteq> None" for data
    unfolding sendDumpPayload_def Let_def using assms [of "dump_request data" s] by auto
  show ?thesis
    unfolding ProcessNextDump_def
    by (auto split: prod.splits sum.splits option.splits if_splits simp: snd)
qed

lemma listenTick_returns:
  assumes "\<And>r s. s_SendQuery S r s \<noteq> None"
  shows "listenTick S b n d dk s \<noteq> None"
proof (induction "length (pending_names d dk)" arbitrary: n d dk s rule: less_induct)
  case less
  obtain res d' dk' s' where p: "ProcessNextDump S d dk s = Some (res, d', dk', s')"
    using ProcessNextDump_returns [OF assms, of d dk s] by (metis not_None_eq prod_cases3)
  show ?case
  proof (cases res)
    case (Inl e)
    with p show ?thesis by (subst listenTick.simps) simp
  next
    case (Inr u)
    with ProcessNextDump_decreases [of S d dk s d' dk' s'] p
    have "listenTick S b (n + 1) d' dk' s' \<noteq> None" by (intro less) simp
    with p Inr show ?thesis by (subst listenTick.simps) simp
  qed
qed

lemma listenTick_stop:
  "listenTick S b n d dk s = Some (e, d', dk', s') \<Longrightarrow> b \<le> 0 \<longrightarrow> e \<noteq> None"
proof (induction "length (pending_names d dk)" arbitrary: n d dk s rule: less_induct)
  case less
  show ?case
  proof (cases "0 < b \<and> b \<le> n")
    case False
    with less.prems obtain res d1 dk1 s1 where p: "ProcessNextDump S d dk s = Some (res, d1, dk1, s1)"
      by (subst (asm) listenTick.simps) (auto split: option.splits)
    show ?thesis
    proof (cases res)
      case (Inl e)
      with less.prems p False show ?thesis by (subst (asm) listenTick.simps) auto
    next
      case (Inr u)
      have l: "listenTick S b (n + 1) d1 dk1 s1 = Some (e, d', dk', s')"
        using less.prems p False Inr by (subst (asm) listenTick.simps) auto
      show ?thesis
        using ProcessNextDump_decreases [of S d dk s d1 dk1 s1] p Inr by (intro less.hyps [OF _ l]) simp
    qed
  qed auto
qed

section \<open>Names of dumps\<close>

lemma itoa_digits: "0 \<le> i \<Longrightarrow> list_all is_digit_char (itoa i) \<and> itoa i \<noteq> []"
  by (auto simp: itoa_def list_all_iff dest: nat_digits_digits)

lemma takeWhile_digits:
  assumes "list_all P ds" "\<not> P c"
  shows "takeWhile P (ds @ c # r) = ds" "dropWhile P (ds @ c # r) = c # r"
  using assms by (induction ds) auto

lemma digits_no_special:
  "list_all is_digit_char ds \<Longrightarrow> c \<in> set ds \<Longrightarrow> c \<noteq> CHR ''.'' \<and> c \<noteq> slash"
  by (auto simp: list_all_iff is_digit_char_def slash_def)

lemma isClientError_dumpName:
  assumes "list_all is_digit_char (fd_DumpPrefix d)" "length (fd_DumpPrefix d) = 14"
    and "0 \<le> num" "0 \<le> status"
  shows "isClientErrorDumpFile (dumpName d num [k] status) \<longleftrightarrow> k = CHR ''2''"
proof -
  have nd: "\<not> is_digit_char (CHR ''-'')" "\<not> is_digit_char (CHR ''.'')"
    by (simp_all add: is_digit_char_def)
  show ?thesis
    using assms itoa_digits [OF assms(3)] itoa_digits [OF assms(4)]
    by (simp add: isClientErrorDumpFile_def dumpName_def Let_def starts_with_def dumpKindClientError_def
        takeWhile_digits nd)
qed

lemma count_list_zero: "c \<notin> set s \<Longrightarrow> count_list s c = 0"
  by (induction s) auto

lemma dumpName_ok:
  assumes "list_all is_digit_char (fd_DumpPrefix d)" "is_digit_char k"
    and "0 \<le> num" "0 \<le> status"
  shows "dump_file_name (dumpName d num [k] status)"
proof -
  let ?u = "''dump'' @ fd_DumpPrefix d @ [k] @ ''-'' @ itoa num @ ''-'' @ itoa status"
  have n: "dumpName d num [k] status = ?u @ ''.dmp''" by (simp add: dumpName_def)
  have "list_all is_digit_char [k]" using assms(2) by simp
  note dg = digits_no_special [OF this] digits_no_special [OF assms(1)]
    digits_no_special [OF conjunct1 [OF itoa_digits [OF assms(3)]]]
    digits_no_special [OF conjunct1 [OF itoa_digits [OF assms(4)]]]
  have u: "CHR ''.'' \<notin> set ?u" "slash \<notin> set ?u"
    using dg by (auto simp: slash_def) 
  have "\<not> contains (?u @ ''.dmp'') ''..''"
    using contains_skip [OF u(1), of "''.dmp''" "''.''"] by (simp add: contains_def)
  moreover have "plain_name (?u @ ''.dmp'')" using u(2) by (auto simp: plain_name_def slash_def)
  ultimately show ?thesis unfolding dump_file_name_def n by (simp only: path_Ext_dmp simp_thms)
qed

section \<open>Contents of dumps\<close>

lemma index_of_first:
  "\<not> contains (p @ butlast m) m \<Longrightarrow> m \<noteq> [] \<Longrightarrow> index_of m (p @ m @ r) = Some (length p)"
proof (induction p)
  case Nil
  have "take (length m) (m @ r) = m" by simp
  then show ?case using Nil.prems(2) by (cases "m @ r") (auto simp del: take_append)
next
  case (Cons x p)
  have "\<not> contains (p @ butlast m) m"
    using Cons.prems(1) by (auto simp: contains_iff) (metis append_Cons)
  moreover have "take (length m) (x # p @ m @ r) \<noteq> m"
  proof
    assume a: "take (length m) (x # p @ m @ r) = m"
    have "x # p @ m @ r = (x # p @ butlast m) @ last m # r" using Cons.prems(2) by simp
    moreover have "length m \<le> length (x # p @ butlast m)" by simp
    ultimately have "take (length m) (x # p @ butlast m) = m" using a by (metis take_append append_Nil2 diff_is_0_eq take_0)
    then have "contains (x # p @ butlast m) m"
      unfolding contains_iff by (metis append_Nil append_take_drop_id)
    with Cons.prems(1) show False by simp
  qed
  ultimately show ?case using Cons by simp
qed

lemma split_str_mark:
  "\<not> contains (p @ butlast m) m \<Longrightarrow> m \<noteq> [] \<Longrightarrow> split_str m (p @ m @ r) = p # split_str m r"
  by (subst split_str.simps) (simp add: index_of_first)

lemma not_contains_prefix: "\<not> contains (p @ q) m \<Longrightarrow> \<not> contains p m"
  by (auto simp: contains_iff) (metis append.assoc)

lemma dump_payload_data:
  assumes "\<not> contains (params @ NL # content @ butlast dumpResponseMark) dumpResponseMark"
  shows "dump_payload (dump_data params content response) = params @ NL # content"
proof (cases "response = []")
  case True
  have "\<not> contains (params @ NL # content) dumpResponseMark"
    using not_contains_prefix [of "params @ NL # content" "butlast dumpResponseMark"] assms by simp
  with True show ?thesis by (simp add: dump_payload_def dump_data_def split_str_absent)
next
  case False
  have "split_str dumpResponseMark ((params @ NL # content) @ dumpResponseMark @ response)
      = (params @ NL # content) # split_str dumpResponseMark response"
    by (rule split_str_mark) (use assms in \<open>simp_all add: dumpResponseMark_def\<close>)
  with False show ?thesis by (simp add: dump_payload_def dump_data_def)
qed

lemma dump_request_params:
  assumes "NL \<notin> set params"
  shows "dump_request (params @ NL # content) =
    (if HasPrefix params ''insert''
     then \<lparr>req_Params = [], req_Query = params, req_Content = content, req_ContentType = [],
           req_Count = int (length (split_on NL content)), req_JournalIDs = [],
           req_isInsert = True, req_opaque = False\<rparr>
     else \<lparr>req_Params = params, req_Query = hd (split_on NL content), req_Content = content,
           req_ContentType = [], req_Count = int (length (split_on NL content)) - 1,
           req_JournalIDs = [], req_isInsert = True, req_opaque = False\<rparr>)"
proof -
  obtain q qs where q: "split_on NL content = q # qs" by (cases "split_on NL content") auto
  have "join [NL] (q # qs) = content" using q join_split_on [of NL content] by simp
  with assms q show ?thesis
    by (simp add: dump_request_def parseDumpPayload_def split_on_append)
qed

section \<open>Writing a dump\<close>

definition dump_path :: "FileDumper \<Rightarrow> string \<Rightarrow> int \<Rightarrow> string" where
  "dump_path d kind status = path_Join [fd_Path d, dumpName d (fd_DumpNum d + 1) kind status]"

lemma os_WriteFile_Inr:
  "os_WriteFile p c dk = (Inr u, dk') \<Longrightarrow> dk_files dk' = AList.update p c (dk_files dk)"
  by (auto simp: os_WriteFile_def same_files_def dest!: dsys_files split: prod.splits dfault.splits)

lemma Dump_unpruned:
  assumes "Dump params content response kind status d dk = (Inr (), d', dk')" "fd_MaxDumpFiles d \<le> 0"
  shows "dk_files dk' = AList.update (dump_path d kind status) (dump_data params content response) (dk_files dk)"
proof -
  obtain c dk1 where c: "checkDir d True dk = (c, dk1)" by (metis surj_pair)
  obtain w dk2 where w: "os_WriteFile (dump_path d kind status) (dump_data params content response) dk1 = (w, dk2)"
    by (metis surj_pair)
  have "w = Inr () \<and> dk' = dk2"
    using assms c w by (cases c; cases w)
      (auto simp: Dump_def dump_path_def dumpName_def pruneOldestIfNeeded_def)
  with os_WriteFile_Inr [of _ _ dk1 "()" dk2] w checkDir_files [OF c] show ?thesis
    by (simp add: same_files_def)
qed

definition quiet_disk :: "disk \<Rightarrow> bool" where
  "quiet_disk dk = (dk_faults dk = [])"

lemma dsys_quiet: "quiet_disk dk \<Longrightarrow> dsys dk = (DOk, dk)"
  by (simp add: dsys_def quiet_disk_def)

lemma quiet_disk_files [simp]: "quiet_disk (dk\<lparr>dk_files := fs\<rparr>) = quiet_disk dk"
  by (simp add: quiet_disk_def)

lemma is_dir_files [simp]: "is_dir p (dk\<lparr>dk_files := fs\<rparr>) = is_dir p dk"
  by (simp add: is_dir_def)

lemma checkDir_quiet: "quiet_disk dk \<Longrightarrow> is_dir (fd_Path d) dk \<Longrightarrow> checkDir d b dk = (Inr (), dk)"
  by (simp add: checkDir_def os_Stat_def dsys_quiet)

lemma listPending_quiet:
  "quiet_disk dk \<Longrightarrow> is_dir (fd_Path d) dk \<Longrightarrow>
   listPendingDumpFiles d dk = (Inr (sort (pending_names d dk)), dk)"
  by (simp add: listPendingDumpFiles_def checkDir_quiet os_ReadDir_def dsys_quiet pending_names_def
      filter_sort sorted_sort_id)

lemma os_Remove_quiet:
  "quiet_disk dk \<Longrightarrow> p \<in> fst ` set (dk_files dk) \<Longrightarrow>
   os_Remove p dk = (Inr (), dk\<lparr>dk_files := AList.delete p (dk_files dk)\<rparr>)"
  by (auto simp: os_Remove_def dsys_quiet map_of_eq_None_iff split: option.splits)

lemma names_in_filter:
  "names_in dir (dk\<lparr>dk_files := filter (\<lambda>e. Q (fst e)) (dk_files dk)\<rparr>) =
   map path_Base (filter (\<lambda>q. Q q \<and> path_Join [dir, path_Base q] = q) (map fst (dk_files dk)))"
  by (simp add: names_in_def filter_map comp_def conj_commute)

lemma pending_names_remove:
  assumes "\<forall>n \<in> set ns. plain_name n"
  shows "pending_names d (dk\<lparr>dk_files := filter (\<lambda>e. fst e \<notin> (\<lambda>n. path_Join [fd_Path d, n]) ` set ns) (dk_files dk)\<rparr>)
    = filter (\<lambda>n. n \<notin> set ns) (pending_names d dk)"
proof -
  have "(q \<notin> (\<lambda>n. path_Join [fd_Path d, n]) ` set ns \<and> path_Join [fd_Path d, path_Base q] = q)
      = (path_Base q \<notin> set ns \<and> path_Join [fd_Path d, path_Base q] = q)" for q
    using assms path_Base_Join by (metis (no_types, lifting) image_iff)
  then show ?thesis
    unfolding pending_names_def names_in_filter
    by (simp add: names_in_def filter_map comp_def conj_ac)
qed

lemma delete_filter: "AList.delete k xs = filter (\<lambda>e. fst e \<noteq> k) xs"
  by (induction xs) auto

lemma pruneLoop_quiet:
  assumes "quiet_disk dk" "0 < fd_MaxDumpFiles d" "distinct files"
    and "\<And>n. n \<in> set files \<Longrightarrow> plain_name n \<and> \<not> contains n ''..'' \<and> n \<noteq> failedDumpSubdir
      \<and> path_Join [fd_Path d, n] \<in> fst ` set (dk_files dk)"
  shows "pruneLoop d files dk = dk\<lparr>dk_files := filter (\<lambda>e. fst e \<notin> (\<lambda>n. path_Join [fd_Path d, n]) `
    set (take (length files - nat (fd_MaxDumpFiles d)) files)) (dk_files dk)\<rparr>"
  using assms
proof (induction files arbitrary: dk)
  case Nil
  then show ?case by simp
next
  case (Cons f files)
  let ?m = "nat (fd_MaxDumpFiles d)" and ?p = "path_Join [fd_Path d, f]"
  show ?case
  proof (cases "fd_MaxDumpFiles d < int (length (f # files))")
    case False
    then have "length (f # files) - ?m = 0" by simp
    with False show ?thesis by simp
  next
    case True
    let ?dk = "dk\<lparr>dk_files := AList.delete ?p (dk_files dk)\<rparr>"
    have f: "makePath d f = Inr ?p" "?p \<in> fst ` set (dk_files dk)"
      using Cons.prems(4) [of f] makePath_name by auto
    have ih: "pruneLoop d files ?dk = ?dk\<lparr>dk_files := filter (\<lambda>e. fst e \<notin> (\<lambda>n. path_Join [fd_Path d, n]) `
        set (take (length files - ?m) files)) (dk_files ?dk)\<rparr>"
    proof (rule Cons.IH)
      fix n assume n: "n \<in> set files"
      then have "?p \<noteq> path_Join [fd_Path d, n]" using Cons.prems(3) Cons.prems(4) by auto
      with n Cons.prems(4) [of n]
      show "plain_name n \<and> \<not> contains n ''..'' \<and> n \<noteq> failedDumpSubdir
          \<and> path_Join [fd_Path d, n] \<in> fst ` set (dk_files ?dk)"
        by (auto simp: delete_filter image_iff)
    qed (use Cons.prems in auto)
    have "length (f # files) - ?m = Suc (length files - ?m)" using True Cons.prems(2) by auto
    then have "take (length (f # files) - ?m) (f # files) = f # take (length files - ?m) files" by simp
    with True f ih Cons.prems(1) show ?thesis
      by (simp add: os_Remove_quiet delete_filter conj_commute)
  qed
qed

lemma distinct_pending: "distinct (map fst (dk_files dk)) \<Longrightarrow> distinct (pending_names d dk)"
proof -
  assume "distinct (map fst (dk_files dk))"
  then have "distinct (filter (\<lambda>p. path_Join [fd_Path d, path_Base p] = p) (map fst (dk_files dk)))"
    by simp
  moreover have "inj_on path_Base (set (filter (\<lambda>p. path_Join [fd_Path d, path_Base p] = p) (map fst (dk_files dk))))"
  proof (rule inj_onI)
    fix x y
    assume "x \<in> set (filter (\<lambda>p. path_Join [fd_Path d, path_Base p] = p) (map fst (dk_files dk)))"
      and "y \<in> set (filter (\<lambda>p. path_Join [fd_Path d, path_Base p] = p) (map fst (dk_files dk)))"
      and "path_Base x = path_Base y"
    then show "x = y" unfolding set_filter mem_Collect_eq by metis
  qed
  ultimately show ?thesis by (simp add: pending_names_def names_in_def distinct_map)
qed

lemma filter_not_take:
  assumes "distinct xs"
  shows "filter (\<lambda>n. n \<notin> set (take k xs)) xs = drop k xs"
proof -
  have "set (take k xs) \<inter> set (drop k xs) = {}"
    using assms by (metis append_take_drop_id distinct_append)
  then have "filter (\<lambda>n. n \<notin> set (take k xs)) (take k xs @ drop k xs) = drop k xs"
    by (subst filter_append) (auto intro!: filter_True filter_False)
  then show ?thesis by (simp only: append_take_drop_id)
qed

lemma prune_quiet:
  assumes "quiet_disk dk" "is_dir (fd_Path d) dk" "0 < fd_MaxDumpFiles d" "distinct (map fst (dk_files dk))"
    and "\<forall>n \<in> set (pending_names d dk). \<not> contains n ''..''"
  shows "sort (pending_names d (pruneOldestIfNeeded d dk)) =
    drop (length (pending_names d dk) - nat (fd_MaxDumpFiles d)) (sort (pending_names d dk))"
proof -
  let ?fs = "sort (pending_names d dk)" and ?k = "length (pending_names d dk) - nat (fd_MaxDumpFiles d)"
  have ds: "distinct ?fs" using distinct_pending [OF assms(4)] by simp
  have ok: "plain_name n \<and> \<not> contains n ''..'' \<and> n \<noteq> failedDumpSubdir
      \<and> path_Join [fd_Path d, n] \<in> fst ` set (dk_files dk)" if "n \<in> set ?fs" for n
    using that assms(5) pending_plain [of n d dk] set_names_in [of n "fd_Path d" dk]
    by (auto simp: pending_names_def)
  have "pruneOldestIfNeeded d dk = pruneLoop d ?fs dk"
    using assms(3) by (simp add: pruneOldestIfNeeded_def listPending_quiet [OF assms(1,2)])
  also have "\<dots> = dk\<lparr>dk_files := filter (\<lambda>e. fst e \<notin> (\<lambda>n. path_Join [fd_Path d, n]) `
      set (take ?k ?fs)) (dk_files dk)\<rparr>"
    using pruneLoop_quiet [OF assms(1,3) ds ok] by simp
  finally have eq: "pruneOldestIfNeeded d dk = \<dots>" .
  have "pending_names d (pruneOldestIfNeeded d dk) = filter (\<lambda>n. n \<notin> set (take ?k ?fs)) (pending_names d dk)"
    unfolding eq by (rule pending_names_remove) (use ok in \<open>auto dest!: in_set_takeD\<close>)
  then have "sort (pending_names d (pruneOldestIfNeeded d dk)) = filter (\<lambda>n. n \<notin> set (take ?k ?fs)) ?fs"
    by (simp only: filter_sort)
  then show ?thesis using filter_not_take [OF ds] by simp
qed

section \<open>Replay of the refused dumps\<close>

lemma failed_name_plain:
  assumes "n \<in> set (names_in dir dk)" "path_Ext n = ''.dmp''"
  shows "plain_name n"
proof -
  obtain q where q: "n = path_Base q" using assms(1) by (auto simp: names_in_def)
  obtain u where u: "n = u @ ''.dmp''" using path_Ext_suffix [OF assms(2)] by blast
  with path_Base_slash [of q] q have "slash \<notin> set n" by (auto simp: slash_def)
  with u show ?thesis by (auto simp: plain_name_def append_eq_Cons_conv)
qed

lemma failed_names_path:
  assumes "plain_name n" "makePath d (path_Join [failedDumpSubdir, n]) = Inr p"
  shows "p = path_Join [failedDir d, n]"
proof -
  have "\<not> contains (failedDumpSubdir @ slash # n) ''..''"
    using assms by (auto simp: makePath_def safeDumpRelPath_def path_Join_failed)
  then have "\<not> contains n ''..''"
    by (auto simp: contains_iff) (metis append.assoc append_Cons)
  with makePath_failed [OF assms(1) this, of d] assms show ?thesis by (simp add: failedDir_join)
qed

lemma listFailed_Inr:
  assumes "listFailedDumpFiles d dk = (Inr files, dk')"
  shows "files = [] \<or> files = sort (filter (\<lambda>n. path_Ext n = ''.dmp'') (names_in (failedDir d) dk))"
proof -
  obtain r dk1 where r: "os_ReadDir (failedDir d) dk = (r, dk1)" by (metis surj_pair)
  with assms os_ReadDir_Inr [of "failedDir d" dk _ dk1] show ?thesis
    by (cases r) (auto simp: listFailedDumpFiles_def filter_sort sorted_sort_id split: if_splits)
qed

lemma replayFailedFile_effect:
  assumes "replayFailedFile S d n rep dk s = Some (rep', dk', s')"
    and "plain_name n"
  shows "length (rep_Items rep') = Suc (length (rep_Items rep))
    \<and> rep_Sent rep' + rep_Errors rep' = rep_Sent rep + rep_Errors rep + 1
    \<and> (dk_files dk' = dk_files dk \<or>
       (\<exists>c. map_of (dk_files dk) (path_Join [failedDir d, n]) = Some c \<and> delivered S (dump_payload c) s s'
          \<and> dk_files dk' = AList.delete (path_Join [failedDir d, n]) (dk_files dk)))"
proof -
  let ?rel = "path_Join [failedDumpSubdir, n]"
  obtain g dk1 where g: "GetDumpData d ?rel dk = (g, dk1)" by (metis surj_pair)
  have k1: "dk_files dk1 = dk_files dk" using GetDumpData_files [OF g] by (simp add: same_files_def)
  show ?thesis
  proof (cases g)
    case (Inl e)
    with assms g k1 show ?thesis by (auto simp: replayFailedFile_def replay_error_def)
  next
    case (Inr dr)
    obtain data resp where dr: "dr = (data, resp)" by (cases dr)
    with g Inr obtain p c where p: "makePath d ?rel = Inr p" "map_of (dk_files dk) p = Some c" "data = dump_payload c"
      using GetDumpData_Inr unfolding dump_payload_def by blast
    have pn: "p = path_Join [failedDir d, n]" by (rule failed_names_path [OF assms(2) p(1)])
    obtain st eo s1 where sd: "sendDumpPayload S data s = Some ((st, eo), s1)"
      using assms(1) g Inr dr by (cases "sendDumpPayload S data s") (auto simp: replayFailedFile_def)
    show ?thesis
    proof (cases eo)
      case (Some e)
      with assms g Inr dr sd k1 show ?thesis by (auto simp: replayFailedFile_def replay_error_def)
    next
      case None
      then have del: "delivered S (dump_payload c) s s1" using sd p(3) by (auto simp: delivered_def)
      obtain r dk2 where r: "os_Remove p dk1 = (r, dk2)" by (metis surj_pair)
      from r show ?thesis
        by (rule os_Remove_cases)
          (use assms g Inr dr sd None p del r k1 pn in
            \<open>auto simp: replayFailedFile_def replay_error_def same_files_def\<close>)
    qed
  qed
qed

lemma replayFailedLoop_effect:
  assumes "replayFailedLoop S d limit processed ns rep dk s = Some (rep', dk', s')" "list_all plain_name ns"
    and "rep_Sent rep + rep_Errors rep = int (length (rep_Items rep))"
    and "int (length (rep_Items rep)) = processed" "0 < limit \<Longrightarrow> processed \<le> limit"
  shows "rep_Sent rep' + rep_Errors rep' = int (length (rep_Items rep'))
    \<and> (0 < limit \<longrightarrow> int (length (rep_Items rep')) \<le> limit)
    \<and> (\<forall>p c. map_of (dk_files dk) p = Some c \<longrightarrow> map_of (dk_files dk') p = Some c \<or>
         (\<exists>n s1 s2. p = path_Join [failedDir d, n] \<and> delivered S (dump_payload c) s1 s2))"
  using assms
proof (induction ns arbitrary: processed rep dk s)
  case Nil
  then show ?case by simp
next
  case (Cons n ns)
  show ?case
  proof (cases "0 < limit \<and> limit \<le> processed")
    case True
    with Cons.prems show ?thesis by auto
  next
    case False
    with Cons.prems(1) obtain rep1 dk1 s1 where f: "replayFailedFile S d n rep dk s = Some (rep1, dk1, s1)"
      and l: "replayFailedLoop S d limit (processed + 1) ns rep1 dk1 s1 = Some (rep', dk', s')"
      by (auto split: option.splits)
    have n: "plain_name n" using Cons.prems(2) by simp
    note e = replayFailedFile_effect [OF f n]
    have "rep_Sent rep' + rep_Errors rep' = int (length (rep_Items rep'))
      \<and> (0 < limit \<longrightarrow> int (length (rep_Items rep')) \<le> limit)
      \<and> (\<forall>p c. map_of (dk_files dk1) p = Some c \<longrightarrow> map_of (dk_files dk') p = Some c \<or>
           (\<exists>n s1 s2. p = path_Join [failedDir d, n] \<and> delivered S (dump_payload c) s1 s2))"
      by (rule Cons.IH [OF l]) (use Cons.prems e False in auto)
    moreover have "map_of (dk_files dk1) p = Some c \<or>
        (\<exists>n s1 s2. p = path_Join [failedDir d, n] \<and> delivered S (dump_payload c) s1 s2)"
      if "map_of (dk_files dk) p = Some c" for p c
    proof (cases "p = path_Join [failedDir d, n]")
      case True
      with e that show ?thesis by auto
    next
      case False
      with e that show ?thesis by (auto simp: delete_conv')
    qed
    ultimately show ?thesis by blast
  qed
qed

text \<open>What every file keeps, the loop keeps, and so does the whole replay.\<close>

lemma replayFailedLoop_invariant:
  assumes "replayFailedLoop S d limit processed ns rep dk s = Some (rep', dk', s')" "list_all plain_name ns" "I (dk_files dk) s"
    and "\<And>n rep dk s rep' dk' s'. replayFailedFile S d n rep dk s = Some (rep', dk', s') \<Longrightarrow> plain_name n \<Longrightarrow>
      I (dk_files dk) s \<Longrightarrow> I (dk_files dk') s'"
  shows "I (dk_files dk') s'"
  using assms(1-3)
proof (induction ns arbitrary: processed rep dk s)
  case Nil
  then show ?case by simp
next
  case (Cons n ns)
  show ?case
  proof (cases "0 < limit \<and> limit \<le> processed")
    case False
    with Cons.prems(1) obtain rep1 dk1 s1 where f: "replayFailedFile S d n rep dk s = Some (rep1, dk1, s1)"
      and l: "replayFailedLoop S d limit (processed + 1) ns rep1 dk1 s1 = Some (rep', dk', s')"
      by (auto split: option.splits)
    from assms(4) [OF f] Cons.IH [OF l] Cons.prems(2,3) show ?thesis by simp
  qed (use Cons.prems in auto)
qed

lemma ReplayFailed_loop:
  assumes "ReplayFailed S limit d dk s = Some (rep, dk', s')"
  obtains (unread) e where "dk_files dk' = dk_files dk" "s' = s" "rep = replay_error [] 0 e \<lparr>rep_Sent = 0, rep_Errors = 0, rep_Remaining = 0, rep_Items = []\<rparr>"
    | (read) files dk1 rep1 dk2 where "dk_files dk1 = dk_files dk" "list_all plain_name files"
      "replayFailedLoop S d limit 0 files \<lparr>rep_Sent = 0, rep_Errors = 0, rep_Remaining = 0, rep_Items = []\<rparr> dk1 s = Some (rep1, dk2, s')"
      "rep_Sent rep = rep_Sent rep1" "rep_Errors rep = rep_Errors rep1" "rep_Items rep = rep_Items rep1"
      "dk_files dk' = dk_files dk2"
proof -
  let ?rep = "\<lparr>rep_Sent = 0, rep_Errors = 0, rep_Remaining = 0, rep_Items = []\<rparr>"
  obtain l dk1 where l: "listFailedDumpFiles d dk = (l, dk1)" by (metis surj_pair)
  have k: "dk_files dk1 = dk_files dk" using listFailed_files [OF l] by (simp add: same_files_def)
  show ?thesis
  proof (cases l)
    case (Inl err)
    with assms l k that(1) [of err] show ?thesis by (simp add: ReplayFailed_def)
  next
    case (Inr files)
    have fs: "list_all plain_name files"
      using listFailed_Inr [OF l [unfolded Inr]] failed_name_plain by (auto simp: list_all_iff)
    obtain rep1 dk2 s1 where lp: "replayFailedLoop S d limit 0 files ?rep dk1 s = Some (rep1, dk2, s1)"
      using assms l Inr by (auto simp: ReplayFailed_def split: option.splits)
    obtain r dk3 where r: "listFailedDumpFiles d dk2 = (r, dk3)" by (metis surj_pair)
    have "rep_Sent rep = rep_Sent rep1" "rep_Errors rep = rep_Errors rep1" "rep_Items rep = rep_Items rep1"
      "dk_files dk' = dk_files dk2" "s' = s1"
      using assms l Inr lp r listFailed_files [OF r]
      by (cases r; auto simp: ReplayFailed_def same_files_def)+
    with that(2) [OF k fs] lp show ?thesis by blast
  qed
qed

lemma ReplayFailed_effect:
  assumes "ReplayFailed S limit d dk s = Some (rep, dk', s')"
  shows "rep_Sent rep + rep_Errors rep = int (length (rep_Items rep))
    \<and> (0 < limit \<longrightarrow> int (length (rep_Items rep)) \<le> limit)
    \<and> (\<forall>p c. map_of (dk_files dk) p = Some c \<longrightarrow> map_of (dk_files dk') p = Some c \<or>
         (\<exists>n s1 s2. p = path_Join [failedDir d, n] \<and> delivered S (dump_payload c) s1 s2))"
  using assms
proof (cases rule: ReplayFailed_loop)
  case unread
  then show ?thesis by (simp add: replay_error_def)
next
  case (read files dk1 rep1 dk2)
  with replayFailedLoop_effect [OF read(3,2)] show ?thesis by simp
qed

lemma ReplayFailed_invariant:
  assumes "ReplayFailed S limit d dk s = Some (rep, dk', s')" "I (dk_files dk) s"
    and "\<And>n rep dk s rep' dk' s'. replayFailedFile S d n rep dk s = Some (rep', dk', s') \<Longrightarrow> plain_name n \<Longrightarrow>
      I (dk_files dk) s \<Longrightarrow> I (dk_files dk') s'"
  shows "I (dk_files dk') s'"
  using assms(1)
proof (cases rule: ReplayFailed_loop)
  case unread
  with assms(2) show ?thesis by simp
next
  case (read files dk1 rep1 dk2)
  with replayFailedLoop_invariant [OF read(3,2), of I] assms(2,3) show ?thesis by simp
qed

end
