(* ===== verification/Dumper_Props.thy ===== *)
theory Dumper_Props
  imports Dumper_Facts "HOL-Library.Multiset"
begin

text \<open>
  The properties of the dump directory, each with a witness where it has hypotheses.
\<close>

section \<open>A dump directory to try the properties on\<close>

definition demo_dumper :: FileDumper where
  "demo_dumper = \<lparr>fd_Path = ''dumps'', fd_DumpPrefix = ''20240102030405'', fd_DumpNum = 8,
     fd_MaxDumpFiles = 0, fd_LockedFiles = Some []\<rparr>"

definition demo_disk :: "(string \<times> string) list \<Rightarrow> dfault list \<Rightarrow> disk" where
  "demo_disk fs faults = \<lparr>dk_files = fs, dk_dirs = [''dumps''], dk_faults = faults\<rparr>"

text \<open>The files of a dump of \<open>(1)\<close> into table t, and of one that ClickHouse refused.\<close>

definition demo_name :: string where
  "demo_name = ''dump202401020304051-9-502.dmp''"

definition demo_refused :: string where
  "demo_refused = ''dump202401020304052-9-400.dmp''"

definition demo_data :: string where
  "demo_data = ''db=d'' @ NL # ''INSERT INTO t VALUES'' @ NL # ''(1)''"

text \<open>A sender that keeps the requests it is given and accepts them all.\<close>

definition ok_reply :: query_reply where
  "ok_reply = \<lparr>rp_response = [], rp_status = 200, rp_headers = None, rp_err = None\<rparr>"

definition log_sender :: "ClickhouseRequest list Sender" where
  "log_sender = \<lparr>s_Send = (\<lambda>r s. s @ [r]), s_SendQuery = (\<lambda>r s. Some (ok_reply, s @ [r])),
     s_Len = int \<circ> length, s_Empty = (\<lambda>s. s = [])\<rparr>"

section \<open>Paths and names\<close>

text \<open>
  C36. No file id leads out of the dump directory: a path that \<open>makePath\<close> accepts is that of
  an entry of the dump directory or of its subdirectory \<open>failed\<close>, and an id with two dots in
  a row is refused.
\<close>

theorem dump_paths_stay_inside:
  assumes "makePath d fid = Inr p"
  shows "\<not> contains fid ''..'' \<and> (\<exists>n. plain_name n \<and>
    (p = path_Join [fd_Path d, n] \<or> p = path_Join [failedDir d, n]))"
proof -
  have "\<not> contains fid ''..''"
    using assms by (auto simp: makePath_def safeDumpRelPath_def)
  with makePath_inside [OF assms] show ?thesis using failedDir_join by metis
qed

theorem dump_paths_stay_inside_witness:
  "makePath demo_dumper ''failed//x/a.dmp'' = Inr ''dumps/failed/a.dmp'' \<and> (\<exists>n. plain_name n \<and>
    (''dumps/failed/a.dmp'' = path_Join [''dumps'', n] \<or> ''dumps/failed/a.dmp'' = path_Join [failedDir demo_dumper, n]))"
proof -
  have h: "makePath demo_dumper ''failed//x/a.dmp'' = Inr ''dumps/failed/a.dmp''" by code_simp
  have "fd_Path demo_dumper = ''dumps''" by (simp add: demo_dumper_def)
  with dump_paths_stay_inside [OF h] h show ?thesis by simp
qed

text \<open>
  The name of a dump tells how it is replayed: for every start time, number and status,
  \<open>isClientErrorDumpFile\<close> accepts exactly the names made with the kind 2, and the name is one
  the replay lists and can open.
\<close>

theorem dump_name_tells_kind:
  assumes "list_all is_digit_char (fd_DumpPrefix d)" "length (fd_DumpPrefix d) = 14"
    and "0 \<le> num" "0 \<le> status" "is_digit_char k"
  shows "isClientErrorDumpFile (dumpName d num [k] status) = ([k] = dumpKindClientError)
    \<and> path_Ext (dumpName d num [k] status) = ''.dmp''
    \<and> makePath d (dumpName d num [k] status) = Inr (path_Join [fd_Path d, dumpName d num [k] status])"
proof -
  have n: "dump_file_name (dumpName d num [k] status)"
    using dumpName_ok [OF assms(1) assms(5) assms(3,4)] .
  then have "makePath d (dumpName d num [k] status) = Inr (path_Join [fd_Path d, dumpName d num [k] status])"
    unfolding dump_file_name_def using makePath_name dump_name_not_failed by blast
  with n show ?thesis
    using isClientError_dumpName [OF assms(1-4)] by (simp add: dump_file_name_def dumpKindClientError_def)
qed

theorem dump_name_tells_kind_witness:
  "isClientErrorDumpFile (dumpName demo_dumper 10 ''2'' 400)
   \<and> \<not> isClientErrorDumpFile (dumpName demo_dumper 10 ''1'' 502)"
proof -
  have d: "list_all is_digit_char (fd_DumpPrefix demo_dumper)" "length (fd_DumpPrefix demo_dumper) = 14"
    "is_digit_char (CHR ''1'')" "is_digit_char (CHR ''2'')" by code_simp+
  show ?thesis
    using dump_name_tells_kind [OF d(1,2) _ _ d(3), of 10 502]
      dump_name_tells_kind [OF d(1,2) _ _ d(4), of 10 400]
    by (simp add: dumpKindClientError_def)
qed

section \<open>Writing\<close>

text \<open>
  C22. Under any failures of the system calls (and no limit on the number of files): when
  \<open>Dump\<close> reports success its file holds all of the data, and when it reports an error no other
  file changed, and its own holds a truncated copy of the data or is untouched.
\<close>

theorem dump_written_or_error:
  assumes "Dump params content response kind status d dk = (res, d', dk')" "fd_MaxDumpFiles d \<le> 0"
  shows "case res of
      Inr _ \<Rightarrow> map_of (dk_files dk') = (map_of (dk_files dk))(dump_path d kind status \<mapsto> dump_data params content response)
    | Inl _ \<Rightarrow> map_of (dk_files dk') = map_of (dk_files dk)
        \<or> (\<exists>k. map_of (dk_files dk') =
             (map_of (dk_files dk))(dump_path d kind status \<mapsto> take k (dump_data params content response)))"
proof (cases res)
  case (Inr u)
  with Dump_unpruned [of params content response kind status d dk d' dk'] assms show ?thesis
    by (simp add: update_conv')
next
  case (Inl e)
  obtain c dk1 where c: "checkDir d True dk = (c, dk1)" by (metis surj_pair)
  have k: "dk_files dk1 = dk_files dk" using checkDir_files [OF c] by (simp add: same_files_def)
  obtain w dk2 where w: "os_WriteFile (dump_path d kind status) (dump_data params content response) dk1 = (w, dk2)"
    by (metis surj_pair)
  have "dk' = dk1 \<or> (\<exists>e. w = Inl e) \<and> dk' = dk2"
    using assms Inl c w by (cases c; cases w) (auto simp: Dump_def dump_path_def dumpName_def Let_def)
  moreover have "(\<exists>e. w = Inl e) \<Longrightarrow> dk_files dk2 = dk_files dk1 \<or> (\<exists>k. dk_files dk2 =
      AList.update (dump_path d kind status) (take k (dump_data params content response)) (dk_files dk1))"
    using w by (auto simp: os_WriteFile_def same_files_def dest!: dsys_files split: prod.splits dfault.splits)
  ultimately consider "dk_files dk' = dk_files dk"
    | k where "dk_files dk' = AList.update (dump_path d kind status)
        (take k (dump_data params content response)) (dk_files dk)" using k by auto
  then show ?thesis using Inl by cases (auto simp: update_conv')
qed

theorem dump_written_or_error_witness:
  "case Dump ''db=d'' ''X'' [] ''1'' 502 demo_dumper (demo_disk [] [DOk, DPartial 2]) of (res, d', dk') \<Rightarrow>
     res = Inl EIO \<and> (map_of (dk_files dk') = map_of [] \<or> (\<exists>k. map_of (dk_files dk') =
       (map_of [])(dump_path demo_dumper ''1'' 502 \<mapsto> take k (dump_data ''db=d'' ''X'' []))))"
proof -
  obtain res d' dk' where r: "Dump ''db=d'' ''X'' [] ''1'' 502 demo_dumper (demo_disk [] [DOk, DPartial 2]) = (res, d', dk')"
    by (metis prod_cases3)
  have "fst (Dump ''db=d'' ''X'' [] ''1'' 502 demo_dumper (demo_disk [] [DOk, DPartial 2])) = Inl EIO"
    by code_simp
  then have "res = Inl EIO" using r by simp
  with dump_written_or_error [OF r] r show ?thesis by (simp add: demo_dumper_def demo_disk_def)
qed

text \<open>
  C23. What a dump keeps of a batch: after a successful \<open>Dump\<close> the file it wrote reads back as
  a request with the same content, unless the mark that separates the response occurs in the
  data; the parameters come back exactly when they do not begin with the word insert (as
  \<open>insert_quorum=2\<close> does), else they are lost.
\<close>

theorem dump_read_back:
  assumes "Dump params content response [k] status d dk = (Inr (), d', dk')" "fd_MaxDumpFiles d \<le> 0"
    and "list_all is_digit_char (fd_DumpPrefix d)" "is_digit_char k" "0 \<le> fd_DumpNum d" "0 \<le> status"
    and "NL \<notin> set params"
    and "\<not> contains (params @ NL # content @ butlast dumpResponseMark) dumpResponseMark"
    and "quiet_disk dk'"
  shows "\<exists>data resp. GetDumpData d (dumpName d (fd_DumpNum d + 1) [k] status) dk' = (Inr (data, resp), dk')
    \<and> req_Content (dump_request data) = content
    \<and> (req_Params (dump_request data) = params) = (\<not> HasPrefix params ''insert'')"
proof -
  let ?n = "dumpName d (fd_DumpNum d + 1) [k] status" and ?s = "dump_data params content response"
  have "dump_file_name ?n" using assms(5,6) by (intro dumpName_ok [OF assms(3,4)]) simp_all
  then have "makePath d ?n = Inr (dump_path d [k] status)"
    unfolding dump_file_name_def dump_path_def using makePath_name dump_name_not_failed by blast
  moreover have "map_of (dk_files dk') (dump_path d [k] status) = Some ?s"
    using Dump_unpruned [OF assms(1,2)] by (simp add: update_conv')
  moreover obtain x xs where x: "split_str dumpResponseMark ?s = x # xs"
    by (metis list.exhaust split_str_not_Nil)
  moreover have "\<exists>resp. GetDumpData d ?n dk' = (Inr (dump_payload ?s, resp), dk')"
    using calculation assms(9)
    by (cases xs) (simp_all add: GetDumpData_def os_ReadFile_def dsys_quiet dump_payload_def)
  moreover have "HasPrefix params ''insert'' \<Longrightarrow> params \<noteq> []" by (auto simp: HasPrefix_def)
  ultimately show ?thesis
    using dump_payload_data [OF assms(8)] dump_request_params [OF assms(7), of content] by auto
qed

theorem dump_read_back_witness:
  "\<exists>d' dk' data resp. Dump ''insert_quorum=2'' ''INSERT'' [] ''1'' 502 demo_dumper (demo_disk [] []) = (Inr (), d', dk')
    \<and> GetDumpData demo_dumper (dumpName demo_dumper 9 ''1'' 502) dk' = (Inr (data, resp), dk')
    \<and> req_Content (dump_request data) = ''INSERT'' \<and> req_Params (dump_request data) \<noteq> ''insert_quorum=2''"
proof -
  obtain res d' dk' where r: "Dump ''insert_quorum=2'' ''INSERT'' [] ''1'' 502 demo_dumper (demo_disk [] []) = (res, d', dk')"
    by (metis prod_cases3)
  have "fst (Dump ''insert_quorum=2'' ''INSERT'' [] ''1'' 502 demo_dumper (demo_disk [] [])) = Inr ()"
    "dk_faults (snd (snd (Dump ''insert_quorum=2'' ''INSERT'' [] ''1'' 502 demo_dumper (demo_disk [] [])))) = []"
    by code_simp+
  then have d: "res = Inr ()" "quiet_disk dk'" using r by (simp_all add: quiet_disk_def)
  have h: "fd_MaxDumpFiles demo_dumper \<le> 0" "list_all is_digit_char (fd_DumpPrefix demo_dumper)"
    "is_digit_char (CHR ''1'')" "0 \<le> fd_DumpNum demo_dumper" "(0::int) \<le> 502"
    "NL \<notin> set ''insert_quorum=2''" "HasPrefix ''insert_quorum=2'' ''insert''" "fd_DumpNum demo_dumper + 1 = 9"
    "\<not> contains (''insert_quorum=2'' @ NL # ''INSERT'' @ butlast dumpResponseMark) dumpResponseMark"
    by code_simp+
  show ?thesis
    using dump_read_back [OF _ h(1-6) h(9) d(2), of _ _ d'] r d(1) h(7,8) by auto
qed

text \<open>
  Pruning keeps the number of dumps within the limit, and what it keeps are the names
  that come last in the order of strings: after a successful \<open>Dump\<close> (no failing system call)
  the names waiting are those of before with the new one, less the first ones in excess.
\<close>

theorem dump_prunes_to_limit:
  assumes "quiet_disk dk" "is_dir (fd_Path d) dk" "0 < fd_MaxDumpFiles d" "distinct (map fst (dk_files dk))"
    and "\<forall>n \<in> set (pending_names d dk). \<not> contains n ''..''"
    and "list_all is_digit_char (fd_DumpPrefix d)" "is_digit_char k" "0 \<le> fd_DumpNum d" "0 \<le> status"
    and "Dump params content response [k] status d dk = (res, d', dk')"
  shows "res = Inr () \<and> sort (pending_names d dk') =
    (let files = sort (List.insert (dumpName d (fd_DumpNum d + 1) [k] status) (pending_names d dk))
     in drop (length files - nat (fd_MaxDumpFiles d)) files)"
proof -
  let ?n = "dumpName d (fd_DumpNum d + 1) [k] status" and ?p = "dump_path d [k] status"
  let ?d = "d\<lparr>fd_DumpNum := fd_DumpNum d + 1\<rparr>"
  let ?dk = "dk\<lparr>dk_files := AList.update ?p (dump_data params content response) (dk_files dk)\<rparr>"
  have n: "plain_name ?n" "\<not> contains ?n ''..''" "path_Ext ?n = ''.dmp''"
    using dumpName_ok [OF assms(6,7), of "fd_DumpNum d + 1" status] assms(8,9)
    by (simp_all add: dump_file_name_def)
  have p: "path_Base ?p = ?n" "path_Join [fd_Path d, ?n] = ?p" using n(1) by (simp_all add: dump_path_def)
  have res: "res = Inr ()" "dk' = pruneOldestIfNeeded ?d ?dk"
    using assms(10) by (auto simp: Dump_def checkDir_quiet [OF assms(1,2)] os_WriteFile_def
        dsys_quiet [OF assms(1)] dump_path_def dumpName_def Let_def)
  have names: "mset (pending_names d ?dk) = mset (List.insert ?n (pending_names d dk))"
  proof (cases "?p \<in> fst ` set (dk_files dk)")
    case True
    then have "?n \<in> set (pending_names d dk)"
      using p n(3) by (force simp: pending_names_def names_in_def image_iff)
    with True show ?thesis by (simp add: pending_names_def names_in_def update_keys)
  next
    case False
    have "?n \<notin> set (pending_names d dk)"
      using False set_names_in [of ?n "fd_Path d" dk] p by (auto simp: pending_names_def)
    with False p n(3) show ?thesis
      unfolding pending_names_def names_in_def by (simp add: update_keys filter_append)
  qed
  then have srt: "sort (pending_names d ?dk) = sort (List.insert ?n (pending_names d dk))"
    and set: "set (pending_names d ?dk) = set (List.insert ?n (pending_names d dk))"
    and len: "length (pending_names d ?dk) = length (List.insert ?n (pending_names d dk))"
    by (metis properties_for_sort mset_sort sorted_sort, metis set_mset_mset, metis size_mset)
  have d: "pending_names ?d = pending_names d" by (simp add: fun_eq_iff pending_names_def)
  have "sort (pending_names ?d (pruneOldestIfNeeded ?d ?dk)) =
      drop (length (pending_names ?d ?dk) - nat (fd_MaxDumpFiles ?d)) (sort (pending_names ?d ?dk))"
    using assms(1-5) n(2) set unfolding d
    by (intro prune_quiet [of ?dk ?d, unfolded d]) (auto simp: distinct_update)
  with res srt len show ?thesis by (simp add: d)
qed

theorem dump_prunes_to_limit_witness:
  "\<exists>d' dk'. Dump ''db=d'' ''INSERT INTO t VALUES (2)'' [] ''1'' 502 (demo_dumper\<lparr>fd_DumpNum := 9, fd_MaxDumpFiles := 1\<rparr>)
      (demo_disk [(''dumps/'' @ demo_name, demo_data)] []) = (Inr (), d', dk')
    \<and> sort (pending_names demo_dumper dk') = [demo_name]"
proof -
  let ?d = "demo_dumper\<lparr>fd_DumpNum := 9, fd_MaxDumpFiles := 1\<rparr>"
  let ?dk = "demo_disk [(''dumps/'' @ demo_name, demo_data)] []"
  have h: "quiet_disk ?dk" "is_dir (fd_Path ?d) ?dk" "0 < fd_MaxDumpFiles ?d" "distinct (map fst (dk_files ?dk))"
    "list_all (\<lambda>n. \<not> contains n ''..'') (pending_names ?d ?dk)"
    "list_all is_digit_char (fd_DumpPrefix ?d)" "is_digit_char (CHR ''1'')" "0 \<le> fd_DumpNum ?d" "(0::int) \<le> 502"
    "(let files = sort (List.insert (dumpName ?d (fd_DumpNum ?d + 1) ''1'' 502) (pending_names ?d ?dk))
      in drop (length files - nat (fd_MaxDumpFiles ?d)) files) = [demo_name]"
    by code_simp+
  have p: "pending_names ?d = pending_names demo_dumper"
    by (simp add: fun_eq_iff pending_names_def)
  obtain res d' dk' where r: "Dump ''db=d'' ''INSERT INTO t VALUES (2)'' [] ''1'' 502 ?d ?dk = (res, d', dk')"
    by (metis prod_cases3)
  from dump_prunes_to_limit [OF h(1-4) _ h(6-9) r] h(5,10) r p show ?thesis
    by (simp add: list_all_iff)
qed

text \<open>
  The order of strings is not the order of time: with a limit of one file, \<open>Dump\<close> number
  10 reports success while its own data is pruned at once, because its name sorts before that
  of number 9.
\<close>

theorem dump_success_can_discard:
  "\<exists>d dk d' dk'. Dump ''db=d'' ''INSERT INTO t VALUES (2)'' [] ''1'' 502 d dk = (Inr (), d', dk')
    \<and> quiet_disk dk \<and> pending_names d dk = [demo_name]
    \<and> pending_names d' dk' = [demo_name]
    \<and> map_of (dk_files dk') (dump_path d ''1'' 502) = None"
proof -
  let ?d = "demo_dumper\<lparr>fd_DumpNum := 9, fd_MaxDumpFiles := 1\<rparr>"
  let ?dk = "demo_disk [(''dumps/'' @ demo_name, demo_data)] []"
  obtain res d' dk' where r: "Dump ''db=d'' ''INSERT INTO t VALUES (2)'' [] ''1'' 502 ?d ?dk = (res, d', dk')"
    by (metis prod_cases3)
  have "(case Dump ''db=d'' ''INSERT INTO t VALUES (2)'' [] ''1'' 502 ?d ?dk of (res, d', dk') \<Rightarrow>
      res = Inr () \<and> pending_names d' dk' = [demo_name] \<and> map_of (dk_files dk') (dump_path ?d ''1'' 502) = None)"
    "pending_names ?d ?dk = [demo_name]" "quiet_disk ?dk"
    by code_simp+
  note e = this
  have "res = Inr () \<and> pending_names d' dk' = [demo_name] \<and> map_of (dk_files dk') (dump_path ?d ''1'' 502) = None"
    using e(1) unfolding r prod.case .
  with r e(2,3) show ?thesis by metis
qed

section \<open>Replay\<close>

text \<open>
  C10. The replay loses nothing: whatever fails, after one step of \<open>ProcessNextDump\<close> a file of
  the dump directory is still there with its contents, or it was moved to \<open>failed\<close> (only a
  dump of a client error is), or the sender accepted its payload.
\<close>

theorem replay_loses_nothing:
  assumes "ProcessNextDump S d dk s = Some (res, d', dk', s')"
    and "plain_name n" "map_of (dk_files dk) (path_Join [fd_Path d, n]) = Some c"
  shows "map_of (dk_files dk') (path_Join [fd_Path d, n]) = Some c
    \<or> isClientErrorDumpFile n \<and> map_of (dk_files dk') (path_Join [failedDir d, n]) = Some c
    \<or> \<not> isClientErrorDumpFile n \<and> delivered S (dump_payload c) s s'"
  using assms(1)
proof (cases rule: ProcessNextDump_cases)
  case (moved f b)
  note f = pending_plain(1) [OF moved(4)]
  show ?thesis
  proof (cases "f = n")
    case True
    with moved assms(3) show ?thesis by (simp add: update_conv')
  next
    case False
    have "path_Join [failedDir d, f] \<noteq> path_Join [fd_Path d, n]"
      using f assms(2) by (simp add: failedDir_join)
    with moved assms(2,3) f False show ?thesis by (simp add: update_conv' delete_conv')
  qed
next
  case (sent f b)
  note f = pending_plain(1) [OF sent(1)]
  show ?thesis
  proof (cases "f = n")
    case True
    with sent assms(3) show ?thesis by auto
  next
    case False
    with sent(6) assms(2,3) f show ?thesis by (auto simp: delete_conv' same_files_def)
  qed
qed (use assms(3) in \<open>auto simp: same_files_def\<close>)

theorem replay_loses_nothing_witness:
  "\<exists>res d' dk' s'. ProcessNextDump log_sender demo_dumper
      (demo_disk [(''dumps/'' @ demo_name, demo_data), (''dumps/'' @ demo_refused, demo_data)] []) []
      = Some (res, d', dk', s')
    \<and> (map_of (dk_files dk') (path_Join [fd_Path demo_dumper, demo_name]) = Some demo_data
       \<or> isClientErrorDumpFile demo_name \<and> map_of (dk_files dk') (path_Join [failedDir demo_dumper, demo_name]) = Some demo_data
       \<or> \<not> isClientErrorDumpFile demo_name \<and> delivered log_sender (dump_payload demo_data) [] s')"
proof -
  let ?dk = "demo_disk [(''dumps/'' @ demo_name, demo_data), (''dumps/'' @ demo_refused, demo_data)] []"
  have "ProcessNextDump log_sender demo_dumper ?dk [] \<noteq> None"
    by (rule ProcessNextDump_returns) (simp add: log_sender_def)
  then obtain res d' dk' s' where r: "ProcessNextDump log_sender demo_dumper ?dk [] = Some (res, d', dk', s')"
    by (metis not_None_eq prod_cases4)
  have h: "plain_name demo_name" "map_of (dk_files ?dk) (path_Join [fd_Path demo_dumper, demo_name]) = Some demo_data"
    by code_simp+
  show ?thesis using replay_loses_nothing [OF r h] r by blast
qed

text \<open>
  A tick of the replay ends, whatever fails, provided that the sender answers every query:
  each turn of its loop takes a file out of the dump directory. A tick without a batch limit
  stops only at an error, at the latest when no dump is left.
\<close>

theorem replay_tick_ends:
  assumes "\<And>r s. s_SendQuery S r s \<noteq> None"
  shows "\<exists>e d' dk' s'. listenTick S batchLimit processed d dk s = Some (e, d', dk', s')
    \<and> (batchLimit \<le> 0 \<longrightarrow> e \<noteq> None)"
proof -
  obtain e d' dk' s' where l: "listenTick S batchLimit processed d dk s = Some (e, d', dk', s')"
    using listenTick_returns [OF assms] by (metis not_None_eq prod_cases4)
  have "batchLimit \<le> 0 \<longrightarrow> e \<noteq> None"
    using l by (rule listenTick_stop)
  with l show ?thesis by blast
qed

theorem replay_tick_ends_witness:
  "\<exists>e d' dk' s'. listenTick log_sender 0 0 demo_dumper (demo_disk [(''dumps/'' @ demo_name, demo_data)] []) []
     = Some (Some e, d', dk', s')"
proof -
  have "s_SendQuery log_sender r s \<noteq> None" for r s by (simp add: log_sender_def)
  from replay_tick_ends [OF this, of 0 0 demo_dumper "demo_disk [(''dumps/'' @ demo_name, demo_data)] []" "[]"]
  show ?thesis by auto
qed

text \<open>
  A dump that was sent but could not be deleted is not sent again by this process: a
  locked file keeps its contents and stays locked, and what a step of the replay sends is the
  payload of another file.
\<close>

theorem locked_dump_not_resent:
  assumes "ProcessNextDump S d dk s = Some (res, d', dk', s')" "is_locked d f" "plain_name f"
  shows "is_locked d' f \<and> map_of (dk_files dk') (path_Join [fd_Path d, f]) = map_of (dk_files dk) (path_Join [fd_Path d, f])
    \<and> (s' = s \<or> (\<exists>g c st err. g \<noteq> f \<and> map_of (dk_files dk) (path_Join [fd_Path d, g]) = Some c
          \<and> sendDumpPayload S (dump_payload c) s = Some ((st, err), s')))"
  using assms(1)
proof (cases rule: ProcessNextDump_cases)
  case failed
  with assms(2) show ?thesis by (simp add: same_files_def)
next
  case (server g c st e)
  with assms(2) show ?thesis by (auto simp: same_files_def)
next
  case (moved g c)
  then have "g \<noteq> f" using assms(2) by auto
  moreover have "path_Join [failedDir d, g] \<noteq> path_Join [fd_Path d, f]"
    using pending_plain(1) [OF moved(4)] assms(3) by (simp add: failedDir_join)
  ultimately show ?thesis
    using moved assms(2,3) pending_plain(1) [OF moved(4)] by (simp add: update_conv' delete_conv')
next
  case (sent g c)
  then have g: "g \<noteq> f" using assms(2) by auto
  have "is_locked d' f" using sent(6) assms(2) by (auto simp: is_locked_def split: option.splits)
  moreover have "map_of (dk_files dk') (path_Join [fd_Path d, f]) = map_of (dk_files dk) (path_Join [fd_Path d, f])"
    using sent(6) g assms(3) pending_plain(1) [OF sent(1)] by (auto simp: delete_conv' same_files_def)
  ultimately show ?thesis using sent(4,5) g by (auto simp: delivered_def)
qed

theorem locked_dump_not_resent_witness:
  "\<exists>res d' dk' s'. ProcessNextDump log_sender (demo_dumper\<lparr>fd_LockedFiles := Some [demo_name]\<rparr>)
      (demo_disk [(''dumps/'' @ demo_name, demo_data)] []) [] = Some (res, d', dk', s')
    \<and> is_locked d' demo_name
    \<and> map_of (dk_files dk') (path_Join [fd_Path demo_dumper, demo_name]) = Some demo_data"
proof -
  let ?d = "demo_dumper\<lparr>fd_LockedFiles := Some [demo_name]\<rparr>"
  let ?dk = "demo_disk [(''dumps/'' @ demo_name, demo_data)] []"
  have "ProcessNextDump log_sender ?d ?dk [] \<noteq> None"
    by (rule ProcessNextDump_returns) (simp add: log_sender_def)
  then obtain res d' dk' s' where r: "ProcessNextDump log_sender ?d ?dk [] = Some (res, d', dk', s')"
    by (metis not_None_eq prod_cases4)
  have h: "is_locked ?d demo_name" "plain_name demo_name"
    "map_of (dk_files ?dk) (path_Join [fd_Path ?d, demo_name]) = Some demo_data" "fd_Path ?d = fd_Path demo_dumper"
    by code_simp+
  from locked_dump_not_resent [OF r h(1,2)] r h(3,4) show ?thesis by simp
qed

text \<open>
  The manual replay of the refused dumps: every attempt is counted once, as sent or as an
  error, no more attempts are made than the limit allows, and whatever fails a file disappears
  only if the sender accepted its payload.
\<close>

theorem replay_failed_report:
  assumes "ReplayFailed S limit d dk s = Some (rep, dk', s')"
  shows "rep_Sent rep + rep_Errors rep = int (length (rep_Items rep))
    \<and> (0 < limit \<longrightarrow> int (length (rep_Items rep)) \<le> limit)
    \<and> (\<forall>p c. map_of (dk_files dk) p = Some c \<longrightarrow> map_of (dk_files dk') p = Some c \<or>
         (\<exists>n s1 s2. p = path_Join [failedDir d, n] \<and> delivered S (dump_payload c) s1 s2))"
  by (rule ReplayFailed_effect [OF assms])

theorem replay_failed_report_witness:
  "\<exists>rep dk' s'. ReplayFailed log_sender 1 demo_dumper
      (demo_disk [(''dumps/failed/'' @ demo_refused, demo_data)] []) [] = Some (rep, dk', s')
    \<and> rep_Sent rep + rep_Errors rep = int (length (rep_Items rep)) \<and> int (length (rep_Items rep)) \<le> 1"
proof -
  let ?dk = "demo_disk [(''dumps/failed/'' @ demo_refused, demo_data)] []"
  have "ReplayFailed log_sender 1 demo_dumper ?dk [] \<noteq> None" by code_simp
  then obtain rep dk' s' where r: "ReplayFailed log_sender 1 demo_dumper ?dk [] = Some (rep, dk', s')"
    by (metis not_None_eq prod_cases3)
  from replay_failed_report [OF r] r show ?thesis by auto
qed

end
