(* ===== verification/Go_Time.thy ===== *)
theory Go_Time
  imports Prelude
begin

text \<open>
  Go's package \<open>time\<close> as far as the program computes with it. An instant counts nanoseconds
  from the zero value of \<open>time.Time\<close>; a \<open>time.Duration\<close> is an int64: a product wraps around and
  \<open>Sub\<close> saturates.
\<close>

definition max_duration :: nanos where
  "max_duration = 9223372036854775807"

definition duration_mult :: "nanos \<Rightarrow> int \<Rightarrow> nanos" where
  "duration_mult unit n = sint (word_of_int unit * word_of_int n :: 64 word)"

definition time_Sub :: "nanos \<Rightarrow> nanos \<Rightarrow> nanos" where
  "time_Sub t u = max (- max_duration - 1) (min max_duration (t - u))"

lemma sint_id: "- 9223372036854775808 \<le> i \<Longrightarrow> i \<le> 9223372036854775807 \<Longrightarrow> sint (word_of_int i :: 64 word) = i"
  by (simp add: sint_sbintrunc' signed_take_bit_int_eq_self)

lemma duration_mult_exact:
  assumes "0 \<le> unit * n" "unit * n \<le> max_duration"
  shows "duration_mult unit n = unit * n"
  using assms sint_id [of "unit * n"]
  by (simp add: duration_mult_def max_duration_def flip: of_int_mult)

lemma time_Sub_exact: "\<bar>t - u\<bar> \<le> max_duration \<Longrightarrow> time_Sub t u = t - u"
  by (simp add: time_Sub_def max_duration_def)

lemma time_Sub_pos: "0 < time_Sub t u \<longleftrightarrow> u < t"
  by (auto simp: time_Sub_def max_duration_def)

lemma time_Sub_mono: "t \<le> t' \<Longrightarrow> time_Sub t u \<le> time_Sub t' u"
  by (auto simp: time_Sub_def)

lemma time_Sub_le: "t - u \<le> k \<Longrightarrow> - max_duration - 1 \<le> k \<Longrightarrow> time_Sub t u \<le> k"
  by (auto simp: time_Sub_def)

end
