(* ===== verification/Clickhouse.thy ===== *)
theory Clickhouse
  imports Go_Time Journal Dumper
begin

text \<open>
  The sender of one ClickHouse target (clickhouse.go) and the pair of a live and a backup
  target (dual_sender.go). The queue is that of a third-party package: its operations are a
  parameter, the record \<open>queue_api\<close>. So is the outside world, the record \<open>env\<close>: what the clock
  shows at its n-th reading and how the n-th HTTP request ends.
\<close>

section \<open>The outside world\<close>

datatype http_result = PostFailed string | HttpReply int string headers

record env =
  env_clock :: "nat \<Rightarrow> nanos"
  env_post :: "nat \<Rightarrow> string \<Rightarrow> string \<Rightarrow> string \<Rightarrow> http_result"

text \<open>
  How many readings of the clock and how many requests were made so far, and the requests with
  their answers.
\<close>

record world =
  w_ticks :: nat
  w_posts :: nat
  w_log :: "(string \<times> string \<times> string \<times> http_result) list"

definition time_Now :: "env \<Rightarrow> world \<Rightarrow> nanos \<times> world" where
  "time_Now E w = (env_clock E (w_ticks w), w\<lparr>w_ticks := w_ticks w + 1\<rparr>)"

definition http_Post :: "env \<Rightarrow> string \<Rightarrow> string \<Rightarrow> string \<Rightarrow> world \<Rightarrow> http_result \<times> world" where
  "http_Post E url ct body w =
     (let res = env_post E (w_posts w) url ct body
      in (res, w\<lparr>w_posts := w_posts w + 1, w_log := w_log w @ [(url, ct, body, res)]\<rparr>))"

text \<open>
  The operations of the queue: \<open>Poll\<close> with a number of items wanted is \<^term>\<open>None\<close> when it
  times out. \<open>fifo_api\<close> is what the package documents, for a function that tells the items of
  a queue in order.
\<close>

record 'q queue_api =
  q_Put :: "ClickhouseRequest \<Rightarrow> 'q \<Rightarrow> 'q"
  q_Poll :: "nat \<Rightarrow> 'q \<Rightarrow> (ClickhouseRequest list \<times> 'q) option"
  q_Len :: "'q \<Rightarrow> int"
  q_Empty :: "'q \<Rightarrow> bool"

definition fifo_api :: "'q queue_api \<Rightarrow> ('q \<Rightarrow> ClickhouseRequest list) \<Rightarrow> bool" where
  "fifo_api Q items \<longleftrightarrow>
     (\<forall>q r. items (q_Put Q r q) = items q @ [r]) \<and>
     (\<forall>q. q_Len Q q = int (length (items q))) \<and>
     (\<forall>q. q_Empty Q q = (items q = [])) \<and>
     (\<forall>q. items q = [] \<longrightarrow> q_Poll Q 1 q = None) \<and>
     (\<forall>q r rs. items q = r # rs \<longrightarrow> (\<exists>q'. q_Poll Q 1 q = Some ([r], q') \<and> items q' = rs))"

section \<open>State\<close>

record ClickhouseServer =
  srv_URL :: string
  srv_LastRequest :: nanos
  srv_Bad :: bool
  srv_LogQueries :: bool

record 'q Clickhouse =
  ch_Servers :: "ClickhouseServer list"
  ch_Queue :: 'q
  ch_DownTimeout :: int
  ch_ConnectTimeout :: int
  ch_QueryParams :: string
  ch_wg :: int

definition NewClickhouse :: "'q \<Rightarrow> int \<Rightarrow> int \<Rightarrow> 'q Clickhouse" where
  "NewClickhouse q downTimeout connectTimeout = \<lparr>ch_Servers = [], ch_Queue = q,
     ch_DownTimeout = downTimeout,
     ch_ConnectTimeout = (if connectTimeout \<le> 0 then 10 else connectTimeout),
     ch_QueryParams = [], ch_wg = 0\<rparr>"

definition AddServer :: "string \<Rightarrow> bool \<Rightarrow> 'q Clickhouse \<Rightarrow> 'q Clickhouse" where
  "AddServer url logQueries c = c\<lparr>ch_Servers := ch_Servers c @
     [\<lparr>srv_URL = url, srv_LastRequest = 0, srv_Bad = False, srv_LogQueries = logQueries\<rparr>]\<rparr>"

text \<open>\<open>DumpServers\<close>: the numbers of good and bad servers it reports.\<close>

definition DumpServers :: "'q Clickhouse \<Rightarrow> nat \<times> nat" where
  "DumpServers c = (length (filter (\<lambda>s. \<not> srv_Bad s) (ch_Servers c)),
     length (filter srv_Bad (ch_Servers c)))"

record ServerStatus =
  st_URL :: string
  st_Bad :: bool

definition ServersSnapshot :: "'q Clickhouse \<Rightarrow> ServerStatus list" where
  "ServersSnapshot c = map (\<lambda>s. \<lparr>st_URL = srv_URL s, st_Bad = srv_Bad s\<rparr>) (ch_Servers c)"

section \<open>Choosing a server\<close>

text \<open>
  The loop of \<open>GetNextServer\<close> over the servers from position \<open>i\<close> on, with the best one so far;
  it clears the Bad flag of a server whose down time is over.
\<close>

definition still_bad :: "nanos \<Rightarrow> int \<Rightarrow> ClickhouseServer \<Rightarrow> bool" where
  "still_bad tnow down s =
     (srv_Bad s \<and> \<not> duration_mult second down < time_Sub tnow (srv_LastRequest s))"

fun pickServer :: "nanos \<Rightarrow> int \<Rightarrow> nat \<Rightarrow> ClickhouseServer list \<Rightarrow> (nat \<times> ClickhouseServer) option
    \<Rightarrow> ClickhouseServer list \<times> (nat \<times> ClickhouseServer) option" where
  "pickServer tnow down i [] srv = ([], srv)"
| "pickServer tnow down i (s # ss) srv =
     (if still_bad tnow down s then
        (case pickServer tnow down (i + 1) ss srv of (ss', r) \<Rightarrow> (s # ss', r))
      else
        (let s' = s\<lparr>srv_Bad := False\<rparr>;
             srv' = (case srv of
                 None \<Rightarrow> Some (i, s')
               | Some (k, t) \<Rightarrow>
                   if 0 < time_Sub (srv_LastRequest t) (srv_LastRequest s') then Some (i, s')
                   else Some (k, t))
         in case pickServer tnow down (i + 1) ss srv' of (ss', r) \<Rightarrow> (s' # ss', r)))"

definition GetNextServer :: "env \<Rightarrow> 'q Clickhouse \<Rightarrow> world \<Rightarrow> nat option \<times> 'q Clickhouse \<times> world" where
  "GetNextServer E c w =
     (case time_Now E w of (tnow, w) \<Rightarrow>
      (case pickServer tnow (ch_DownTimeout c) 0 (ch_Servers c) None of
         (ss, None) \<Rightarrow> (None, c\<lparr>ch_Servers := ss\<rparr>, w)
       | (ss, Some (i, s)) \<Rightarrow>
           (case time_Now E w of (t, w) \<Rightarrow>
              (Some i, c\<lparr>ch_Servers := ss[i := s\<lparr>srv_LastRequest := t\<rparr>]\<rparr>, w))))"

section \<open>Sending a query\<close>

definition server_SendQuery :: "env \<Rightarrow> ClickhouseRequest \<Rightarrow> ClickhouseServer \<Rightarrow> world
    \<Rightarrow> query_reply \<times> ClickhouseServer \<times> world" where
  "server_SendQuery E r srv w =
     (if srv_URL srv \<noteq> [] then
        (let url = srv_URL srv @ (if req_Params r \<noteq> [] then ''?'' @ req_Params r else []);
             ct = (if req_ContentType r = [] then ''text/plain'' else req_ContentType r)
         in case http_Post E url ct (req_Content r) w of
              (PostFailed msg, w) \<Rightarrow>
                (\<lparr>rp_response = msg, rp_status = 502, rp_headers = None, rp_err = Some ErrServerIsDown\<rparr>,
                 srv\<lparr>srv_Bad := True\<rparr>, w)
            | (HttpReply status body hs, w) \<Rightarrow>
                (if 502 \<le> status then
                   (\<lparr>rp_response = body, rp_status = status, rp_headers = Some hs,
                     rp_err = Some ErrServerIsDown\<rparr>, srv\<lparr>srv_Bad := True\<rparr>, w)
                 else
                   (\<lparr>rp_response = body, rp_status = status, rp_headers = Some hs,
                     rp_err = (if 400 \<le> status then Some (ErrWrongStatus status) else None)\<rparr>, srv, w)))
      else (\<lparr>rp_response = [], rp_status = 200, rp_headers = None, rp_err = None\<rparr>, srv, w))"

definition mergeQueryParams :: "string \<Rightarrow> string \<Rightarrow> string" where
  "mergeQueryParams base extra =
     (let base = trim_space base; extra = trim_space extra
      in if extra = [] then base
         else if base = [] then extra
         else base @ ''&'' @ extra)"

definition no_servers :: query_reply where
  "no_servers = \<lparr>rp_response = [], rp_status = 503, rp_headers = None, rp_err = Some ErrNoServers\<rparr>"

text \<open>The loop over the servers of the target: \<^term>\<open>None\<close> when it never ends.\<close>

partial_function (option) sendLoop :: "env \<Rightarrow> ClickhouseRequest \<Rightarrow> 'q Clickhouse \<Rightarrow> world
    \<Rightarrow> (query_reply \<times> 'q Clickhouse \<times> world) option" where
  "sendLoop E req c w =
     (case GetNextServer E c w of
        (None, c, w) \<Rightarrow> Some (no_servers, c, w)
      | (Some i, c, w) \<Rightarrow>
          (case server_SendQuery E req (ch_Servers c ! i) w of
             (q, s, w) \<Rightarrow>
               (if rp_err q = Some ErrServerIsDown
                then sendLoop E req (c\<lparr>ch_Servers := (ch_Servers c)[i := s]\<rparr>) w
                else Some (q, c\<lparr>ch_Servers := (ch_Servers c)[i := s]\<rparr>, w))))"

definition SendQuery :: "env \<Rightarrow> ClickhouseRequest \<Rightarrow> 'q Clickhouse \<Rightarrow> world
    \<Rightarrow> (query_reply \<times> 'q Clickhouse \<times> world) option" where
  "SendQuery E r c w =
     sendLoop E (if ch_QueryParams c \<noteq> []
                 then r\<lparr>req_Params := mergeQueryParams (req_Params r) (ch_QueryParams c)\<rparr> else r) c w"

definition Send :: "'q queue_api \<Rightarrow> ClickhouseRequest \<Rightarrow> 'q Clickhouse \<Rightarrow> 'q Clickhouse" where
  "Send Q r c = c\<lparr>ch_wg := ch_wg c + 1, ch_Queue := q_Put Q r (ch_Queue c)\<rparr>"

text \<open>The target as a sender.\<close>

definition clickhouse_sender :: "'q queue_api \<Rightarrow> env \<Rightarrow> ('q Clickhouse \<times> world) Sender" where
  "clickhouse_sender Q E = \<lparr>
     s_Send = (\<lambda>r (c, w). (Send Q r c, w)),
     s_SendQuery = (\<lambda>r (c, w). SendQuery E r c w),
     s_Len = (\<lambda>(c, w). q_Len Q (ch_Queue c)),
     s_Empty = (\<lambda>(c, w). q_Empty Q (ch_Queue c))\<rparr>"

section \<open>The worker\<close>

text \<open>
  What the worker of a target works on: the target, its dumper and disk, and the journal with
  its directory (\<^term>\<open>None\<close> where the Go field is nil).
\<close>

record 'q worker =
  wk_ch :: "'q Clickhouse"
  wk_world :: world
  wk_dumper :: "FileDumper option"
  wk_disk :: disk
  wk_journal :: "journal option"
  wk_jdir :: journal_dir

definition ackJournal :: "env \<Rightarrow> u64 list \<Rightarrow> 'q worker \<Rightarrow> 'q worker" where
  "ackJournal E ids s = (case wk_journal s of
     None \<Rightarrow> s
   | Some j \<Rightarrow>
       (if ids = [] then s
        else (case time_Now E (wk_world s) of (now, w) \<Rightarrow>
          (case Ack now ids j (wk_jdir s) of (_, j', d') \<Rightarrow>
            s\<lparr>wk_world := w, wk_journal := Some j', wk_jdir := d'\<rparr>))))"

definition ch_Dump :: "string \<Rightarrow> string \<Rightarrow> string \<Rightarrow> string \<Rightarrow> int \<Rightarrow> 'q worker
    \<Rightarrow> (derr + unit) \<times> 'q worker" where
  "ch_Dump params content response kind status s = (case wk_dumper s of
     None \<Rightarrow> (Inr (), s)
   | Some d \<Rightarrow> (case Dump params content response kind status d (wk_disk s) of
       (res, d', dk') \<Rightarrow> (res, s\<lparr>wk_dumper := Some d', wk_disk := dk'\<rparr>)))"

definition dump_kind :: "int \<Rightarrow> string" where
  "dump_kind status = (if 400 \<le> status \<and> status < 502 then ''2'' else ''1'')"

definition wg_Done :: "'q worker \<Rightarrow> 'q worker" where
  "wg_Done s = s\<lparr>wk_ch := (wk_ch s)\<lparr>ch_wg := ch_wg (wk_ch s) - 1\<rparr>\<rparr>"

text \<open>
  One turn of the loop of \<open>Run\<close>. The result is \<^term>\<open>None\<close> when the worker does not get to the
  next turn: the call of \<open>SendQuery\<close> never returns, or the queue hands out no item and
  \<open>datas[0]\<close> panics.
\<close>

definition handleRequest :: "env \<Rightarrow> ClickhouseRequest \<Rightarrow> 'q worker \<Rightarrow> 'q worker option" where
  "handleRequest E data s = (case SendQuery E data (wk_ch s) (wk_world s) of
     None \<Rightarrow> None
   | Some (q, c, w) \<Rightarrow>
       (let s = s\<lparr>wk_ch := c, wk_world := w\<rparr>
        in case rp_err q of
             Some _ \<Rightarrow>
               (case ch_Dump (req_Params data) (req_Content data) (rp_response q)
                       (dump_kind (rp_status q)) (rp_status q) s of
                  (Inl _, s) \<Rightarrow> Some s
                | (Inr _, s) \<Rightarrow> Some (ackJournal E (req_JournalIDs data) s))
           | None \<Rightarrow> Some (ackJournal E (req_JournalIDs data) s)))"

definition runStep :: "'q queue_api \<Rightarrow> env \<Rightarrow> 'q worker \<Rightarrow> 'q worker option" where
  "runStep Q E s = (case q_Poll Q 1 (ch_Queue (wk_ch s)) of
     None \<Rightarrow> Some s
   | Some ([], q) \<Rightarrow> None
   | Some (data # _, q) \<Rightarrow>
       map_option wg_Done
         (handleRequest E data (s\<lparr>wk_ch := (wk_ch s)\<lparr>ch_Queue := q\<rparr>\<rparr>)))"

section \<open>Live and backup (dual_sender.go)\<close>

record ('p, 'q) DualSender =
  ds_live :: 'p
  ds_backup :: 'q

definition dual_Send :: "'p Sender \<Rightarrow> 'q Sender \<Rightarrow> ClickhouseRequest \<Rightarrow> ('p, 'q) DualSender \<Rightarrow> ('p, 'q) DualSender" where
  "dual_Send L B r d = d\<lparr>ds_live := s_Send L r (ds_live d), ds_backup := s_Send B r (ds_backup d)\<rparr>"

definition dual_SendQuery :: "'p Sender \<Rightarrow> ClickhouseRequest \<Rightarrow> ('p, 'q) DualSender
    \<Rightarrow> (query_reply \<times> ('p, 'q) DualSender) option" where
  "dual_SendQuery L r d = map_option (\<lambda>(q, l). (q, d\<lparr>ds_live := l\<rparr>)) (s_SendQuery L r (ds_live d))"

definition dual_Len :: "'p Sender \<Rightarrow> 'q Sender \<Rightarrow> ('p, 'q) DualSender \<Rightarrow> int" where
  "dual_Len L B d = s_Len L (ds_live d) + s_Len B (ds_backup d)"

definition dual_Empty :: "'p Sender \<Rightarrow> 'q Sender \<Rightarrow> ('p, 'q) DualSender \<Rightarrow> bool" where
  "dual_Empty L B d = (s_Empty L (ds_live d) \<and> s_Empty B (ds_backup d))"

definition dual_sender :: "'p Sender \<Rightarrow> 'q Sender \<Rightarrow> ('p, 'q) DualSender Sender" where
  "dual_sender L B = \<lparr>s_Send = dual_Send L B, s_SendQuery = dual_SendQuery L,
     s_Len = dual_Len L B, s_Empty = dual_Empty L B\<rparr>"

section \<open>Status (status.go)\<close>

record TargetStatus =
  ts_Enabled :: bool
  ts_QueueLen :: int
  ts_Servers :: "ServerStatus list"

definition buildTargetStatus :: "'q queue_api \<Rightarrow> 'q Clickhouse option \<Rightarrow> bool \<Rightarrow> TargetStatus" where
  "buildTargetStatus Q ch enabled = (case ch of
     Some c \<Rightarrow> if enabled then \<lparr>ts_Enabled = True, ts_QueueLen = q_Len Q (ch_Queue c), ts_Servers = ServersSnapshot c\<rparr>
              else \<lparr>ts_Enabled = False, ts_QueueLen = 0, ts_Servers = []\<rparr>
   | None \<Rightarrow> \<lparr>ts_Enabled = False, ts_QueueLen = 0, ts_Servers = []\<rparr>)"

end
