(* ===== verification/Clickhouse_Facts.thy ===== *)
theory Clickhouse_Facts
  imports Clickhouse Dumper_Facts Journal_Facts
begin

text \<open>
  Lemmas on a target: which server is chosen, what a query answers, when the loop over the
  servers ends and when it does not, what one turn of the worker does.
\<close>

section \<open>Choosing a server\<close>

definition revived :: "nanos \<Rightarrow> int \<Rightarrow> ClickhouseServer \<Rightarrow> ClickhouseServer" where
  "revived tnow down s = (if still_bad tnow down s then s else s\<lparr>srv_Bad := False\<rparr>)"

lemma revived_LastRequest [simp]: "srv_LastRequest (revived tnow down s) = srv_LastRequest s"
  "srv_URL (revived tnow down s) = srv_URL s"
  by (simp_all add: revived_def)

lemma pickServer_servers: "fst (pickServer tnow down i ss srv) = map (revived tnow down) ss"
  by (induction ss arbitrary: i srv) (simp_all add: revived_def Let_def case_prod_beta)

lemma pickServer_None:
  "snd (pickServer tnow down i ss srv) = None \<longleftrightarrow> srv = None \<and> list_all (still_bad tnow down) ss"
  by (induction ss arbitrary: i srv) (auto simp: Let_def case_prod_beta split: option.splits)

lemma pickServer_Some:
  assumes "snd (pickServer tnow down i ss srv) = Some (k, s)"
  shows "(srv = Some (k, s) \<or> (\<exists>m < length ss. k = i + m \<and> \<not> still_bad tnow down (ss ! m) \<and> s = (ss ! m)\<lparr>srv_Bad := False\<rparr>))
    \<and> (\<forall>t \<in> set ss. still_bad tnow down t \<or> srv_LastRequest s \<le> srv_LastRequest t)
    \<and> (\<forall>m t. srv = Some (m, t) \<longrightarrow> srv_LastRequest s \<le> srv_LastRequest t)"
  using assms
proof (induction tnow down i ss srv rule: pickServer.induct)
  case (1 tnow down i srv)
  then show ?case by simp
next
  case (2 tnow down i s0 ss srv)
  show ?case
  proof (cases "still_bad tnow down s0")
    case True
    with 2 have "snd (pickServer tnow down (i + 1) ss srv) = Some (k, s)" by (auto split: prod.splits)
    from "2.IH"(1) [OF True this] True show ?thesis by (auto simp: nth_Cons' intro: exI [of _ "Suc _"])
  next
    case False
    let ?s = "s0\<lparr>srv_Bad := False\<rparr>"
    let ?srv = "case srv of None \<Rightarrow> Some (i, ?s)
        | Some (k, t) \<Rightarrow> if 0 < time_Sub (srv_LastRequest t) (srv_LastRequest ?s) then Some (i, ?s) else Some (k, t)"
    have "snd (pickServer tnow down (i + 1) ss ?srv) = Some (k, s)"
      using "2.prems" False by (auto simp: Let_def split: prod.splits)
    from "2.IH"(2) [OF False refl refl this]
    have ih: "(?srv = Some (k, s) \<or> (\<exists>m < length ss. k = i + 1 + m \<and> \<not> still_bad tnow down (ss ! m) \<and> s = (ss ! m)\<lparr>srv_Bad := False\<rparr>))"
      "\<forall>t \<in> set ss. still_bad tnow down t \<or> srv_LastRequest s \<le> srv_LastRequest t"
      "\<forall>m t. ?srv = Some (m, t) \<longrightarrow> srv_LastRequest s \<le> srv_LastRequest t" by blast+
    have le: "srv_LastRequest s \<le> srv_LastRequest s0" "\<forall>m t. srv = Some (m, t) \<longrightarrow> srv_LastRequest s \<le> srv_LastRequest t"
      using ih(3) by (auto simp: time_Sub_pos split: option.splits if_splits)
    have "srv = Some (k, s) \<or> k = i \<and> s = ?s \<or> (\<exists>m < length ss. k = i + 1 + m \<and> \<not> still_bad tnow down (ss ! m) \<and> s = (ss ! m)\<lparr>srv_Bad := False\<rparr>)"
      using ih(1) by (auto split: option.splits if_splits)
    then have "srv = Some (k, s) \<or> (\<exists>m < length (s0 # ss). k = i + m \<and> \<not> still_bad tnow down ((s0 # ss) ! m) \<and> s = ((s0 # ss) ! m)\<lparr>srv_Bad := False\<rparr>)"
      using False by (elim disjE exE) (auto intro: exI [of _ 0] exI [of _ "Suc _"])
    with le ih(2) show ?thesis by simp
  qed
qed

text \<open>\<open>GetNextServer\<close> reads the clock, and again when it has found a server.\<close>

lemma GetNextServer_None:
  assumes "GetNextServer E c w = (None, c', w')"
  shows "list_all (still_bad (env_clock E (w_ticks w)) (ch_DownTimeout c)) (ch_Servers c)
    \<and> c' = c\<lparr>ch_Servers := ch_Servers c\<rparr> \<and> w' = w\<lparr>w_ticks := w_ticks w + 1\<rparr>"
proof -
  let ?t = "env_clock E (w_ticks w)"
  obtain ss r where p: "pickServer ?t (ch_DownTimeout c) 0 (ch_Servers c) None = (ss, r)" by (metis surj_pair)
  have r: "r = None" "c' = c\<lparr>ch_Servers := ss\<rparr>" "w' = w\<lparr>w_ticks := w_ticks w + 1\<rparr>"
    using assms p by (auto simp: GetNextServer_def time_Now_def split: option.splits prod.splits)
  have a: "list_all (still_bad ?t (ch_DownTimeout c)) (ch_Servers c)"
    using p r pickServer_None [of ?t "ch_DownTimeout c" 0 "ch_Servers c" None] by simp
  have "ss = map (revived ?t (ch_DownTimeout c)) (ch_Servers c)" using p pickServer_servers by (metis fst_conv)
  also have "\<dots> = ch_Servers c" using a by (auto simp: revived_def list_all_iff intro: map_idI)
  finally show ?thesis using a r by simp
qed

lemma GetNextServer_Some:
  assumes "GetNextServer E c w = (Some i, c', w')"
  shows "i < length (ch_Servers c) \<and> \<not> still_bad (env_clock E (w_ticks w)) (ch_DownTimeout c) (ch_Servers c ! i)
    \<and> (\<forall>t \<in> set (ch_Servers c). still_bad (env_clock E (w_ticks w)) (ch_DownTimeout c) t
          \<or> srv_LastRequest (ch_Servers c ! i) \<le> srv_LastRequest t)
    \<and> c' = c\<lparr>ch_Servers := (map (revived (env_clock E (w_ticks w)) (ch_DownTimeout c)) (ch_Servers c))
         [i := (ch_Servers c ! i)\<lparr>srv_Bad := False, srv_LastRequest := env_clock E (w_ticks w + 1)\<rparr>]\<rparr>
    \<and> w' = w\<lparr>w_ticks := w_ticks w + 2\<rparr>"
proof -
  let ?t = "env_clock E (w_ticks w)"
  obtain ss r where p: "pickServer ?t (ch_DownTimeout c) 0 (ch_Servers c) None = (ss, r)" by (metis surj_pair)
  obtain s where r: "r = Some (i, s)" "c' = c\<lparr>ch_Servers := ss[i := s\<lparr>srv_LastRequest := env_clock E (w_ticks w + 1)\<rparr>]\<rparr>"
    "w' = w\<lparr>w_ticks := w_ticks w + 2\<rparr>"
    using assms p by (auto simp: GetNextServer_def time_Now_def split: option.splits prod.splits)
  have "snd (pickServer ?t (ch_DownTimeout c) 0 (ch_Servers c) None) = Some (i, s)" using p r by simp
  note q = pickServer_Some [OF this]
  have "ss = map (revived ?t (ch_DownTimeout c)) (ch_Servers c)" using p pickServer_servers by (metis fst_conv)
  with q r show ?thesis by auto
qed

section \<open>A query\<close>

lemma server_SendQuery_frame:
  assumes "server_SendQuery E r s w = (q, s', w')"
  shows "s' = s\<lparr>srv_Bad := (srv_Bad s \<or> rp_err q = Some ErrServerIsDown)\<rparr>"
    "w_ticks w' = w_ticks w" "w_posts w' = w_posts w + (if srv_URL s = [] then 0 else 1)"
    "rp_err q = None \<Longrightarrow> rp_status q < 400"
    "rp_err q = Some e \<Longrightarrow> 400 \<le> rp_status q \<and> (e = ErrServerIsDown \<or> e = ErrWrongStatus (rp_status q) \<and> rp_status q < 502)"
  using assms
  by (auto simp: server_SendQuery_def http_Post_def Let_def split: if_splits http_result.splits)

lemma sendLoop_Some_step:
  assumes "GetNextServer E c w = (Some i, c1, w1)" "server_SendQuery E req (ch_Servers c1 ! i) w1 = (q, s, w2)"
  shows "sendLoop E req c w = (if rp_err q = Some ErrServerIsDown
      then sendLoop E req (c1\<lparr>ch_Servers := (ch_Servers c1)[i := s]\<rparr>) w2
      else Some (q, c1\<lparr>ch_Servers := (ch_Servers c1)[i := s]\<rparr>, w2))"
  using assms by (subst sendLoop.simps) simp

text \<open>What a query leaves alone, and what it can answer.\<close>

definition send_post :: "'q Clickhouse \<Rightarrow> query_reply \<Rightarrow> 'q Clickhouse \<Rightarrow> bool" where
  "send_post c q c' = ((\<exists>ss. c' = c\<lparr>ch_Servers := ss\<rparr> \<and> map srv_URL ss = map srv_URL (ch_Servers c))
   \<and> (rp_err q = None \<and> rp_status q < 400
      \<or> rp_err q = Some ErrNoServers \<and> rp_status q = 503
      \<or> rp_err q = Some (ErrWrongStatus (rp_status q)) \<and> 400 \<le> rp_status q \<and> rp_status q < 502))"

lemma send_post_trans:
  assumes "send_post c1 q c'" "c1 = c\<lparr>ch_Servers := ss\<rparr>" "map srv_URL ss = map srv_URL (ch_Servers c)"
  shows "send_post c q c'"
  using assms by (auto simp: send_post_def)

lemma GetNextServer_URLs:
  assumes "GetNextServer E c w = (r, c', w')"
  shows "\<exists>ss. c' = c\<lparr>ch_Servers := ss\<rparr> \<and> map srv_URL ss = map srv_URL (ch_Servers c)"
proof (cases r)
  case None
  with GetNextServer_None [of E c w c' w'] assms show ?thesis by blast
next
  case (Some i)
  with GetNextServer_Some [of E c w i c' w'] assms show ?thesis
    by (auto simp: map_update comp_def list_update_same_conv)
qed

lemmas sendLoop_induct [consumes 1, case_names step] = sendLoop.raw_induct [rotated]

lemma sendLoop_post: "sendLoop E req c w = Some (q, c', w') \<Longrightarrow> send_post c q c'"
proof -
  have "\<forall>q c' w'. r = (q, c', w') \<longrightarrow> send_post c q c'" if "sendLoop E req c w = Some r" for r
    using that
  proof (induction rule: sendLoop_induct)
    case (step sl E req c w r)
    obtain i c1 w1 where g: "GetNextServer E c w = (i, c1, w1)" by (metis prod_cases3)
    from GetNextServer_URLs [OF g] obtain ss where c1: "c1 = c\<lparr>ch_Servers := ss\<rparr>"
      "map srv_URL ss = map srv_URL (ch_Servers c)" by blast
    show ?case
    proof (cases i)
      case None
      with step(2) g c1 show ?thesis by (auto simp: send_post_def no_servers_def)
    next
      case (Some k)
      obtain q s w2 where sq: "server_SendQuery E req (ch_Servers c1 ! k) w1 = (q, s, w2)" by (metis prod_cases3)
      note fr = server_SendQuery_frame [OF sq]
      let ?ss = "(ch_Servers c1)[k := s]"
      have "map srv_URL ?ss = map srv_URL (ch_Servers c)"
      proof -
        have "srv_URL s = srv_URL (ss ! k)" using c1 fr(1) by simp
        then have "map srv_URL (ss[k := s]) = map srv_URL (ss[k := ss ! k])" by (simp only: map_update)
        then show ?thesis using c1 by simp
      qed
      moreover have "c1\<lparr>ch_Servers := ?ss\<rparr> = c\<lparr>ch_Servers := ?ss\<rparr>" using c1 by simp
      ultimately have tr: "send_post (c1\<lparr>ch_Servers := ?ss\<rparr>) q' c' \<Longrightarrow> send_post c q' c'" for q' c'
        by (metis send_post_trans)
      show ?thesis
      proof (cases "rp_err q = Some ErrServerIsDown")
        case True
        with step(2) g Some sq have "sl E req (c1\<lparr>ch_Servers := ?ss\<rparr>) w2 = Some r" by simp
        from step(1) [OF this] tr show ?thesis by blast
      next
        case False
        with step(2) g Some sq have r: "r = (q, c1\<lparr>ch_Servers := ?ss\<rparr>, w2)" by simp
        have "send_post (c1\<lparr>ch_Servers := ?ss\<rparr>) q (c1\<lparr>ch_Servers := ?ss\<rparr>)"
          using False fr(4,5) by (cases "rp_err q") (auto simp: send_post_def)
        with r tr show ?thesis by blast
      qed
    qed
  qed
  then show "sendLoop E req c w = Some (q, c', w') \<Longrightarrow> send_post c q c'" by blast
qed

section \<open>The loop over the servers ends\<close>

text \<open>
  A server that failed since the instant \<open>t0\<close> is tried again only when its down time is over.
\<close>

definition failed_since :: "nanos \<Rightarrow> ClickhouseServer \<Rightarrow> bool" where
  "failed_since t0 s = (srv_Bad s \<and> t0 \<le> srv_LastRequest s)"

definition untried :: "nanos \<Rightarrow> 'q Clickhouse \<Rightarrow> nat" where
  "untried t0 c = length (filter (\<lambda>s. \<not> failed_since t0 s) (ch_Servers c))"

text \<open>During the next \<open>n\<close> readings the clock stays within the down time after \<open>t0\<close>.\<close>

definition in_window :: "env \<Rightarrow> nanos \<Rightarrow> int \<Rightarrow> nat \<Rightarrow> nat \<Rightarrow> bool" where
  "in_window E t0 down k n = (0 \<le> duration_mult second down \<and>
     (\<forall>m \<le> n. t0 \<le> env_clock E (k + m) \<and> env_clock E (k + m) \<le> t0 + duration_mult second down))"

lemma in_window_later: "in_window E t0 down k n \<Longrightarrow> m + n' \<le> n \<Longrightarrow> in_window E t0 down (k + m) n'"
  by (auto simp: in_window_def add.assoc)

lemma failed_since_still_bad:
  assumes "failed_since t0 s" "in_window E t0 down k n"
  shows "still_bad (env_clock E k) down s"
proof -
  have "env_clock E k \<le> t0 + duration_mult second down" "0 \<le> duration_mult second down"
    using assms(2) by (auto simp: in_window_def dest: spec [of _ 0])
  moreover have "t0 \<le> srv_LastRequest s" "srv_Bad s" using assms(1) by (simp_all add: failed_since_def)
  ultimately show ?thesis
    using time_Sub_le [of "env_clock E k" "srv_LastRequest s" "duration_mult second down"]
    by (simp add: still_bad_def max_duration_def)
qed

lemma sendLoop_returns:
  assumes "in_window E t0 (ch_DownTimeout c) (w_ticks w) (2 * untried t0 c)"
  shows "\<exists>q c' w'. sendLoop E req c w = Some (q, c', w') \<and> w_posts w' \<le> w_posts w + untried t0 c"
  using assms
proof (induction "untried t0 c" arbitrary: c w rule: less_induct)
  case less
  let ?t = "env_clock E (w_ticks w)" and ?down = "ch_DownTimeout c"
  obtain i c1 w1 where g: "GetNextServer E c w = (i, c1, w1)" by (metis prod_cases3)
  show ?case
  proof (cases i)
    case None
    with g GetNextServer_None [of E c w c1 w1] show ?thesis by (subst sendLoop.simps) auto
  next
    case (Some k)
    note gs = GetNextServer_Some [OF g [unfolded Some]]
    obtain q s w2 where sq: "server_SendQuery E req (ch_Servers c1 ! k) w1 = (q, s, w2)" by (metis prod_cases3)
    note fr = server_SendQuery_frame [OF sq]
    have k: "k < length (ch_Servers c)" using gs by simp
    have new: "\<not> failed_since t0 (ch_Servers c ! k)"
      using gs failed_since_still_bad [OF _ less.prems] by blast
    then have "filter (\<lambda>s. \<not> failed_since t0 s) (ch_Servers c) \<noteq> []"
      using k by (auto simp: filter_empty_conv)
    then have pos: "0 < untried t0 c" by (simp add: untried_def)
    have posts: "w_posts w2 \<le> w_posts w + 1" using fr(3) gs by (auto split: if_splits)
    show ?thesis
    proof (cases "rp_err q = Some ErrServerIsDown")
      case False
      with sendLoop_Some_step [OF g [unfolded Some] sq] posts pos show ?thesis by auto
    next
      case True
      let ?c = "c1\<lparr>ch_Servers := (ch_Servers c1)[k := s]\<rparr>"
      let ?ss = "map (revived ?t ?down) (ch_Servers c)"
      have "failed_since t0 s"
      proof -
        have "t0 \<le> env_clock E (w_ticks w + 1)"
          using less.prems pos by (auto simp: in_window_def dest: spec [of _ 1])
        with fr(1) True gs k show ?thesis by (simp add: failed_since_def)
      qed
      moreover have "ch_Servers ?c = ?ss[k := s]" using gs by simp
      moreover have "filter (\<lambda>s. \<not> failed_since t0 s) (?ss[k := s]) = map (revived ?t ?down)
          (filter (\<lambda>s. \<not> failed_since t0 s) (take k (ch_Servers c)) @ filter (\<lambda>s. \<not> failed_since t0 s) (drop (Suc k) (ch_Servers c)))"
      proof -
        have "failed_since t0 (revived ?t ?down x) = failed_since t0 x" for x
          using failed_since_still_bad [OF _ less.prems, of x] by (auto simp: revived_def failed_since_def)
        with calculation(1) k show ?thesis
          by (simp add: upd_conv_take_nth_drop filter_map comp_def take_map drop_map)
      qed
      moreover have "untried t0 c = Suc (length (filter (\<lambda>s. \<not> failed_since t0 s) (take k (ch_Servers c)
          @ drop (Suc k) (ch_Servers c))))"
        unfolding untried_def by (subst id_take_nth_drop [OF k]) (simp add: new)
      ultimately have un: "untried t0 c = Suc (untried t0 ?c)" by (simp add: untried_def)
      have dn: "ch_DownTimeout ?c = ?down" and tk: "w_ticks w2 = w_ticks w + 2" using gs fr(2) by auto
      have "in_window E t0 (ch_DownTimeout ?c) (w_ticks w2) (2 * untried t0 ?c)"
        unfolding dn tk by (rule in_window_later [OF less.prems]) (simp add: un)
      with less.hyps [of ?c w2] un obtain q' c' w' where
        "sendLoop E req ?c w2 = Some (q', c', w')" "w_posts w' \<le> w_posts w2 + untried t0 ?c" by auto
      with sendLoop_Some_step [OF g [unfolded Some] sq] True posts un show ?thesis by auto
    qed
  qed
qed

section \<open>The loop that does not end\<close>

text \<open>
  All requests fail, and each takes longer than the down time: the next reading of the clock
  after the request is that much later than the one before it.
\<close>

definition all_down_slow :: "env \<Rightarrow> int \<Rightarrow> nat \<Rightarrow> bool" where
  "all_down_slow E down k = (0 \<le> duration_mult second down \<and> duration_mult second down < max_duration
     \<and> (\<forall>n url ct body. \<exists>msg. env_post E n url ct body = PostFailed msg)
     \<and> (\<forall>m. env_clock E (k + m) \<le> env_clock E (k + Suc m))
     \<and> (\<forall>m. env_clock E (k + 2 * m + 1) + duration_mult second down < env_clock E (k + 2 * m + 2)))"

definition stale :: "env \<Rightarrow> 'q Clickhouse \<Rightarrow> nat \<Rightarrow> bool" where
  "stale E c k = (ch_Servers c \<noteq> [] \<and> (\<forall>s \<in> set (ch_Servers c). srv_URL s \<noteq> []
     \<and> (srv_Bad s \<longrightarrow> srv_LastRequest s + duration_mult second (ch_DownTimeout c) < env_clock E k)))"

lemma stale_not_bad:
  assumes "stale E c k" "s \<in> set (ch_Servers c)" "0 \<le> duration_mult second (ch_DownTimeout c)"
    "duration_mult second (ch_DownTimeout c) < max_duration"
  shows "\<not> still_bad (env_clock E k) (ch_DownTimeout c) s"
  using assms by (auto simp: stale_def still_bad_def time_Sub_def)

lemma all_down_slow_later: "all_down_slow E down k \<Longrightarrow> all_down_slow E down (k + 2)"
proof -
  assume a: "all_down_slow E down k"
  have "env_clock E (k + 2 + m) \<le> env_clock E (k + 2 + Suc m)" for m
    using a [unfolded all_down_slow_def] by (metis add.assoc add_Suc_right)
  moreover have "env_clock E (k + 2 + 2 * m + 1) + duration_mult second down < env_clock E (k + 2 + 2 * m + 2)" for m
  proof -
    have "env_clock E (k + 2 * Suc m + 1) + duration_mult second down < env_clock E (k + 2 * Suc m + 2)"
      using a [unfolded all_down_slow_def] by blast
    then show ?thesis by (simp add: add.commute add.left_commute)
  qed
  ultimately show ?thesis using a by (simp add: all_down_slow_def)
qed

lemma sendLoop_diverges:
  assumes "all_down_slow E (ch_DownTimeout c) (w_ticks w)" "stale E c (w_ticks w)"
  shows "sendLoop E req c w = None"
proof -
  have "\<not> (all_down_slow E (ch_DownTimeout c) (w_ticks w) \<and> stale E c (w_ticks w))"
    if "sendLoop E req c w = Some r" for r
    using that
  proof (induction rule: sendLoop_induct)
    case (step sl E req c w r)
    show ?case
    proof
      assume "all_down_slow E (ch_DownTimeout c) (w_ticks w) \<and> stale E c (w_ticks w)"
      then have a: "all_down_slow E (ch_DownTimeout c) (w_ticks w)" and st: "stale E c (w_ticks w)" by auto
      let ?down = "ch_DownTimeout c" and ?t = "env_clock E (w_ticks w)"
      have nb: "\<not> still_bad ?t ?down s" if "s \<in> set (ch_Servers c)" for s
        using stale_not_bad [OF st that] a by (simp add: all_down_slow_def)
      obtain i c1 w1 where g: "GetNextServer E c w = (i, c1, w1)" by (metis prod_cases3)
      obtain k where k: "i = Some k"
        using GetNextServer_None [of E c w c1 w1] g nb st by (cases i) (auto simp: list_all_iff stale_def neq_Nil_conv)
      note gs = GetNextServer_Some [OF g [unfolded k]]
      obtain q s w2 where sq: "server_SendQuery E req (ch_Servers c1 ! k) w1 = (q, s, w2)" by (metis prod_cases3)
      note fr = server_SendQuery_frame [OF sq]
      have url: "srv_URL (ch_Servers c1 ! k) \<noteq> []" using gs st by (auto simp: stale_def)
      have down: "rp_err q = Some ErrServerIsDown"
      proof -
        obtain f where "\<And>n url ct body. env_post E n url ct body = PostFailed (f n url ct body)"
          using a unfolding all_down_slow_def by metis
        with sq url show ?thesis by (auto simp: server_SendQuery_def http_Post_def Let_def)
      qed
      let ?c = "c1\<lparr>ch_Servers := (ch_Servers c1)[k := s]\<rparr>"
      have "sl E req ?c w2 = Some r" using step(2) g k sq down by simp
      from step(1) [OF this] have no: "\<not> (all_down_slow E (ch_DownTimeout ?c) (w_ticks w2) \<and> stale E ?c (w_ticks w2))" .
      have dn: "ch_DownTimeout ?c = ?down" and tk: "w_ticks w2 = w_ticks w + 2" using gs fr(2) by auto
      have later: "?t \<le> env_clock E (w_ticks w + 2)"
        "env_clock E (w_ticks w + 1) + duration_mult second ?down < env_clock E (w_ticks w + 2)"
        using a unfolding all_down_slow_def
        by (metis add_0_right add.commute add_Suc_right one_add_one order_trans plus_1_eq_Suc)
          (use a in \<open>auto simp: all_down_slow_def dest: spec [of _ 0]\<close>)
      have "stale E ?c (w_ticks w2)"
        unfolding stale_def
      proof (intro conjI ballI impI)
        show "ch_Servers ?c \<noteq> []" using gs by auto
        fix x assume x: "x \<in> set (ch_Servers ?c)"
        have "ch_Servers ?c = (map (revived ?t ?down) (ch_Servers c))[k := s]" using gs by simp
        with x have "x \<in> insert s (set (map (revived ?t ?down) (ch_Servers c)))"
          by (metis set_update_subset_insert subsetD)
        then consider "x = s" | y where "y \<in> set (ch_Servers c)" "x = revived ?t ?down y" by auto
        then show "srv_URL x \<noteq> []"
          by cases (use fr(1) url st in \<open>auto simp: stale_def\<close>)
        assume bad: "srv_Bad x"
        show "srv_LastRequest x + duration_mult second (ch_DownTimeout ?c) < env_clock E (w_ticks w2)"
          using \<open>x \<in> insert s _\<close>
        proof
          assume "x = s"
          with fr(1) gs later(2) show ?thesis unfolding dn tk by simp
        next
          assume "x \<in> set (map (revived ?t ?down) (ch_Servers c))"
          then obtain y where "y \<in> set (ch_Servers c)" "x = revived ?t ?down y" by auto
          with nb bad show ?thesis by (simp add: revived_def)
        qed
      qed
      moreover have "all_down_slow E (ch_DownTimeout ?c) (w_ticks w2)"
        unfolding dn tk by (rule all_down_slow_later [OF a])
      ultimately show False using no by simp
    qed
  qed
  with assms show ?thesis by (cases "sendLoop E req c w") auto
qed

section \<open>Acknowledgements touch only the numbers they are given\<close>

definition acked_in :: "u64 set \<Rightarrow> 'a jresult \<Rightarrow> bool" where
  "acked_in A m = (j_acked (fst (snd m)) \<subseteq> A)"

lemma acked_in_bind:
  assumes "acked_in A m" "\<And>x j d. j_acked j \<subseteq> A \<Longrightarrow> acked_in A (f x j d)"
  shows "acked_in A (jbind m f)"
  using assms by (cases m; cases "fst m") (auto simp: acked_in_def)

lemma acked_in_simps [simp]:
  "acked_in A (jok x j d) = (j_acked j \<subseteq> A)" "acked_in A (jfail e j d) = (j_acked j \<subseteq> A)"
  "acked_in A (jsys j d) = (j_acked j \<subseteq> A)" "acked_in A (walFileWrite new j d) = (j_acked j \<subseteq> A)"
  by (auto simp: acked_in_def jok_def jfail_def jsys_def walFileWrite_def Let_def split: prod.splits outcome.splits)

lemma acked_in_flush: "j_acked j \<subseteq> A \<Longrightarrow> acked_in A (flushWalLocked j d)"
  by (auto simp: flushWalLocked_def acked_in_def jok_def jfail_def jsys_def walFileWrite_def Let_def
      split: option.splits prod.splits outcome.splits)

lemma acked_in_openWAL: "j_acked j \<subseteq> A \<Longrightarrow> acked_in A (openWAL j d)"
  unfolding openWAL_def
  by (rule acked_in_bind) (auto simp: scanMaxID_def Let_def intro!: acked_in_bind split: option.splits prod.splits)

lemma acked_in_writeTmp: "j_acked j \<subseteq> A \<Longrightarrow> acked_in A (writeTmp ls j d)"
proof (induction ls arbitrary: j d)
  case Nil
  then show ?case by simp
next
  case (Cons l ls)
  obtain r j1 d1 where s: "jsys j d = (r, j1, d1)" by (metis prod_cases3)
  then have "j1 = j" by (auto simp: jsys_def split: prod.splits outcome.splits)
  with Cons s show ?case by (cases r) auto
qed

lemma acked_in_reset: "j_acked j \<subseteq> A \<Longrightarrow> acked_in A (resetAckFileLocked j d)"
  unfolding resetAckFileLocked_def openAckFile_def
  by (rule acked_in_bind) (auto intro!: acked_in_bind)

lemma acked_in_compact: "j_acked j \<subseteq> A \<Longrightarrow> acked_in A (compactLocked now j d)"
  unfolding compactLocked_def
  by (auto intro!: acked_in_bind acked_in_flush acked_in_writeTmp acked_in_openWAL acked_in_reset
      simp: Let_def split: option.splits prod.splits)

lemma acked_in_ackLoop: "j_acked j \<subseteq> A \<Longrightarrow> set ids \<subseteq> A \<Longrightarrow> acked_in A (ackLoop ids n j d)"
  by (induction ids n j d rule: ackLoop.induct) (auto intro!: acked_in_bind)

lemma Ack_acks_only:
  assumes "Ack now ids j d = (r, j', d')"
  shows "j_acked j' \<subseteq> j_acked j \<union> set ids"
proof -
  have "acked_in (j_acked j \<union> set ids) (Ack now ids j d)"
    by (auto simp: Ack_def openAckFile_def maybeCompactLocked_def Let_def
        intro!: acked_in_bind acked_in_ackLoop acked_in_compact)
  with assms show ?thesis by (simp add: acked_in_def)
qed

section \<open>The worker\<close>

lemma SendQuery_post:
  assumes "SendQuery E r c w = Some (q, c', w')"
  shows "send_post c q c'"
  using sendLoop_post assms unfolding SendQuery_def by blast

lemma ackJournal_frame [simp]:
  "wk_ch (ackJournal E ids s) = wk_ch s" "wk_dumper (ackJournal E ids s) = wk_dumper s"
  "wk_disk (ackJournal E ids s) = wk_disk s"
  by (auto simp: ackJournal_def split: option.splits prod.splits)

definition wk_acked :: "'q worker \<Rightarrow> u64 set" where
  "wk_acked s = (case wk_journal s of None \<Rightarrow> {} | Some j \<Rightarrow> j_acked j)"

lemma ackJournal_acked: "wk_acked (ackJournal E ids s) \<subseteq> wk_acked s \<union> set ids"
  by (auto simp: ackJournal_def wk_acked_def time_Now_def split: option.splits prod.splits dest!: Ack_acks_only)

lemma handleRequest_cases:
  assumes "handleRequest E r s = Some s'"
  obtains (sent) q c w where "SendQuery E r (wk_ch s) (wk_world s) = Some (q, c, w)" "rp_err q = None"
      "s' = ackJournal E (req_JournalIDs r) (s\<lparr>wk_ch := c, wk_world := w\<rparr>)"
    | (dumped) q c w s1 where "SendQuery E r (wk_ch s) (wk_world s) = Some (q, c, w)" "rp_err q \<noteq> None"
      "ch_Dump (req_Params r) (req_Content r) (rp_response q) (dump_kind (rp_status q)) (rp_status q)
         (s\<lparr>wk_ch := c, wk_world := w\<rparr>) = (Inr (), s1)"
      "s' = ackJournal E (req_JournalIDs r) s1"
    | (kept) q c w e where "SendQuery E r (wk_ch s) (wk_world s) = Some (q, c, w)" "rp_err q \<noteq> None"
      "ch_Dump (req_Params r) (req_Content r) (rp_response q) (dump_kind (rp_status q)) (rp_status q)
         (s\<lparr>wk_ch := c, wk_world := w\<rparr>) = (Inl e, s')"
proof -
  obtain q c w where q: "SendQuery E r (wk_ch s) (wk_world s) = Some (q, c, w)"
    using assms by (auto simp: handleRequest_def split: option.splits)
  obtain res s1 where d: "ch_Dump (req_Params r) (req_Content r) (rp_response q) (dump_kind (rp_status q))
      (rp_status q) (s\<lparr>wk_ch := c, wk_world := w\<rparr>) = (res, s1)" by (metis surj_pair)
  show ?thesis
  proof (cases "rp_err q")
    case None
    with assms q sent show ?thesis by (simp add: handleRequest_def)
  next
    case (Some e)
    with assms q d dumped kept show ?thesis
      by (cases res) (auto simp: handleRequest_def)
  qed
qed

lemma handleRequest_returns:
  "SendQuery E r (wk_ch s) (wk_world s) \<noteq> None \<Longrightarrow> handleRequest E r s \<noteq> None"
  by (auto simp: handleRequest_def Let_def split: option.splits sum.splits prod.splits)

lemma ch_Dump_frame:
  assumes "ch_Dump p c resp k st s = (res, s')"
  shows "wk_ch s' = wk_ch s" "wk_journal s' = wk_journal s" "wk_jdir s' = wk_jdir s" "wk_world s' = wk_world s"
  using assms by (auto simp: ch_Dump_def split: option.splits prod.splits)

lemma ch_Dump_written:
  assumes "ch_Dump p c resp k st s = (Inr (), s')" "wk_dumper s = Some d" "fd_MaxDumpFiles d \<le> 0"
  shows "map_of (dk_files (wk_disk s')) (dump_path d k st) = Some (dump_data p c resp)"
  using assms Dump_unpruned by (auto simp: ch_Dump_def update_conv' split: prod.splits)

text \<open>What becomes of a request: it was accepted, or it is in a dump, or the journal still has it.\<close>

definition settled :: "env \<Rightarrow> ClickhouseRequest \<Rightarrow> 'q worker \<Rightarrow> 'q worker \<Rightarrow> bool" where
  "settled E r s s' =
     (\<exists>q c w. SendQuery E r (wk_ch s) (wk_world s) = Some (q, c, w) \<and>
        (rp_err q = None \<and> rp_status q < 400
         \<or> rp_err q \<noteq> None \<and> (\<forall>d. wk_dumper s = Some d \<longrightarrow>
             map_of (dk_files (wk_disk s')) (dump_path d (dump_kind (rp_status q)) (rp_status q))
               = Some (dump_data (req_Params r) (req_Content r) (rp_response q)))
         \<or> rp_err q \<noteq> None \<and> wk_journal s' = wk_journal s \<and> wk_jdir s' = wk_jdir s))"

lemma handleRequest_settled:
  assumes "handleRequest E r s = Some s'" "\<And>d. wk_dumper s = Some d \<Longrightarrow> fd_MaxDumpFiles d \<le> 0"
  shows "settled E r s s'" "wk_acked s' \<subseteq> wk_acked s \<union> set (req_JournalIDs r)"
    "\<exists>ss. wk_ch s' = (wk_ch s)\<lparr>ch_Servers := ss\<rparr>"
proof -
  have "settled E r s s' \<and> wk_acked s' \<subseteq> wk_acked s \<union> set (req_JournalIDs r)
    \<and> (\<exists>ss. wk_ch s' = (wk_ch s)\<lparr>ch_Servers := ss\<rparr>)"
    using assms(1)
  proof (cases rule: handleRequest_cases)
    case (sent q c w)
    have "send_post (wk_ch s) q c" by (rule SendQuery_post [OF sent(1)])
    with sent ackJournal_acked [of E "req_JournalIDs r" "s\<lparr>wk_ch := c, wk_world := w\<rparr>"] show ?thesis
      by (auto simp: settled_def send_post_def wk_acked_def)
  next
    case (dumped q c w s1)
    have "send_post (wk_ch s) q c" by (rule SendQuery_post [OF dumped(1)])
    moreover have "map_of (dk_files (wk_disk s1)) (dump_path d (dump_kind (rp_status q)) (rp_status q))
        = Some (dump_data (req_Params r) (req_Content r) (rp_response q))" if "wk_dumper s = Some d" for d
      using ch_Dump_written [OF dumped(3)] that assms(2) by simp
    ultimately show ?thesis
      using dumped ackJournal_acked [of E "req_JournalIDs r" s1] ch_Dump_frame [OF dumped(3)]
      by (auto simp: settled_def send_post_def wk_acked_def)
  next
    case (kept q c w e)
    have "send_post (wk_ch s) q c" by (rule SendQuery_post [OF kept(1)])
    with kept ch_Dump_frame [OF kept(3)] show ?thesis
      by (auto simp: settled_def send_post_def wk_acked_def)
  qed
  then show "settled E r s s'" "wk_acked s' \<subseteq> wk_acked s \<union> set (req_JournalIDs r)"
    "\<exists>ss. wk_ch s' = (wk_ch s)\<lparr>ch_Servers := ss\<rparr>" by blast+
qed

lemma runStep_polled:
  assumes "fifo_api Q items" "items (ch_Queue (wk_ch s)) = r # rs"
  obtains q' where "items q' = rs"
    "runStep Q E s = map_option wg_Done (handleRequest E r (s\<lparr>wk_ch := (wk_ch s)\<lparr>ch_Queue := q'\<rparr>\<rparr>))"
proof -
  obtain q' where "q_Poll Q 1 (ch_Queue (wk_ch s)) = Some ([r], q')" "items q' = rs"
    using assms unfolding fifo_api_def by blast
  with that show ?thesis by (simp add: runStep_def)
qed

section \<open>The senders keep their promises\<close>

lemma clickhouse_is_sender:
  "sender (clickhouse_sender Q E) (\<lambda>_. fifo_api Q items) (\<lambda>(c, w). items (ch_Queue c))"
proof
  fix s q s' r assume "s_SendQuery (clickhouse_sender Q E) r s = Some (q, s')"
  then have "send_post (fst s) q (fst s')"
    by (cases s; cases s') (simp add: clickhouse_sender_def SendQuery_post)
  then show "(case s' of (c, w) \<Rightarrow> items (ch_Queue c)) = (case s of (c, w) \<Rightarrow> items (ch_Queue c))"
    by (auto simp: send_post_def split: prod.splits)
qed (auto simp: clickhouse_sender_def Send_def fifo_api_def split: prod.splits)

interpretation ch: sender "clickhouse_sender Q E" "\<lambda>_. fifo_api Q items" "\<lambda>(c, w). items (ch_Queue c)"
  for Q :: "'q queue_api" and E items
  by (rule clickhouse_is_sender)

text \<open>The pair of two senders is a sender to the one and to the other.\<close>

lemma dual_is_sender:
  assumes "sender L invL qL" "sender B invB qB"
  shows "sender (dual_sender L B) (\<lambda>d. invL (ds_live d) \<and> invB (ds_backup d)) (\<lambda>d. qL (ds_live d))"
    and "sender (dual_sender L B) (\<lambda>d. invL (ds_live d) \<and> invB (ds_backup d)) (\<lambda>d. qB (ds_backup d))"
  using assms
  by (unfold_locales; fastforce simp: dual_sender_def dual_Send_def dual_SendQuery_def
      dest: sender_Send sender.inv_SendQuery sender.queued_SendQuery)+

interpretation dual_live: sender "dual_sender (clickhouse_sender Q E) (clickhouse_sender Q' E')"
  "\<lambda>_. fifo_api Q items \<and> fifo_api Q' items'" "\<lambda>d. case ds_live d of (c, w) \<Rightarrow> items (ch_Queue c)"
  for Q :: "'q queue_api" and E items and Q' :: "'p queue_api" and E' items'
  by (rule dual_is_sender(1) [OF clickhouse_is_sender clickhouse_is_sender])

interpretation dual_backup: sender "dual_sender (clickhouse_sender Q E) (clickhouse_sender Q' E')"
  "\<lambda>_. fifo_api Q items \<and> fifo_api Q' items'" "\<lambda>d. case ds_backup d of (c, w) \<Rightarrow> items' (ch_Queue c)"
  for Q :: "'q queue_api" and E items and Q' :: "'p queue_api" and E' items'
  by (rule dual_is_sender(2) [OF clickhouse_is_sender clickhouse_is_sender])

end
