(* ===== verification/Clickhouse_Props.thy ===== *)
theory Clickhouse_Props
  imports Clickhouse_Facts Dumper_Props Journal_Log
begin

text \<open>
  The properties of the sender of a target and of the pair of senders, each with a witness
  where it has hypotheses.
\<close>

section \<open>A target to try the properties on\<close>

text \<open>A queue that is a list, and its items.\<close>

definition list_queue :: "ClickhouseRequest list queue_api" where
  "list_queue = \<lparr>q_Put = (\<lambda>r q. q @ [r]),
     q_Poll = (\<lambda>n q. if q = [] then None else Some (take n q, drop n q)),
     q_Len = (\<lambda>q. int (length q)), q_Empty = (\<lambda>q. q = [])\<rparr>"

lemma list_queue_fifo: "fifo_api list_queue (\<lambda>q. q)"
  by (simp add: fifo_api_def list_queue_def)

text \<open>A world in which a second passes between two readings and only the URL b answers.\<close>

definition demo_env :: env where
  "demo_env = \<lparr>env_clock = (\<lambda>n. (1000 + int n) * second),
     env_post = (\<lambda>n url ct body. if take 1 url = ''b'' then HttpReply 200 ''Ok.'' [] else PostFailed ''refused'')\<rparr>"

definition demo_request :: ClickhouseRequest where
  "demo_request = \<lparr>req_Params = ''db=d'', req_Query = ''INSERT INTO t VALUES'',
     req_Content = ''INSERT INTO t VALUES'' @ NL # ''(1)'', req_ContentType = [], req_Count = 1,
     req_JournalIDs = [1], req_isInsert = True, req_opaque = False\<rparr>"

definition demo_ch :: "string list \<Rightarrow> ClickhouseRequest list Clickhouse" where
  "demo_ch urls = foldr (\<lambda>u. AddServer u False) (rev urls) (NewClickhouse [demo_request] 60 10)"

definition demo_world :: world where
  "demo_world = \<lparr>w_ticks = 0, w_posts = 0, w_log = []\<rparr>"

lemma demo_minute: "duration_mult 1000000000 60 = 60000000000"
  by (simp add: duration_mult_exact max_duration_def)

lemma demo_request_fields: "req_Params demo_request = ''db=d''" "req_ContentType demo_request = []"
  by (simp_all add: demo_request_def)

lemmas query_eval = SendQuery_def demo_ch_def AddServer_def NewClickhouse_def GetNextServer_def
  time_Now_def still_bad_def demo_minute demo_env_def demo_world_def time_Sub_def max_duration_def
  server_SendQuery_def http_Post_def sendLoop.simps second_def Let_def demo_request_fields max_def min_def

section \<open>Choosing a server\<close>

text \<open>
  C28. \<open>GetNextServer\<close> finds no server exactly when all are marked bad within their down time;
  else the one it takes is usable and was asked least recently of all usable ones, it gets the
  time of the call, and its bad mark is cleared.
\<close>

theorem next_server_is_least_recent:
  assumes "GetNextServer E c w = (r, c', w')"
  shows "case r of
      None \<Rightarrow> \<forall>s \<in> set (ch_Servers c). still_bad (env_clock E (w_ticks w)) (ch_DownTimeout c) s
    | Some i \<Rightarrow> i < length (ch_Servers c)
        \<and> \<not> still_bad (env_clock E (w_ticks w)) (ch_DownTimeout c) (ch_Servers c ! i)
        \<and> (\<forall>s \<in> set (ch_Servers c). still_bad (env_clock E (w_ticks w)) (ch_DownTimeout c) s
             \<or> srv_LastRequest (ch_Servers c ! i) \<le> srv_LastRequest s)
        \<and> ch_Servers c' ! i = (ch_Servers c ! i)\<lparr>srv_Bad := False, srv_LastRequest := env_clock E (w_ticks w + 1)\<rparr>"
proof (cases r)
  case None
  with GetNextServer_None [of E c w c' w'] assms show ?thesis by (simp add: list_all_iff)
next
  case (Some i)
  with GetNextServer_Some [of E c w i c' w'] assms show ?thesis by simp
qed

theorem next_server_is_least_recent_witness:
  "fst (GetNextServer demo_env (demo_ch [''a'', ''b'']) demo_world) = Some 0
   \<and> \<not> still_bad (env_clock demo_env 0) 60 (ch_Servers (demo_ch [''a'', ''b'']) ! 0)"
proof -
  obtain r c' w' where g: "GetNextServer demo_env (demo_ch [''a'', ''b'']) demo_world = (r, c', w')"
    by (metis prod_cases3)
  have "fst (GetNextServer demo_env (demo_ch [''a'', ''b'']) demo_world) = Some 0" by code_simp
  with g have r: "r = Some 0" by simp
  have "ch_DownTimeout (demo_ch [''a'', ''b'']) = 60" "w_ticks demo_world = 0" by code_simp+
  with next_server_is_least_recent [OF g] r g show ?thesis by simp
qed

section \<open>A query\<close>


lemma demo_window: "in_window demo_env (env_clock demo_env 0) 60 0 4"
  by (auto simp: in_window_def demo_env_def second_def duration_mult_exact max_duration_def)


text \<open>
  C25. Outside this window it need not end: when every request fails and takes longer than the
  down time (a connect timeout of 10 seconds and a down timeout of 5, say), each server is
  usable again before the next turn, and \<open>SendQuery\<close> never returns; the worker then neither
  dumps the batch nor takes the next one.
\<close>

theorem query_never_ends:
  assumes "all_down_slow E (ch_DownTimeout c) (w_ticks w)" "stale E c (w_ticks w)"
  shows "SendQuery E r c w = None"
  using sendLoop_diverges [OF assms] by (simp add: SendQuery_def)

definition slow_env :: env where
  "slow_env = \<lparr>env_clock = (\<lambda>n. (1000 + 10 * int (n div 2)) * second),
     env_post = (\<lambda>n url ct body. PostFailed ''timeout'')\<rparr>"

theorem query_never_ends_witness:
  "SendQuery slow_env demo_request ((demo_ch [''a''])\<lparr>ch_DownTimeout := 5\<rparr>) demo_world = None"
proof (rule query_never_ends)
  let ?c = "(demo_ch [''a''])\<lparr>ch_DownTimeout := 5\<rparr>"
  have d: "duration_mult second 5 = 5 * second"
    by (simp add: duration_mult_exact second_def max_duration_def)
  have w: "w_ticks demo_world = 0" by (simp add: demo_world_def)
  have "Suc (2 * m) div 2 = m" "Suc (Suc (2 * m)) div 2 = Suc m" "m div 2 \<le> Suc m div 2" for m :: nat
    by (simp_all add: div_le_mono)
  then show "all_down_slow slow_env (ch_DownTimeout ?c) (w_ticks demo_world)"
    by (simp add: all_down_slow_def d w slow_env_def max_duration_def) (simp add: second_def)
  have "ch_Servers ?c = [\<lparr>srv_URL = ''a'', srv_LastRequest = 0, srv_Bad = False, srv_LogQueries = False\<rparr>]"
    by (simp add: demo_ch_def AddServer_def NewClickhouse_def)
  then show "stale slow_env ?c (w_ticks demo_world)" by (simp add: stale_def)
qed

text \<open>
  What a query can answer: success exactly for a status below 400; a dump of its request
  is marked as a client error exactly when ClickHouse itself answered with a status from 400 to
  501, never when no server could be reached; and the queue is left alone.
\<close>

theorem query_outcome:
  assumes "SendQuery E r c w = Some (q, c', w')"
  shows "(rp_err q = None) = (rp_status q < 400)
    \<and> (dump_kind (rp_status q) = dumpKindClientError) = (rp_err q = Some (ErrWrongStatus (rp_status q)))
    \<and> (rp_err q \<in> {None, Some ErrNoServers, Some (ErrWrongStatus (rp_status q))})
    \<and> ch_Queue c' = ch_Queue c"
  using SendQuery_post [OF assms] by (auto simp: send_post_def dump_kind_def dumpKindClientError_def)

theorem query_outcome_witness:
  "\<exists>q c' w'. SendQuery demo_env demo_request (demo_ch [''a'', ''b'']) demo_world = Some (q, c', w')
    \<and> rp_status q = 200 \<and> rp_err q = None \<and> ch_Queue c' = [demo_request]"
proof -
  have "map_option (\<lambda>(q, c, w). rp_status q) (SendQuery demo_env demo_request (demo_ch [''a'', ''b'']) demo_world) = Some 200"
    by (simp add: query_eval)
  then obtain q c' w' where q: "SendQuery demo_env demo_request (demo_ch [''a'', ''b'']) demo_world = Some (q, c', w')"
    "rp_status q = 200" by auto
  have "ch_Queue (demo_ch [''a'', ''b'']) = [demo_request]" by code_simp
  with query_outcome [OF q(1)] q show ?thesis by auto
qed

section \<open>The worker\<close>


definition demo_worker :: "string list \<Rightarrow> ClickhouseRequest list worker" where
  "demo_worker urls = \<lparr>wk_ch = demo_ch urls, wk_world = demo_world, wk_dumper = Some demo_dumper,
     wk_disk = demo_disk [] [], wk_journal = Some (fst demo), wk_jdir = snd demo\<rparr>"


section \<open>Live and backup\<close>

text \<open>
  The pair of senders: what is sent reaches the queues of both targets, each request once
  and in the order of the calls, while a query goes to the live target alone and leaves the
  backup target as it is.
\<close>

theorem dual_sender_reaches_both:
  assumes "fifo_api Q items" "fifo_api Q' items'"
  shows "items (ch_Queue (fst (ds_live (fold (s_Send (dual_sender (clickhouse_sender Q E) (clickhouse_sender Q' E'))) rs d))))
      = items (ch_Queue (fst (ds_live d))) @ rs
    \<and> items' (ch_Queue (fst (ds_backup (fold (s_Send (dual_sender (clickhouse_sender Q E) (clickhouse_sender Q' E'))) rs d))))
      = items' (ch_Queue (fst (ds_backup d))) @ rs
    \<and> (\<forall>r q d'. s_SendQuery (dual_sender (clickhouse_sender Q E) (clickhouse_sender Q' E')) r d = Some (q, d')
        \<longrightarrow> ds_backup d' = ds_backup d \<and> s_SendQuery (clickhouse_sender Q E) r (ds_live d) = Some (q, ds_live d'))"
  using dual_live.queued_sends [of Q items Q' items' E E' rs d]
    dual_backup.queued_sends [of Q items Q' items' E E' rs d] assms
  by (auto simp: dual_sender_def dual_SendQuery_def case_prod_beta)

theorem dual_sender_reaches_both_witness:
  "ch_Queue (fst (ds_backup (s_Send (dual_sender (clickhouse_sender list_queue demo_env) (clickhouse_sender list_queue demo_env))
     demo_request \<lparr>ds_live = (demo_ch [''a''], demo_world), ds_backup = (demo_ch [''b''], demo_world)\<rparr>)))
   = [demo_request, demo_request]"
proof -
  have "ch_Queue (demo_ch [''b'']) = [demo_request]" by code_simp
  with dual_sender_reaches_both [OF list_queue_fifo list_queue_fifo, of demo_env demo_env "[demo_request]"
      "\<lparr>ds_live = (demo_ch [''a''], demo_world), ds_backup = (demo_ch [''b''], demo_world)\<rparr>"]
  show ?thesis by simp
qed

end
