(* ===== verification/Locks.thy ===== *)
theory Locks
  imports Main
begin

text \<open>
  The mutexes of one target: \<open>c.mu\<close> of the Clickhouse object (clickhouse.go) and \<open>d.mu\<close> of its
  FileDumper (dump.go). An operation is the list of the locks it takes and gives back; threads
  run such lists, and a thread waits while another one holds the mutex it asks for.
\<close>

section \<open>Operations as sequences of lock operations\<close>

datatype mutex = ChMu | DumpMu

datatype lock_op = Lock mutex | Unlock mutex

definition getNextServer_locks :: "lock_op list" where
  "getNextServer_locks = [Lock ChMu, Unlock ChMu]"

text \<open>A query that tries \<open>n\<close> servers, and \<open>GetNextServer\<close> of the last attempt.\<close>

definition sendQuery_locks :: "nat \<Rightarrow> lock_op list" where
  "sendQuery_locks n = concat (replicate n getNextServer_locks)"

definition fileDump_locks :: "lock_op list" where
  "fileDump_locks = [Lock DumpMu, Unlock DumpMu]"

definition chDump_locks :: "lock_op list" where
  "chDump_locks = Lock ChMu # fileDump_locks @ [Unlock ChMu]"

definition dumpServers_locks :: "lock_op list" where
  "dumpServers_locks = [Lock ChMu, Unlock ChMu]"

text \<open>A turn of \<open>Run\<close> whose query fails, and one whose query succeeds.\<close>

definition failedTurn_locks :: "nat \<Rightarrow> lock_op list" where
  "failedTurn_locks n = sendQuery_locks n @ chDump_locks @ dumpServers_locks"

definition sentTurn_locks :: "nat \<Rightarrow> lock_op list" where
  "sentTurn_locks n = sendQuery_locks n @ dumpServers_locks"

text \<open>\<open>ProcessNextDump\<close> and \<open>ReplayFailed\<close> hold the mutex of the dumper while they query.\<close>

definition processNextDump_locks :: "nat \<Rightarrow> lock_op list" where
  "processNextDump_locks n = Lock DumpMu # sendQuery_locks n @ [Unlock DumpMu]"

section \<open>Threads\<close>

type_synonym lock_state = "(mutex \<Rightarrow> nat option) \<times> lock_op list list"

inductive lock_step :: "lock_state \<Rightarrow> lock_state \<Rightarrow> bool" where
  acquire: "i < length ps \<Longrightarrow> ps ! i = Lock m # p \<Longrightarrow> owner m = None \<Longrightarrow>
    lock_step (owner, ps) (owner(m \<mapsto> i), ps[i := p])"
| release: "i < length ps \<Longrightarrow> ps ! i = Unlock m # p \<Longrightarrow>
    lock_step (owner, ps) (owner(m := None), ps[i := p])"

definition start :: "lock_op list list \<Rightarrow> lock_state" where
  "start ps = (\<lambda>_. None, ps)"

definition deadlocked :: "lock_state \<Rightarrow> bool" where
  "deadlocked s = ((\<exists>i < length (snd s). snd s ! i \<noteq> []) \<and> \<not> (\<exists>s'. lock_step s s'))"

abbreviation lock_steps :: "lock_state \<Rightarrow> lock_state \<Rightarrow> bool" where
  "lock_steps \<equiv> lock_step\<^sup>*\<^sup>*"

inductive_cases lock_stepE: "lock_step (owner, ps) s'"

section \<open>Locks taken in order\<close>

text \<open>
  A sequence respects the order when it asks for \<open>ChMu\<close> only while it holds nothing, for
  \<open>DumpMu\<close> only while it does not hold it, and gives back what it holds.
\<close>

fun ordered :: "mutex set \<Rightarrow> lock_op list \<Rightarrow> bool" where
  "ordered H [] = (H = {})"
| "ordered H (Lock m # p) = ((if m = ChMu then H = {} else DumpMu \<notin> H) \<and> ordered (insert m H) p)"
| "ordered H (Unlock m # p) = (m \<in> H \<and> ordered (H - {m}) p)"

definition held :: "(mutex \<Rightarrow> nat option) \<Rightarrow> nat \<Rightarrow> mutex set" where
  "held owner i = {m. owner m = Some i}"

definition lock_inv :: "lock_state \<Rightarrow> bool" where
  "lock_inv s = ((\<forall>i < length (snd s). ordered (held (fst s) i) (snd s ! i))
     \<and> (\<forall>m i. fst s m = Some i \<longrightarrow> i < length (snd s)))"

lemma held_update:
  "owner m = None \<Longrightarrow> held (owner(m \<mapsto> i)) i = insert m (held owner i)"
  "j \<noteq> i \<Longrightarrow> owner m = None \<Longrightarrow> held (owner(m \<mapsto> i)) j = held owner j"
  "held (owner(m := None)) i = held owner i - {m}"
  by (auto simp: held_def)

lemma lock_inv_step: "lock_step s s' \<Longrightarrow> lock_inv s \<Longrightarrow> lock_inv s'"
proof (induction rule: lock_step.induct)
  case (acquire i ps m p owner)
  have o: "ordered (insert m (held owner i)) p"
    using acquire by (auto simp: lock_inv_def dest: spec [of _ i])
  show ?case
    unfolding lock_inv_def
  proof (intro conjI allI impI)
    fix j assume "j < length (snd (owner(m \<mapsto> i), ps[i := p]))"
    with acquire o show "ordered (held (fst (owner(m \<mapsto> i), ps[i := p])) j) (snd (owner(m \<mapsto> i), ps[i := p]) ! j)"
      by (cases "j = i") (auto simp: held_update lock_inv_def)
  qed (use acquire in \<open>auto simp: lock_inv_def split: if_splits\<close>)
next
  case (release i ps m p owner)
  have o: "m \<in> held owner i" "ordered (held owner i - {m}) p"
    using release by (auto simp: lock_inv_def dest: spec [of _ i])
  show ?case
    unfolding lock_inv_def
  proof (intro conjI allI impI)
    fix j assume "j < length (snd (owner(m := None), ps[i := p]))"
    moreover have "j \<noteq> i \<Longrightarrow> m \<notin> held owner j" using o(1) by (auto simp: held_def)
    ultimately show "ordered (held (fst (owner(m := None), ps[i := p])) j) (snd (owner(m := None), ps[i := p]) ! j)"
      using release o by (cases "j = i") (auto simp: held_update lock_inv_def)
  qed (use release in \<open>auto simp: lock_inv_def split: if_splits\<close>)
qed

lemma lock_inv_steps: "lock_steps s s' \<Longrightarrow> lock_inv s \<Longrightarrow> lock_inv s'"
  by (induction rule: rtranclp_induct) (auto intro: lock_inv_step)

lemma lock_inv_start: "\<forall>p \<in> set ps. ordered {} p \<Longrightarrow> lock_inv (start ps)"
  by (auto simp: lock_inv_def start_def held_def)

text \<open>In a state where nothing can move, an unfinished thread waits for a mutex that is held.\<close>

lemma stuck_waits:
  assumes "\<not> (\<exists>s'. lock_step (owner, ps) s')" "i < length ps" "ps ! i \<noteq> []"
  obtains m p j where "ps ! i = Lock m # p" "owner m = Some j"
proof (cases "ps ! i")
  case (Cons x p)
  show ?thesis
  proof (cases x)
    case (Lock m)
    with Cons assms that show ?thesis by (cases "owner m") (auto dest: lock_step.acquire)
  next
    case (Unlock m)
    with Cons assms show ?thesis by (auto dest: lock_step.release)
  qed
qed (use assms in simp)

lemma ordered_no_deadlock:
  assumes "lock_inv s"
  shows "\<not> deadlocked s"
proof
  assume d: "deadlocked s"
  obtain owner ps where s: "s = (owner, ps)" by (cases s)
  have st: "\<not> (\<exists>s'. lock_step (owner, ps) s')" using d s by (auto simp: deadlocked_def)
  obtain i where i: "i < length ps" "ps ! i \<noteq> []" using d s by (auto simp: deadlocked_def)
  have holder: "\<exists>m p j. ps ! k = Lock m # p \<and> owner m = Some j \<and> j < length ps \<and> ps ! j \<noteq> []"
    if k: "k < length ps" "ps ! k \<noteq> []" for k
  proof -
    obtain m p j where m: "ps ! k = Lock m # p" "owner m = Some j" by (rule stuck_waits [OF st k])
    have j: "j < length ps" "ordered (held owner j) (ps ! j)"
      using assms s m(2) by (auto simp: lock_inv_def)
    have "m \<in> held owner j" using m(2) by (simp add: held_def)
    then have "ps ! j \<noteq> []" using j(2) by auto
    with m j show ?thesis by blast
  qed
  have no_dump: False if k: "k < length ps" "ps ! k = Lock DumpMu # p" "owner DumpMu = Some j" for k p j
  proof -
    have j: "j < length ps" "ordered (held owner j) (ps ! j)" "DumpMu \<in> held owner j"
      using assms s k(3) by (auto simp: lock_inv_def held_def)
    then have "ps ! j \<noteq> []" by auto
    then obtain m q where "ps ! j = Lock m # q" using holder [OF j(1)] by blast
    with j show False by (cases m) (auto split: if_splits)
  qed
  obtain m p j where 1: "ps ! i = Lock m # p" "owner m = Some j" "j < length ps" "ps ! j \<noteq> []"
    using holder [OF i] by blast
  show False
  proof (cases m)
    case DumpMu
    with 1 i no_dump show False by blast
  next
    case ChMu
    have j: "ordered (held owner j) (ps ! j)" "ChMu \<in> held owner j"
      using assms s 1 ChMu by (auto simp: lock_inv_def held_def)
    obtain m' p' j' where 2: "ps ! j = Lock m' # p'" "owner m' = Some j'"
      using holder [OF 1(3,4)] by blast
    with j have "m' = DumpMu" by (cases m') auto
    with 2 1(3) no_dump show False by blast
  qed
qed

lemma ordered_append: "ordered {} p \<Longrightarrow> ordered {} q \<Longrightarrow> ordered {} (p @ q)"
proof -
  have "ordered H p \<Longrightarrow> ordered {} q \<Longrightarrow> ordered H (p @ q)" for H
    by (induction H p rule: ordered.induct) auto
  then show "ordered {} p \<Longrightarrow> ordered {} q \<Longrightarrow> ordered {} (p @ q)" by blast
qed

lemma ordered_sendQuery: "ordered {} (sendQuery_locks n)"
  by (induction n) (simp_all add: sendQuery_locks_def getNextServer_locks_def)

lemma ordered_turns:
  "ordered {} (failedTurn_locks n)" "ordered {} (sentTurn_locks n)"
proof -
  have d: "ordered {} chDump_locks" "ordered {} dumpServers_locks"
    by (simp_all add: chDump_locks_def fileDump_locks_def dumpServers_locks_def)
  then show "ordered {} (failedTurn_locks n)" "ordered {} (sentTurn_locks n)"
    by (simp_all add: failedTurn_locks_def sentTurn_locks_def ordered_append ordered_sendQuery)
qed

section \<open>The properties\<close>

text \<open>
  The worker and the handlers that query a target, any number of them in any interleaving,
  do not block each other for good: they take \<open>c.mu\<close> before \<open>d.mu\<close>.
\<close>

theorem turns_never_deadlock:
  assumes "\<forall>p \<in> set ps. \<exists>n. p = failedTurn_locks n \<or> p = sentTurn_locks n \<or> p = sendQuery_locks n"
    and "lock_steps (start ps) s"
  shows "\<not> deadlocked s"
proof -
  have "\<forall>p \<in> set ps. ordered {} p" using assms(1) ordered_turns ordered_sendQuery by metis
  then have "lock_inv (start ps)" by (rule lock_inv_start)
  with lock_inv_steps [OF assms(2)] have "lock_inv s" by blast
  then show ?thesis by (rule ordered_no_deadlock)
qed

theorem turns_never_deadlock_witness:
  "\<not> deadlocked (start [failedTurn_locks 2, sentTurn_locks 1, sendQuery_locks 1])"
  by (rule turns_never_deadlock [OF _ rtranclp.rtrancl_refl]) auto

text \<open>
  C27. The replay of dumps takes them in the other order: it holds \<open>d.mu\<close> while its query asks
  for \<open>c.mu\<close>. So a worker whose query failed and that is about to dump its batch, and the replay
  of the same target, can come to wait for each other for ever.
\<close>

theorem replay_and_worker_deadlock:
  assumes "0 < n"
  shows "\<exists>s. lock_steps (start [failedTurn_locks m, processNextDump_locks n]) s \<and> deadlocked s"
proof -
  let ?w = "Lock DumpMu # Unlock DumpMu # Unlock ChMu # dumpServers_locks"
  obtain k where k: "n = Suc k" using assms by (cases n) auto
  let ?r = "Lock ChMu # Unlock ChMu # sendQuery_locks k @ [Unlock DumpMu]"
  have r: "processNextDump_locks n = Lock DumpMu # ?r"
    by (simp add: processNextDump_locks_def k sendQuery_locks_def getNextServer_locks_def)
  have query: "lock_steps (\<lambda>_. None, [sendQuery_locks m @ p, q]) (\<lambda>_. None, [p, q])" for p q
  proof (induction m)
    case 0
    then show ?case by (simp add: sendQuery_locks_def)
  next
    case (Suc m)
    let ?p = "sendQuery_locks m @ p"
    have "lock_step (\<lambda>_. None, [Lock ChMu # Unlock ChMu # ?p, q]) ((\<lambda>_. None)(ChMu \<mapsto> 0), [Unlock ChMu # ?p, q])"
      using lock_step.acquire [of 0 "[Lock ChMu # Unlock ChMu # ?p, q]" ChMu _ "\<lambda>_. None"] by simp
    moreover have "lock_step ((\<lambda>_. None)(ChMu \<mapsto> 0), [Unlock ChMu # ?p, q]) (\<lambda>_. None, [?p, q])"
      using lock_step.release [of 0 "[Unlock ChMu # ?p, q]" ChMu _ "(\<lambda>_. None)(ChMu \<mapsto> 0)"]
      by (simp add: fun_upd_idem)
    moreover have "sendQuery_locks (Suc m) @ p = Lock ChMu # Unlock ChMu # ?p"
      by (simp add: sendQuery_locks_def getNextServer_locks_def)
    ultimately show ?case using Suc.IH by (metis converse_rtranclp_into_rtranclp)
  qed
  let ?s1 = "((\<lambda>_. None)(ChMu \<mapsto> 0), [?w, Lock DumpMu # ?r])"
  let ?s2 = "((\<lambda>_. None)(ChMu \<mapsto> 0, DumpMu \<mapsto> 1), [?w, ?r])"
  have "failedTurn_locks m = sendQuery_locks m @ Lock ChMu # ?w"
    by (simp add: failedTurn_locks_def chDump_locks_def fileDump_locks_def)
  then have 0: "lock_steps (start [failedTurn_locks m, processNextDump_locks n]) (\<lambda>_. None, [Lock ChMu # ?w, Lock DumpMu # ?r])"
    using query [of "Lock ChMu # ?w" "Lock DumpMu # ?r"] r by (simp add: start_def)
  have 1: "lock_step (\<lambda>_. None, [Lock ChMu # ?w, Lock DumpMu # ?r]) ?s1"
    using lock_step.acquire [of 0 "[Lock ChMu # ?w, Lock DumpMu # ?r]" ChMu ?w "\<lambda>_. None"] by simp
  have 2: "lock_step ?s1 ?s2"
    using lock_step.acquire [of 1 "[?w, Lock DumpMu # ?r]" DumpMu ?r "(\<lambda>_. None)(ChMu \<mapsto> 0)"] by simp
  have "\<not> lock_step ?s2 s'" for s'
  proof
    assume "lock_step ?s2 s'"
    then show False by (rule lock_stepE) (auto simp: less_Suc_eq numeral_2_eq_2)
  qed
  then have "deadlocked ?s2" by (auto simp: deadlocked_def)
  with 0 1 2 show ?thesis by (meson rtranclp.rtrancl_into_rtrancl)
qed

theorem replay_and_worker_deadlock_witness:
  "\<exists>s. lock_steps (start [failedTurn_locks 1, processNextDump_locks 1]) s \<and> deadlocked s"
  by (rule replay_and_worker_deadlock) simp

end
