(* ===== verification/Collector_Locks.thy ===== *)
theory Collector_Locks
  imports Prelude
begin

text \<open>
  The locks of the collector (collector.go): \<open>c.mu\<close>, a lock for readers and writers, and \<open>t.mu\<close> of each
  table. An operation is the list of the locks it takes and gives back; any number of goroutines run such lists.
\<close>

section \<open>Operations as sequences of lock operations\<close>

datatype coll_lock = CollMu | TableMu string

datatype rw_op = RLock coll_lock | RUnlock coll_lock | WLock coll_lock | WUnlock coll_lock

text \<open>A short look at a table: \<open>GetCount\<close>, \<open>CleanTable\<close>. And \<open>doFlush\<close>, in the middle of \<open>Add\<close> and \<open>CheckFlush\<close>.\<close>

definition table_locks :: "string \<Rightarrow> rw_op list" where
  "table_locks k = [WLock (TableMu k), WUnlock (TableMu k)]"

definition doFlush_locks :: "bool \<Rightarrow> string \<Rightarrow> rw_op list" where
  "doFlush_locks sends k = (if sends then [WUnlock (TableMu k), WLock (TableMu k)] else [])"

definition Add_locks :: "bool \<Rightarrow> string \<Rightarrow> rw_op list" where
  "Add_locks sends k = WLock (TableMu k) # doFlush_locks sends k @ [WUnlock (TableMu k)]"

definition CheckFlush_locks :: "bool \<Rightarrow> string \<Rightarrow> rw_op list" where
  "CheckFlush_locks sends k = WLock (TableMu k) # doFlush_locks sends k @ [WUnlock (TableMu k)]"

text \<open>\<open>Push\<close> to a table that it finds, and to one that it has to make or finds at the second look.\<close>

definition Push_locks :: "bool \<Rightarrow> bool \<Rightarrow> string \<Rightarrow> rw_op list" where
  "Push_locks found sends k =
     (if found then RLock CollMu # Add_locks sends k @ [RUnlock CollMu]
      else [RLock CollMu, RUnlock CollMu, WLock CollMu] @ Add_locks sends k @ [WUnlock CollMu])"

definition AddTable_locks :: "rw_op list" where
  "AddTable_locks = [WLock CollMu, WUnlock CollMu]"

text \<open>The operations on all tables, for the tables they come to and what they find there.\<close>

definition FlushAll_locks :: "(bool \<times> string) list \<Rightarrow> rw_op list" where
  "FlushAll_locks ks = WLock CollMu # concat (map (\<lambda>(sends, k). CheckFlush_locks sends k) ks) @ [WUnlock CollMu]"

definition Empty_locks :: "string list \<Rightarrow> rw_op list" where
  "Empty_locks ks = WLock CollMu # concat (map table_locks ks) @ [WUnlock CollMu]"

definition CleanTables_locks :: "string list \<Rightarrow> rw_op list" where
  "CleanTables_locks ks = WLock CollMu # concat (map table_locks ks) @ [WUnlock CollMu]"

definition tablesClean_locks :: "(bool \<times> string) list \<Rightarrow> rw_op list" where
  "tablesClean_locks ks = WLock CollMu
     # concat (map (\<lambda>(remove, k). table_locks k @ (if remove then table_locks k else [])) ks) @ [WUnlock CollMu]"

text \<open>What the goroutines of the program run: inserts, timers of tables, flushes, cleanings, and the end.\<close>

inductive coll_thread :: "rw_op list \<Rightarrow> bool" where
  push: "coll_thread (Push_locks found sends k)"
| tick: "coll_thread (CheckFlush_locks sends k)"
| flush_all: "coll_thread (FlushAll_locks ks)"
| is_empty: "coll_thread (Empty_locks names)"
| clean: "coll_thread (CleanTables_locks names)"
| clean_empty: "coll_thread (tablesClean_locks ks)"
| add_table: "coll_thread AddTable_locks"
| seq: "coll_thread p \<Longrightarrow> coll_thread q \<Longrightarrow> coll_thread (p @ q)"

section \<open>Threads\<close>

text \<open>
  \<open>sync.RWMutex\<close>: a writer first announces itself, and from then on no new reader enters; it gets the lock when
  the readers have left. Which of several waiting threads comes next is left open. A mutex is such a lock without readers.
\<close>

record rw_state =
  writer :: "coll_lock \<Rightarrow> nat option"
  pending :: "coll_lock \<Rightarrow> nat option"
  readers :: "coll_lock \<Rightarrow> nat set"
  progs :: "rw_op list list"

definition rw_start :: "rw_op list list \<Rightarrow> rw_state" where
  "rw_start ps = \<lparr>writer = (\<lambda>_. None), pending = (\<lambda>_. None), readers = (\<lambda>_. {}), progs = ps\<rparr>"

inductive rw_step :: "rw_state \<Rightarrow> rw_state \<Rightarrow> bool" where
  rlock: "i < length (progs s) \<Longrightarrow> progs s ! i = RLock m # p \<Longrightarrow> writer s m = None \<Longrightarrow> pending s m = None \<Longrightarrow>
    rw_step s (s\<lparr>readers := (readers s)(m := insert i (readers s m)), progs := (progs s)[i := p]\<rparr>)"
| runlock: "i < length (progs s) \<Longrightarrow> progs s ! i = RUnlock m # p \<Longrightarrow>
    rw_step s (s\<lparr>readers := (readers s)(m := readers s m - {i}), progs := (progs s)[i := p]\<rparr>)"
| announce: "i < length (progs s) \<Longrightarrow> progs s ! i = WLock m # p \<Longrightarrow> writer s m = None \<Longrightarrow> pending s m = None \<Longrightarrow>
    rw_step s (s\<lparr>pending := (pending s)(m \<mapsto> i)\<rparr>)"
| wlock: "i < length (progs s) \<Longrightarrow> progs s ! i = WLock m # p \<Longrightarrow> pending s m = Some i \<Longrightarrow> readers s m = {} \<Longrightarrow>
    rw_step s (s\<lparr>pending := (pending s)(m := None), writer := (writer s)(m \<mapsto> i), progs := (progs s)[i := p]\<rparr>)"
| wunlock: "i < length (progs s) \<Longrightarrow> progs s ! i = WUnlock m # p \<Longrightarrow>
    rw_step s (s\<lparr>writer := (writer s)(m := None), progs := (progs s)[i := p]\<rparr>)"

abbreviation rw_steps :: "rw_state \<Rightarrow> rw_state \<Rightarrow> bool" where
  "rw_steps \<equiv> rw_step\<^sup>*\<^sup>*"

definition rw_finished :: "rw_state \<Rightarrow> bool" where
  "rw_finished s = (\<forall>p \<in> set (progs s). p = [])"

section \<open>Locks taken in order\<close>

text \<open>The lock of the collector comes before those of the tables, and of these a thread holds one at a time.\<close>

fun rank :: "coll_lock \<Rightarrow> nat" where
  "rank CollMu = 0"
| "rank (TableMu k) = 1"

fun in_order :: "coll_lock set \<Rightarrow> coll_lock set \<Rightarrow> rw_op list \<Rightarrow> bool" where
  "in_order W R [] = (W = {} \<and> R = {})"
| "in_order W R (WLock m # p) = ((\<forall>x \<in> W \<union> R. rank x < rank m) \<and> in_order (insert m W) R p)"
| "in_order W R (RLock m # p) = ((\<forall>x \<in> W \<union> R. rank x < rank m) \<and> in_order W (insert m R) p)"
| "in_order W R (WUnlock m # p) = (m \<in> W \<and> in_order (W - {m}) R p)"
| "in_order W R (RUnlock m # p) = (m \<in> R \<and> in_order W (R - {m}) p)"

definition writes :: "rw_state \<Rightarrow> nat \<Rightarrow> coll_lock set" where
  "writes s i = {m. writer s m = Some i}"

definition reads :: "rw_state \<Rightarrow> nat \<Rightarrow> coll_lock set" where
  "reads s i = {m. i \<in> readers s m}"

definition rw_inv :: "rw_state \<Rightarrow> bool" where
  "rw_inv s = ((\<forall>i < length (progs s). in_order (writes s i) (reads s i) (progs s ! i))
     \<and> (\<forall>m i. writer s m = Some i \<longrightarrow> i < length (progs s))
     \<and> (\<forall>m i. i \<in> readers s m \<longrightarrow> i < length (progs s))
     \<and> (\<forall>m i. pending s m = Some i \<longrightarrow> i < length (progs s) \<and> writer s m = None \<and> (\<exists>p. progs s ! i = WLock m # p)))"

lemma rw_inv_start: "\<forall>p \<in> set ps. in_order {} {} p \<Longrightarrow> rw_inv (rw_start ps)"
  by (auto simp: rw_inv_def rw_start_def writes_def reads_def)

lemma in_order_next:
  assumes "rw_inv s" "i < length (progs s)"
  shows "in_order (writes s i) (reads s i) (progs s ! i)"
  using assms by (simp add: rw_inv_def)

lemma pending_next:
  assumes "rw_inv s" "pending s m = Some i"
  shows "\<exists>p. progs s ! i = WLock m # p"
  using assms unfolding rw_inv_def by blast

lemma rw_inv_step: "rw_step s t \<Longrightarrow> rw_inv s \<Longrightarrow> rw_inv t"
proof (induction rule: rw_step.induct)
  case (rlock i s m p)
  let ?t = "s\<lparr>readers := (readers s)(m := insert i (readers s m)), progs := (progs s)[i := p]\<rparr>"
  have w: "writes ?t j = writes s j" "reads ?t j = (if j = i then insert m (reads s j) else reads s j)" for j
    by (auto simp: writes_def reads_def)
  have "pending s m' \<noteq> Some i" for m' using pending_next [OF rlock(5), of m' i] rlock(2) by auto
  with in_order_next [OF rlock(5,1)] rlock show ?case
    by (auto simp: rw_inv_def w nth_list_update)
next
  case (runlock i s m p)
  let ?t = "s\<lparr>readers := (readers s)(m := readers s m - {i}), progs := (progs s)[i := p]\<rparr>"
  have w: "writes ?t j = writes s j" "reads ?t j = (if j = i then reads s j - {m} else reads s j)" for j
    by (auto simp: writes_def reads_def)
  have "pending s m' \<noteq> Some i" for m' using pending_next [OF runlock(3), of m' i] runlock(2) by auto
  with in_order_next [OF runlock(3,1)] runlock show ?case
    by (auto simp: rw_inv_def w nth_list_update)
next
  case (announce i s m p)
  have w: "writes (s\<lparr>pending := x\<rparr>) j = writes s j" "reads (s\<lparr>pending := x\<rparr>) j = reads s j" for j x
    by (auto simp: writes_def reads_def)
  from announce show ?case by (auto simp: rw_inv_def w)
next
  case (wlock i s m p)
  let ?t = "s\<lparr>pending := (pending s)(m := None), writer := (writer s)(m \<mapsto> i), progs := (progs s)[i := p]\<rparr>"
  have "writer s m = None" using wlock by (auto simp: rw_inv_def)
  then have w: "writes ?t j = (if j = i then insert m (writes s j) else writes s j)" "reads ?t j = reads s j" for j
    by (auto simp: writes_def reads_def)
  have o: "in_order (insert m (writes s i)) (reads s i) p" using in_order_next [OF wlock(5,1)] wlock(2) by simp
  have pe: "m' = m" if "pending s m' = Some i" for m' using pending_next [OF wlock(5) that] wlock(2) by auto
  show ?case
    unfolding rw_inv_def
  proof (intro conjI allI impI)
    fix j assume "j < length (progs ?t)"
    with in_order_next [OF wlock(5), of j] o show "in_order (writes ?t j) (reads ?t j) (progs ?t ! j)"
      unfolding w by (cases "j = i") simp_all
  next
    fix m' j assume "writer ?t m' = Some j"
    with wlock(1,5) show "j < length (progs ?t)" by (cases "m' = m") (auto simp: rw_inv_def)
  next
    fix m' j assume "j \<in> readers ?t m'"
    with wlock(5) show "j < length (progs ?t)" by (auto simp: rw_inv_def)
  next
    fix m' j assume "pending ?t m' = Some j"
    then have n: "m' \<noteq> m" "pending s m' = Some j" by (simp_all split: if_splits)
    with wlock(5) have "j < length (progs s)" "writer s m' = None" unfolding rw_inv_def by blast+
    moreover have "j \<noteq> i" using n pe by blast
    ultimately show "j < length (progs ?t)" "writer ?t m' = None" "\<exists>p. progs ?t ! j = WLock m' # p"
      using pending_next [OF wlock(5) n(2)] n(1) by simp_all
  qed
next
  case (wunlock i s m p)
  let ?t = "s\<lparr>writer := (writer s)(m := None), progs := (progs s)[i := p]\<rparr>"
  have o: "m \<in> writes s i" "in_order (writes s i - {m}) (reads s i) p" using in_order_next [OF wunlock(3,1)] wunlock(2) by auto
  then have w: "writes ?t j = (if j = i then writes s j - {m} else writes s j)" "reads ?t j = reads s j" for j
    by (auto simp: writes_def reads_def)
  have "pending s m' \<noteq> Some i" for m' using pending_next [OF wunlock(3), of m' i] wunlock(2) by auto
  with o wunlock show ?case by (auto simp: rw_inv_def w nth_list_update)
qed

lemma rw_inv_steps: "rw_steps s t \<Longrightarrow> rw_inv s \<Longrightarrow> rw_inv t"
  by (induction rule: rtranclp_induct) (auto intro: rw_inv_step)

text \<open>A thread that cannot move waits for a lock, which another unfinished thread holds.\<close>

definition awaits :: "rw_state \<Rightarrow> nat \<Rightarrow> coll_lock \<Rightarrow> bool" where
  "awaits s i m = (i < length (progs s) \<and> (\<exists>p. progs s ! i = WLock m # p \<or> progs s ! i = RLock m # p))"

lemma stuck_awaits:
  assumes "\<not> (\<exists>t. rw_step s t)" "i < length (progs s)" "progs s ! i \<noteq> []"
  shows "\<exists>m. awaits s i m"
proof (cases "progs s ! i")
  case (Cons a p)
  with assms show ?thesis by (cases a) (auto simp: awaits_def dest: rw_step.runlock rw_step.wunlock)
qed (use assms in simp)

lemma stuck_holder:
  assumes "\<not> (\<exists>t. rw_step s t)" "rw_inv s" "awaits s i m"
  shows "\<exists>j < length (progs s). m \<in> writes s j \<union> reads s j"
proof -
  have "writer s m \<noteq> None \<or> pending s m \<noteq> None"
    using assms(1,3) by (auto simp: awaits_def dest: rw_step.announce rw_step.rlock)
  then consider (w) j where "writer s m = Some j" | (p) j where "pending s m = Some j" by auto
  then show ?thesis
  proof cases
    case w
    with assms(2) show ?thesis by (auto simp: rw_inv_def writes_def)
  next
    case p
    with assms(2) have "j < length (progs s) \<and> (\<exists>q. progs s ! j = WLock m # q)" unfolding rw_inv_def by blast
    then obtain q where "j < length (progs s)" "progs s ! j = WLock m # q" by blast
    with p assms(1) have "readers s m \<noteq> {}" by (auto dest: rw_step.wlock)
    then obtain l where "l \<in> readers s m" by blast
    moreover from this have "l < length (progs s)" using assms(2) unfolding rw_inv_def by blast
    ultimately show ?thesis by (auto simp: reads_def)
  qed
qed

lemma stuck_finished:
  assumes "\<not> (\<exists>t. rw_step s t)" "rw_inv s"
  shows "rw_finished s"
proof (rule ccontr)
  assume "\<not> rw_finished s"
  then obtain i where "i < length (progs s)" "progs s ! i \<noteq> []" by (auto simp: rw_finished_def in_set_conv_nth)
  from stuck_awaits [OF assms(1) this] obtain m where m: "awaits s i m" ..
  have up: "\<exists>j m'. awaits s j m' \<and> rank m < rank m'" if a: "awaits s i m" for i m
  proof -
    obtain j where j: "j < length (progs s)" "m \<in> writes s j \<union> reads s j"
      using stuck_holder [OF assms a] by blast
    have o: "in_order (writes s j) (reads s j) (progs s ! j)" by (rule in_order_next [OF assms(2) j(1)])
    with j(2) have "progs s ! j \<noteq> []" by auto
    from stuck_awaits [OF assms(1) j(1) this] obtain m' where m': "awaits s j m'" ..
    with o j(2) have "rank m < rank m'" by (auto simp: awaits_def)
    with m' show ?thesis by blast
  qed
  have "rank m \<le> 1" for m by (cases m) auto
  with up [OF m] up show False by (metis le_less_trans less_one linorder_not_less not_less_zero)
qed

section \<open>The operations respect the order\<close>

lemma in_order_append: "in_order W R p \<Longrightarrow> in_order {} {} q \<Longrightarrow> in_order W R (p @ q)"
  by (induction W R p rule: in_order.induct) auto

text \<open>A piece that leaves the locks held as they are, before the rest.\<close>

lemma table_section:
  "in_order W R p \<Longrightarrow> \<forall>x \<in> W \<union> R. x = CollMu \<Longrightarrow> in_order W R (Add_locks sends k @ p)"
  "in_order W R p \<Longrightarrow> \<forall>x \<in> W \<union> R. x = CollMu \<Longrightarrow> in_order W R (CheckFlush_locks sends k @ p)"
  "in_order W R p \<Longrightarrow> \<forall>x \<in> W \<union> R. x = CollMu \<Longrightarrow> in_order W R (table_locks k @ p)"
proof -
  assume p: "in_order W R p" and c: "\<forall>x \<in> W \<union> R. x = CollMu"
  have d1: "rank x = 0" if "x \<in> W \<union> R" for x using bspec [OF c that] by simp
  have d: "insert (TableMu k) W - {TableMu k} = W" "\<forall>x \<in> W \<union> R. rank x = 0"
    using c d1 by auto
  show "in_order W R (table_locks k @ p)" using p d by (simp add: table_locks_def)
  show "in_order W R (Add_locks sends k @ p)" using p d by (simp add: Add_locks_def doFlush_locks_def)
  show "in_order W R (CheckFlush_locks sends k @ p)" using p d by (simp add: CheckFlush_locks_def doFlush_locks_def)
qed

lemma all_tables:
  assumes "\<And>x p. x \<in> set xs \<Longrightarrow> in_order {CollMu} {} p \<Longrightarrow> in_order {CollMu} {} (f x @ p)"
  shows "in_order {} {} (WLock CollMu # concat (map f xs) @ [WUnlock CollMu])"
proof -
  have "in_order {CollMu} {} (concat (map f xs) @ [WUnlock CollMu])"
    using assms by (induction xs) auto
  then show ?thesis by simp
qed

lemma coll_thread_in_order: "coll_thread p \<Longrightarrow> in_order {} {} p"
proof (induction rule: coll_thread.induct)
  case (push found sends k)
  show ?case using table_section(1) [of "{}" "{CollMu}" "[RUnlock CollMu]" sends k] table_section(1) [of "{CollMu}" "{}" "[WUnlock CollMu]" sends k]
    by (simp add: Push_locks_def)
next
  case (tick sends k)
  show ?case using table_section(2) [of "{}" "{}" "[]" sends k] by simp
next
  case (flush_all ks)
  show ?case unfolding FlushAll_locks_def by (rule all_tables) (auto intro: table_section)
next
  case (is_empty names)
  show ?case unfolding Empty_locks_def by (rule all_tables) (auto intro: table_section)
next
  case (clean names)
  show ?case unfolding CleanTables_locks_def by (rule all_tables) (auto intro: table_section)
next
  case (clean_empty ks)
  have "in_order {CollMu} {} ((case x of (remove, k) \<Rightarrow> table_locks k @ (if remove then table_locks k else [])) @ p)"
    if "in_order {CollMu} {} p" for x p
    using table_section(3) [OF that] table_section(3) [OF table_section(3) [OF that]] by (cases x) simp
  then show ?case unfolding tablesClean_locks_def by (intro all_tables)
next
  case (seq p q)
  then show ?case by (simp add: in_order_append)
qed (simp add: AddTable_locks_def)

text \<open>
  C26. The goroutines that use the collector never block each other for good, however many there are, whatever tables
  they use and however they interleave: inserts (which hold \<open>c.mu\<close> as readers while they flush a table), timers, flushes of
  all tables, cleanings, the questions of the end whether all is empty. In every state they reach, some thread can go on or all
  have finished.
\<close>

theorem collector_never_deadlocks:
  assumes "\<forall>p \<in> set ps. coll_thread p" "rw_steps (rw_start ps) s"
  shows "(\<exists>t. rw_step s t) \<or> rw_finished s"
proof -
  have "rw_inv (rw_start ps)" using assms(1) coll_thread_in_order by (intro rw_inv_start) blast
  with rw_inv_steps [OF assms(2)] stuck_finished show ?thesis by blast
qed

text \<open>An insert is inside when a flush of all tables announces itself; the flush waits, and the insert goes on.\<close>

theorem collector_never_deadlocks_witness:
  "\<exists>s. rw_steps (rw_start [Push_locks True True ''k'', FlushAll_locks [(True, ''k'')]]) s
    \<and> readers s CollMu = {0} \<and> pending s CollMu = Some 1 \<and> \<not> rw_finished s \<and> (\<exists>t. rw_step s t)"
proof -
  let ?p = "Add_locks True ''k'' @ [RUnlock CollMu]" and ?q = "FlushAll_locks [(True, ''k'')]"
  let ?s0 = "rw_start [Push_locks True True ''k'', ?q]"
  let ?s1 = "?s0\<lparr>readers := (\<lambda>_. {})(CollMu := {0}), progs := [?p, ?q]\<rparr>"
  let ?s2 = "?s1\<lparr>pending := (\<lambda>_. None)(CollMu \<mapsto> 1)\<rparr>"
  have p: "Push_locks True True ''k'' = RLock CollMu # ?p" by (simp add: Push_locks_def)
  obtain q where q: "?q = WLock CollMu # q" by (simp add: FlushAll_locks_def)
  have 1: "rw_step ?s0 ?s1"
    using rw_step.rlock [of 0 ?s0 CollMu ?p] p by (simp add: rw_start_def)
  have 2: "rw_step ?s1 ?s2"
    using rw_step.announce [of 1 ?s1 CollMu q] q by (simp add: rw_start_def)
  from 1 2 have r: "rw_steps ?s0 ?s2" by (meson converse_rtranclp_into_rtranclp rtranclp.rtrancl_refl)
  have f: "readers ?s2 CollMu = {0}" "pending ?s2 CollMu = Some 1" "\<not> rw_finished ?s2"
    using q by (simp_all add: rw_finished_def)
  have "\<forall>p \<in> set [Push_locks True True ''k'', ?q]. coll_thread p" by (simp add: coll_thread.push coll_thread.flush_all)
  from collector_never_deadlocks [OF this r] f(3) have "\<exists>t. rw_step ?s2 t" by blast
  with r f show ?thesis by blast
qed

end
