(* ===== verification/Opaque.thy ===== *)
theory Opaque
  imports Go_Codec
begin

text \<open>
  Which inserts bypass batching (opaque.go), with the regular expressions of the program as
  matching functions, and Go's \<open>mime.ParseMediaType\<close>. A regular expression matches at the
  first position where it can; case folding is that of ASCII.
\<close>

section \<open>Regular expressions\<close>

text \<open>The class \<open>\s\<close>, which unlike \<open>TrimSpace\<close> lacks the vertical tab, and word characters.\<close>

definition re_space :: "char \<Rightarrow> bool" where
  "re_space c = (let n = of_char c :: nat in n = 32 \<or> n = 9 \<or> n = 10 \<or> n = 12 \<or> n = 13)"

definition re_word :: "char \<Rightarrow> bool" where
  "re_word c = (is_alnum c \<or> c = CHR 0x5F)"

text \<open>The first position at which a matcher succeeds, with the length of its match.\<close>

fun find_re :: "(string \<Rightarrow> nat option) \<Rightarrow> string \<Rightarrow> (nat \<times> nat) option" where
  "find_re m [] = map_option (\<lambda>n. (0, n)) (m [])"
| "find_re m (x # xs) = (case m (x # xs) of
     Some n \<Rightarrow> Some (0, n)
   | None \<Rightarrow> map_option (\<lambda>(i, n). (i + 1, n)) (find_re m xs))"

text \<open>\<open>regexGetFormat\<close>, \<open>(?i)format\s(\S+)\<close>: the match of its group.\<close>

definition format_word :: "string \<Rightarrow> string option" where
  "format_word s =
     (if HasPrefix s ''format'' \<and> 6 < length s \<and> re_space (s ! 6) then
        (let w = takeWhile (\<lambda>c. \<not> re_space c) (drop 7 s) in if w = [] then None else Some w)
      else None)"

definition regexGetFormat :: "string \<Rightarrow> string option" where
  "regexGetFormat s = (case find_re (\<lambda>t. map_option length (format_word t)) s of
     None \<Rightarrow> None
   | Some (i, _) \<Rightarrow> format_word (drop i s))"

text \<open>\<open>regexFormat\<close>, \<open>(?i)format\s\S+(\s+)\<close>: the end of its match.\<close>

definition format_spaces :: "string \<Rightarrow> nat option" where
  "format_spaces s = (case format_word s of
     None \<Rightarrow> None
   | Some w \<Rightarrow>
       (let sp = takeWhile re_space (drop (7 + length w) s)
        in if sp = [] then None else Some (7 + length w + length sp)))"

definition regexFormat :: "string \<Rightarrow> nat option" where
  "regexFormat s = map_option (\<lambda>(i, n). i + n) (find_re format_spaces s)"

text \<open>\<open>regexValues\<close>, \<open>(?i)\svalues\s\<close>: the end of its match.\<close>

definition values_match :: "string \<Rightarrow> nat option" where
  "values_match s =
     (if 8 \<le> length s \<and> re_space (s ! 0) \<and> HasPrefix (tl s) ''values'' \<and> re_space (s ! 7)
      then Some 8 else None)"

definition regexValues :: "string \<Rightarrow> nat option" where
  "regexValues s = map_option (\<lambda>(i, n). i + n) (find_re values_match s)"

text \<open>
  \<open>opaqueFormatInQuery\<close>: the word format, white space and one of the binary formats, each
  between word boundaries. The first argument is the character before the text.
\<close>

definition opaque_formats :: "string list" where
  "opaque_formats = [''Native'', ''RowBinary'', ''Parquet'', ''Arrow'', ''ArrowStream'', ''ORC'', ''Protobuf'']"

definition after_word :: "string \<Rightarrow> bool" where
  "after_word s = (s \<noteq> [] \<and> re_word (last s))"

definition word_ends :: "string \<Rightarrow> bool" where
  "word_ends s = (s = [] \<or> \<not> re_word (hd s))"

definition opaque_format_at :: "string \<Rightarrow> bool" where
  "opaque_format_at s =
     (HasPrefix s ''format'' \<and>
      (let r = drop 6 s; t = dropWhile re_space r
       in t \<noteq> r \<and> list_ex (\<lambda>f. HasPrefix t f \<and> word_ends (drop (length f) t)) opaque_formats))"

fun opaque_format_from :: "bool \<Rightarrow> string \<Rightarrow> bool" where
  "opaque_format_from w [] = False"
| "opaque_format_from w (x # xs) =
     ((\<not> w \<and> opaque_format_at (x # xs)) \<or> opaque_format_from (re_word x) xs)"

definition opaqueFormatInQuery :: "string \<Rightarrow> bool" where
  "opaqueFormatInQuery s = opaque_format_from False s"

section \<open>Media types\<close>

definition is_tspecial :: "char \<Rightarrow> bool" where
  "is_tspecial c = (c \<in> set (''()<>@,;:/[]?='' @ [CHR 0x5C, CHR 0x22]))"

definition is_token_char :: "char \<Rightarrow> bool" where
  "is_token_char c = (let n = of_char c :: nat in 0x20 < n \<and> n < 0x7F \<and> \<not> is_tspecial c)"

definition consume_token :: "string \<Rightarrow> string \<times> string" where
  "consume_token v = (takeWhile is_token_char v, dropWhile is_token_char v)"

text \<open>The rest of a quoted string after its opening quote; \<^term>\<open>None\<close> where it is not closed.\<close>

fun consume_quoted :: "string \<Rightarrow> (string \<times> string) option" where
  "consume_quoted [] = None"
| "consume_quoted (c # cs) =
     (if c = CHR 0x22 then Some ([], cs)
      else if c = CHR 0x5C \<and> cs \<noteq> [] \<and> is_tspecial (hd cs) then
        map_option (\<lambda>(s, r). (hd cs # s, r)) (consume_quoted (tl cs))
      else if c = CHR 0x0D \<or> c = CHR 0x0A then None
      else map_option (\<lambda>(s, r). (c # s, r)) (consume_quoted cs))"

definition consume_value :: "string \<Rightarrow> string \<times> string" where
  "consume_value v =
     (if v = [] then ([], v)
      else if hd v \<noteq> CHR 0x22 then consume_token v
      else (case consume_quoted (tl v) of None \<Rightarrow> ([], v) | Some p \<Rightarrow> p))"

text \<open>A parameter: its name, its value and what follows; \<^term>\<open>None\<close> where there is none.\<close>

definition consume_param :: "string \<Rightarrow> (string \<times> string \<times> string) option" where
  "consume_param v =
     (let r = trim_left v
      in if \<not> starts_with r '';'' then None
         else (case consume_token (trim_left (tl r)) of (key, r) \<Rightarrow>
           if key = [] then None
           else
             (let r = trim_left r
              in if \<not> starts_with r ''='' then None
                 else
                   (let r = trim_left (tl r)
                    in case consume_value r of (val, r2) \<Rightarrow>
                      if val = [] \<and> r2 = r then None else Some (to_lower key, val, r2)))))"

text \<open>
  The loop over the parameters: whether it ends without an error, with the fuel that the length
  of the text provides (a parameter consumes at least one character).
\<close>

fun media_params_ok :: "nat \<Rightarrow> (string \<times> string) list \<Rightarrow> string \<Rightarrow> bool" where
  "media_params_ok 0 ps v = True"
| "media_params_ok (Suc n) ps v =
     (let v = trim_left v
      in if v = [] then True
         else (case consume_param v of
             None \<Rightarrow> trim_space v = '';''
           | Some (key, val, rest) \<Rightarrow>
               (case map_of ps key of
                  Some val' \<Rightarrow> val' = val \<and> media_params_ok n ps rest
                | None \<Rightarrow> media_params_ok n ((key, val) # ps) rest)))"

definition media_type_ok :: "string \<Rightarrow> bool" where
  "media_type_ok s = (case consume_token s of (typ, rest) \<Rightarrow>
     typ \<noteq> [] \<and> (rest = [] \<or> hd rest = CHR ''/'' \<and>
       (case consume_token (tl rest) of (sub, rest) \<Rightarrow> sub \<noteq> [] \<and> rest = [])))"

text \<open>\<open>mime.ParseMediaType\<close>: the media type, or \<^term>\<open>None\<close> for an error.\<close>

definition ParseMediaType :: "string \<Rightarrow> string option" where
  "ParseMediaType v =
     (let base = takeWhile (\<lambda>c. c \<noteq> CHR '';'') v;
          mt = trim_space (to_lower base);
          rest = drop (length base) v
      in if media_type_ok mt \<and> media_params_ok (length rest) [] rest then Some mt else None)"

section \<open>opaque.go\<close>

definition formatValues :: string where
  "formatValues = ''values''"

fun queryFromParts :: "string list \<Rightarrow> string" where
  "queryFromParts [] = []"
| "queryFromParts (p # ps) =
     (if \<not> HasPrefix p ''query='' then queryFromParts ps
      else
        (let raw = drop 6 p;
             raw = (case index_of ''&'' raw of None \<Rightarrow> raw | Some j \<Rightarrow> take j raw)
         in case QueryUnescape raw of None \<Rightarrow> raw | Some q \<Rightarrow> q))"

definition queryFromParams :: "string \<Rightarrow> string" where
  "queryFromParams params = queryFromParts (split_on (CHR ''&'') params)"

definition insertQueryString :: "string \<Rightarrow> string \<Rightarrow> string" where
  "insertQueryString params body =
     (let q = queryFromParams params
      in if q \<noteq> [] then q
         else if body = [] then []
         else (case index_of [NL] body of
             Some i \<Rightarrow> trim_space (take i body)
           | None \<Rightarrow> trim_space body))"

definition paramsIndicateInsert :: "string \<Rightarrow> bool" where
  "paramsIndicateInsert params =
     (let q = queryFromParams params in q \<noteq> [] \<and> HasPrefix (trim_space q) ''insert'')"

definition isInsertParamsOrBody :: "string \<Rightarrow> string \<Rightarrow> bool" where
  "isInsertParamsOrBody params body =
     (if paramsIndicateInsert params then True
      else if body = [] then False
      else HasPrefix (trim_space (if 256 < length body then take 256 body else body)) ''insert'')"

definition insertFormatFromQuery :: "string \<Rightarrow> string \<Rightarrow> string" where
  "insertFormatFromQuery params body = (case regexGetFormat (insertQueryString params body) of
     Some f \<Rightarrow> trim_space f
   | None \<Rightarrow> formatValues)"

definition normalizeFormatName :: "string \<Rightarrow> string" where
  "normalizeFormatName format = to_lower (trim_space format)"

definition isListedBatchFormat :: "string list \<Rightarrow> string \<Rightarrow> bool" where
  "isListedBatchFormat batchFormats format =
     list_ex (\<lambda>bf. normalizeFormatName bf = normalizeFormatName format) batchFormats"

definition isOctetStreamContentType :: "string \<Rightarrow> bool" where
  "isOctetStreamContentType contentType =
     (if contentType = [] then False
      else
        (let mt = (case ParseMediaType contentType of
               Some mt \<Rightarrow> mt
             | None \<Rightarrow> trim_space (hd (split_on (CHR '';'') contentType)))
         in to_lower mt = ''application/octet-stream''))"

definition outboundContentType :: "string \<Rightarrow> string \<Rightarrow> string" where
  "outboundContentType clientCT insertQuery =
     (case (if clientCT = [] then None else ParseMediaType clientCT) of
        Some mt \<Rightarrow> if mt \<noteq> [] then mt
                   else if opaqueFormatInQuery insertQuery then ''application/octet-stream'' else ''text/plain''
      | None \<Rightarrow> if opaqueFormatInQuery insertQuery then ''application/octet-stream'' else ''text/plain'')"

definition shouldOpaqueInsert :: "bool \<Rightarrow> string list \<Rightarrow> string \<Rightarrow> string \<Rightarrow> string \<Rightarrow> bool" where
  "shouldOpaqueInsert forceAll batchFormats contentType params body =
     (if forceAll then isInsertParamsOrBody params body
      else if batchFormats \<noteq> [] then
        (if \<not> isInsertParamsOrBody params body then False
         else \<not> isListedBatchFormat batchFormats (insertFormatFromQuery params body))
      else if isOctetStreamContentType contentType \<and> isInsertParamsOrBody params body then True
      else
        (let q = insertQueryString params body in q \<noteq> [] \<and> opaqueFormatInQuery q))"

end
