(* ===== verification/Collector.thy ===== *)
theory Collector
  imports Opaque Sender Journal Go_Time "HOL-Library.AList"
begin

text \<open>
  The collector of inserts (collector.go). An operation that may hand batches to the sender
  takes the sender interface and its state; its result is \<^term>\<open>None\<close> where the Go code panics.
  A table's mutex is given back around the call of \<open>Send\<close>; the operations here run one after
  the other.
\<close>

section \<open>State\<close>

record Table =
  t_Name :: string
  t_Format :: string
  t_Query :: string
  t_Params :: string
  t_Rows :: "string list"
  t_JournalIDs :: "u64 list"
  t_count :: int
  t_FlushCount :: int
  t_FlushInterval :: int
  t_Ticker :: bool
  t_lastUpdate :: nanos

text \<open>The tables by their key, in the order an iteration over the map takes.\<close>

record Collector =
  c_Tables :: "(string \<times> Table) list"
  c_Count :: int
  c_FlushInterval :: int
  c_CleanInterval :: int
  c_RemoveQueryID :: bool
  c_OpaqueInsert :: bool
  c_BatchFormats :: "string list"

definition NewTable :: "string \<Rightarrow> int \<Rightarrow> int \<Rightarrow> Table" where
  "NewTable name count interval = \<lparr>t_Name = name, t_Format = [], t_Query = [], t_Params = [],
     t_Rows = [], t_JournalIDs = [], t_count = 0, t_FlushCount = count,
     t_FlushInterval = interval, t_Ticker = False, t_lastUpdate = 0\<rparr>"

definition NewCollector :: "int \<Rightarrow> int \<Rightarrow> int \<Rightarrow> bool \<Rightarrow> bool \<Rightarrow> string list \<Rightarrow> Collector" where
  "NewCollector count interval cleanInterval removeQueryID opaqueInsert batchFormats =
     \<lparr>c_Tables = [], c_Count = count, c_FlushInterval = interval, c_CleanInterval = cleanInterval,
      c_RemoveQueryID = removeQueryID, c_OpaqueInsert = opaqueInsert, c_BatchFormats = batchFormats\<rparr>"

section \<open>A table\<close>

definition Content :: "Table \<Rightarrow> string" where
  "Content t =
     (let rowDelimiter = (if t_Format t = ''RowBinary'' then [] else [NL])
      in t_Query t @ [NL] @ join rowDelimiter (t_Rows t))"

definition table_request :: "Table \<Rightarrow> ClickhouseRequest" where
  "table_request t = \<lparr>req_Params = t_Params t, req_Query = t_Query t, req_Content = Content t,
     req_ContentType = [], req_Count = int (length (t_Rows t)), req_JournalIDs = t_JournalIDs t,
     req_isInsert = True, req_opaque = False\<rparr>"

text \<open>\<open>doFlush\<close>; \<open>make([]string, 0, t.FlushCount)\<close> panics for a negative capacity.\<close>

definition doFlush :: "'s Sender \<Rightarrow> Table \<Rightarrow> 's \<Rightarrow> (Table \<times> 's) option" where
  "doFlush S t s =
     (if t_count t = 0 then Some (t, s)
      else if t_FlushCount t < 0 then None
      else Some (t\<lparr>t_Rows := [], t_JournalIDs := [], t_count := 0\<rparr>, s_Send S (table_request t) s))"

text \<open>\<open>Table.Flush\<close> and \<open>Table.GetCount\<close>, which the tests use.\<close>

definition Flush :: "'s Sender \<Rightarrow> Table \<Rightarrow> 's \<Rightarrow> (Table \<times> 's) option" where
  "Flush S t s = doFlush S t s"

definition GetCount :: "Table \<Rightarrow> int" where
  "GetCount t = t_count t"

definition CheckFlush :: "'s Sender \<Rightarrow> Table \<Rightarrow> 's \<Rightarrow> (bool \<times> Table \<times> 's) option" where
  "CheckFlush S t s =
     (if 0 < t_count t then map_option (\<lambda>(t, s). (True, t, s)) (doFlush S t s)
      else Some (False, t, s))"

definition table_Empty :: "Table \<Rightarrow> bool" where
  "table_Empty t = (t_count t = 0)"

definition Add :: "'s Sender \<Rightarrow> nanos \<Rightarrow> string \<Rightarrow> u64 \<Rightarrow> Table \<Rightarrow> 's \<Rightarrow> (Table \<times> 's) option" where
  "Add S now text journalID t s =
     (let t = t\<lparr>t_count := t_count t + 1\<rparr>;
          t = (if 0 < journalID then t\<lparr>t_JournalIDs := t_JournalIDs t @ [journalID]\<rparr> else t);
          t = (if t_Format t = ''TabSeparated'' then t\<lparr>t_Rows := t_Rows t @ split_on NL text\<rparr>
               else t\<lparr>t_Rows := t_Rows t @ [text]\<rparr>)
      in map_option (\<lambda>(t, s). (t\<lparr>t_lastUpdate := now\<rparr>, s))
           (if t_FlushCount t \<le> int (length (t_Rows t)) then doFlush S t s else Some (t, s)))"

definition CleanTable :: "Table \<Rightarrow> Table" where
  "CleanTable t = t\<lparr>t_Ticker := False\<rparr>"

section \<open>The key of a table\<close>

fun separateParts :: "string list \<Rightarrow> string \<times> string \<Rightarrow> string \<times> string" where
  "separateParts [] (query, params) = (query, params)"
| "separateParts (p # ps) (query, params) =
     (if HasPrefix p ''query='' then separateParts ps (drop 6 p, params)
      else separateParts ps (query, params @ ''&'' @ p))"

definition separateQuery :: "string \<Rightarrow> string \<times> string" where
  "separateQuery name =
     (case separateParts (split_on (CHR ''&'') name) ([], []) of (query, params) \<Rightarrow>
        (let params = (if 0 < length params then trim_space (drop 1 params) else params)
         in case QueryUnescape query of
              None \<Rightarrow> ([], name)
            | Some q \<Rightarrow> (q, params)))"

definition getFormat :: "string \<Rightarrow> string" where
  "getFormat query = (case regexGetFormat query of Some f \<Rightarrow> trim_space f | None \<Rightarrow> formatValues)"

text \<open>\<open>addTable\<close>; the ticker of the table panics for an interval that is not positive.\<close>

definition new_table :: "string \<Rightarrow> nanos \<Rightarrow> Collector \<Rightarrow> Table" where
  "new_table name now c = (case separateQuery name of (query, params) \<Rightarrow>
     (NewTable name (c_Count c) (c_FlushInterval c))\<lparr>t_Query := query, t_Params := params,
        t_Format := getFormat query, t_Ticker := True, t_lastUpdate := now\<rparr>)"

definition addTable :: "string \<Rightarrow> nanos \<Rightarrow> Collector \<Rightarrow> (Table \<times> Collector) option" where
  "addTable name now c =
     (if duration_mult millisecond (c_FlushInterval c) \<le> 0 then None
      else (let t = new_table name now c
            in Some (t, c\<lparr>c_Tables := AList.update name t (c_Tables c)\<rparr>)))"

text \<open>\<open>Collector.AddTable\<close>, which the tests use.\<close>

definition AddTable :: "string \<Rightarrow> nanos \<Rightarrow> Collector \<Rightarrow> Collector option" where
  "AddTable name now c = map_option snd (addTable name now c)"

section \<open>Pushing\<close>

fun withoutQueryID :: "string list \<Rightarrow> string" where
  "withoutQueryID [] = []"
| "withoutQueryID (p # ps) =
     (if \<not> HasPrefix p ''query_id='' then ''&'' @ p @ withoutQueryID ps else withoutQueryID ps)"

definition push_key :: "Collector \<Rightarrow> string \<Rightarrow> string" where
  "push_key c paramsIn =
     (if c_RemoveQueryID c then
        (let params = withoutQueryID (split_on (CHR ''&'') paramsIn)
         in if 0 < length params then trim_space (drop 1 params) else params)
      else paramsIn)"

definition Push :: "'s Sender \<Rightarrow> nanos \<Rightarrow> string \<Rightarrow> string \<Rightarrow> u64 \<Rightarrow> Collector \<Rightarrow> 's
    \<Rightarrow> (Collector \<times> 's) option" where
  "Push S now paramsIn content journalID c s =
     (let params = push_key c paramsIn
      in case (case map_of (c_Tables c) params of
                 Some t \<Rightarrow> Some (t, c)
               | None \<Rightarrow> addTable params now c) of
           None \<Rightarrow> None
         | Some (t, c) \<Rightarrow>
             map_option (\<lambda>(t, s). (c\<lparr>c_Tables := AList.update params t (c_Tables c)\<rparr>, s))
               (Add S now content journalID t s))"

definition opaque_request :: "string \<Rightarrow> string \<Rightarrow> string \<Rightarrow> u64 \<Rightarrow> ClickhouseRequest" where
  "opaque_request params content contentType journalID =
     \<lparr>req_Params = params, req_Query = insertQueryString params content, req_Content = content,
      req_ContentType = contentType, req_Count = 1,
      req_JournalIDs = (if 0 < journalID then [journalID] else []),
      req_isInsert = True, req_opaque = True\<rparr>"

definition PushOpaque :: "'s Sender \<Rightarrow> string \<Rightarrow> string \<Rightarrow> string \<Rightarrow> u64 \<Rightarrow> 's \<Rightarrow> 's" where
  "PushOpaque S params content contentType journalID s =
     s_Send S (opaque_request params content contentType journalID) s"

definition ReplayJournalRecord :: "'s Sender \<Rightarrow> nanos \<Rightarrow> journalRecord \<Rightarrow> Collector \<Rightarrow> 's
    \<Rightarrow> (Collector \<times> 's) option" where
  "ReplayJournalRecord S now r c s =
     (let content = (if rec_Opaque r \<and> rec_ContentB64 r \<noteq> [] then
                       (case b64_decode (rec_ContentB64 r) of Some b \<Rightarrow> b | None \<Rightarrow> rec_Content r)
                     else rec_Content r)
      in if rec_Opaque r then
           (let ct = (if rec_ContentType r = []
                      then outboundContentType [] (insertQueryString (rec_Params r) content)
                      else rec_ContentType r)
            in Some (c, PushOpaque S (rec_Params r) content ct (rec_ID r) s))
         else Push S now (rec_Params r) content (rec_ID r) c s)"

section \<open>All tables\<close>

definition collector_Empty :: "Collector \<Rightarrow> bool" where
  "collector_Empty c = list_all (\<lambda>(k, t). table_Empty t) (c_Tables c)"

fun flushTables :: "'s Sender \<Rightarrow> (string \<times> Table) list \<Rightarrow> 's
    \<Rightarrow> (nat \<times> (string \<times> Table) list \<times> 's) option" where
  "flushTables S [] s = Some (0, [], s)"
| "flushTables S ((k, t) # ts) s = (case CheckFlush S t s of
     None \<Rightarrow> None
   | Some (ok, t, s) \<Rightarrow>
       map_option (\<lambda>(n, ts, s). (if ok then n + 1 else n, (k, t) # ts, s)) (flushTables S ts s))"

definition FlushAll :: "'s Sender \<Rightarrow> Collector \<Rightarrow> 's \<Rightarrow> (nat \<times> Collector \<times> 's) option" where
  "FlushAll S c s =
     map_option (\<lambda>(n, ts, s). (n, c\<lparr>c_Tables := ts\<rparr>, s)) (flushTables S (c_Tables c) s)"

text \<open>One tick of the timer of a table, by its key: nothing happens if it is gone.\<close>

definition tableTick :: "'s Sender \<Rightarrow> string \<Rightarrow> Collector \<Rightarrow> 's \<Rightarrow> (Collector \<times> 's) option" where
  "tableTick S k c s = (case map_of (c_Tables c) k of
     None \<Rightarrow> Some (c, s)
   | Some t \<Rightarrow>
       map_option (\<lambda>(_, t, s). (c\<lparr>c_Tables := AList.update k t (c_Tables c)\<rparr>, s)) (CheckFlush S t s))"

definition is_idle :: "nanos \<Rightarrow> Collector \<Rightarrow> Table \<Rightarrow> bool" where
  "is_idle now c t = (t_lastUpdate t + duration_mult millisecond (c_CleanInterval c) < now)"

definition CleanTables :: "nanos \<Rightarrow> Collector \<Rightarrow> Collector" where
  "CleanTables now c = c\<lparr>c_Tables := filter (\<lambda>(k, t). \<not> is_idle now c t) (c_Tables c)\<rparr>"

text \<open>The handler of /debug/tables-clean (server.go): only empty tables go.\<close>

definition tablesCleanHandler :: "Collector \<Rightarrow> Collector" where
  "tablesCleanHandler c = c\<lparr>c_Tables := filter (\<lambda>(k, t). \<not> table_Empty t) (c_Tables c)\<rparr>"

section \<open>Parsing an insert\<close>

text \<open>The loop that looks for the end of the format name, from position \<open>c\<close> on.\<close>

fun formatEnd :: "bool \<Rightarrow> nat \<Rightarrow> string \<Rightarrow> nat option" where
  "formatEnd w c [] = None"
| "formatEnd w c (x # xs) =
     (let stop = (x = CHR '' '' \<or> x = NL \<or> x = CHR '';''); w = (w \<or> \<not> stop)
      in if w \<and> stop then Some (c + 1) else formatEnd w (c + 1) xs)"

definition Parse :: "string \<Rightarrow> string \<times> string" where
  "Parse text =
     (let i = index_of ''FORMAT'' text;
          k = (case index_of ''VALUES'' text of None \<Rightarrow> index_of ''values'' text | Some k \<Rightarrow> Some k)
      in case (i, k) of
           (Some i, Some k) \<Rightarrow>
             (if i < k then
                (case formatEnd False (i + 7) (drop (i + 7) text) of
                   Some off \<Rightarrow> (take off text, drop off text)
                 | None \<Rightarrow> ([], []))
              else (trim_space (take (k + 6) text), trim_space (drop (k + 6) text)))
         | (None, Some k) \<Rightarrow> (trim_space (take (k + 6) text), trim_space (drop (k + 6) text))
         | (_, None) \<Rightarrow>
             (case regexFormat text of
                Some off \<Rightarrow> (take off text, drop off text)
              | None \<Rightarrow>
                  (case regexValues text of
                     Some off \<Rightarrow> (take off text, drop off text)
                   | None \<Rightarrow> (text, []))))"

definition ParseQuery :: "string \<Rightarrow> string \<Rightarrow> string \<times> string \<times> bool" where
  "ParseQuery queryString body =
     (case index_of ''query='' queryString of
        Some i \<Rightarrow>
          (let rest = drop (i + 6) queryString;
               insrt = HasPrefix rest ''insert'';
               (q, params) = (case index_of ''&'' rest of
                   Some eoq \<Rightarrow> (take eoq rest, take i queryString @ drop (eoq + i + 7) queryString)
                 | None \<Rightarrow> (rest, take i queryString))
           in case QueryUnescape q of
                None \<Rightarrow> (queryString, body, False)
              | Some uq \<Rightarrow>
                  (let uq = (if body \<noteq> [] then uq @ '' '' @ body else uq);
                       (kw, content) = Parse uq;
                       params = (if ends_with params ''&'' \<or> params = []
                                 then params @ ''query='' @ QueryEscape (trim_space kw)
                                 else params @ ''&query='' @ QueryEscape (trim_space kw))
                   in (trim_space params, trim_space content, insrt)))
      | None \<Rightarrow>
          (let (q, content) = Parse body;
               q = trim_space q;
               insrt = HasPrefix q ''insert'';
               params = (if queryString \<noteq> [] then queryString @ ''&query='' @ QueryEscape q
                         else ''query='' @ QueryEscape q)
           in (trim_space params, trim_space content, insrt)))"

end
