(* ===== verification/Collector_Facts.thy ===== *)
theory Collector_Facts
  imports Collector Clickhouse_Facts "HOL-Library.Multiset"
begin

text \<open>
  Lemmas on the collector: what one table sends for a run of inserts, and that no operation
  loses or doubles a journal number, proved for any sender that keeps its promises.
\<close>

section \<open>Batching, as a function on lists\<close>

text \<open>
  The reference for one table: the texts are split into rows, and a batch is cut as soon as the
  rows collected reach the limit. The result is the batches and the rows that wait.
\<close>

fun cut_batches :: "int \<Rightarrow> string list \<Rightarrow> string list list \<Rightarrow> string list list \<times> string list" where
  "cut_batches limit acc [] = ([], acc)"
| "cut_batches limit acc (rows # rest) =
     (let acc = acc @ rows
      in if limit \<le> int (length acc)
         then (case cut_batches limit [] rest of (bs, w) \<Rightarrow> (acc # bs, w))
         else cut_batches limit acc rest)"

lemma cut_batches_concat: "concat (fst (cut_batches n acc rs)) @ snd (cut_batches n acc rs) = acc @ concat rs"
  by (induction n acc rs rule: cut_batches.induct) (auto simp: Let_def split: prod.splits)

lemma cut_batches_waiting:
  "int (length acc) < n \<Longrightarrow> int (length (snd (cut_batches n acc rs))) < n"
  by (induction n acc rs rule: cut_batches.induct) (auto simp: Let_def split: prod.splits)

lemma cut_batches_size:
  assumes "b \<in> set (fst (cut_batches n acc rs))" "int (length acc) < n" "\<And>r. r \<in> set rs \<Longrightarrow> length r \<le> m"
  shows "n \<le> int (length b) \<and> int (length b) < n + int m"
  using assms
proof (induction n acc rs rule: cut_batches.induct)
  case (1 limit acc)
  then show ?case by simp
next
  case (2 limit acc rows rest)
  have m: "length rows \<le> m" "\<And>r. r \<in> set rest \<Longrightarrow> length r \<le> m" using "2.prems"(3) by auto
  show ?case
  proof (cases "limit \<le> int (length (acc @ rows))")
    case True
    then have "b = acc @ rows \<or> b \<in> set (fst (cut_batches limit [] rest))"
      using "2.prems"(1) by (auto split: prod.splits)
    then show ?thesis
    proof
      assume "b = acc @ rows"
      with True m(1) "2.prems"(2) show ?thesis by auto
    next
      assume "b \<in> set (fst (cut_batches limit [] rest))"
      from "2.IH"(1) [OF refl True this _ m(2)] show ?thesis using "2.prems"(2) by auto
    qed
  next
    case False
    with "2.prems"(1) have "b \<in> set (fst (cut_batches limit (acc @ rows) rest))" by simp
    from "2.IH"(2) [OF refl False this _ m(2)] False show ?thesis by auto
  qed
qed

section \<open>One table\<close>

definition rows_of :: "Table \<Rightarrow> string \<Rightarrow> string list" where
  "rows_of t text = (if t_Format t = ''TabSeparated'' then split_on NL text else [text])"

lemma rows_of_not_Nil [simp]: "rows_of t text \<noteq> []"
  by (simp add: rows_of_def)

text \<open>A table counts the inserts it holds: no rows, no numbers, when the count is zero.\<close>

definition table_ok :: "Table \<Rightarrow> bool" where
  "table_ok t = (0 \<le> t_count t \<and> (t_count t = 0 \<longleftrightarrow> t_Rows t = []) \<and> (t_Rows t = [] \<longrightarrow> t_JournalIDs t = []))"

definition batch_request :: "Table \<Rightarrow> string list \<Rightarrow> u64 list \<Rightarrow> ClickhouseRequest" where
  "batch_request t rows ids = table_request (t\<lparr>t_Rows := rows, t_JournalIDs := ids\<rparr>)"

definition id_list :: "u64 \<Rightarrow> u64 list" where
  "id_list i = (if 0 < i then [i] else [])"

lemma Add_cases:
  assumes "table_ok t" "0 \<le> t_FlushCount t"
  shows "Add S now text i t s =
    (let rows = t_Rows t @ rows_of t text; ids = t_JournalIDs t @ id_list i
     in if t_FlushCount t \<le> int (length rows)
        then Some (t\<lparr>t_Rows := [], t_JournalIDs := [], t_count := 0, t_lastUpdate := now\<rparr>,
                   s_Send S (batch_request t rows ids) s)
        else Some (t\<lparr>t_Rows := rows, t_JournalIDs := ids, t_count := t_count t + 1, t_lastUpdate := now\<rparr>, s))"
proof -
  have "t_count t + 1 \<noteq> 0" using assms(1) by (auto simp: table_ok_def)
  with assms(2) show ?thesis
    by (cases t) (simp add: Add_def doFlush_def rows_of_def id_list_def batch_request_def
        table_request_def Content_def Let_def add.commute)
qed

lemma Add_flush:
  "table_ok t \<Longrightarrow> 0 \<le> t_FlushCount t \<Longrightarrow> t_FlushCount t \<le> int (length (t_Rows t @ rows_of t text)) \<Longrightarrow>
   Add S now text i t s = Some (t\<lparr>t_Rows := [], t_JournalIDs := [], t_count := 0, t_lastUpdate := now\<rparr>,
     s_Send S (batch_request t (t_Rows t @ rows_of t text) (t_JournalIDs t @ id_list i)) s)"
  by (simp add: Add_cases Let_def)

lemma Add_keep:
  "table_ok t \<Longrightarrow> 0 \<le> t_FlushCount t \<Longrightarrow> \<not> t_FlushCount t \<le> int (length (t_Rows t @ rows_of t text)) \<Longrightarrow>
   Add S now text i t s = Some (t\<lparr>t_Rows := t_Rows t @ rows_of t text, t_JournalIDs := t_JournalIDs t @ id_list i,
     t_count := t_count t + 1, t_lastUpdate := now\<rparr>, s)"
  by (simp add: Add_cases Let_def)

lemma Add_ok: "table_ok t \<Longrightarrow> 0 \<le> t_FlushCount t \<Longrightarrow> Add S now text i t s = Some (t', s') \<Longrightarrow> table_ok t'"
  by (auto simp: Add_cases Let_def table_ok_def split: if_splits)

lemma doFlush_cases:
  assumes "table_ok t" "0 \<le> t_FlushCount t"
  shows "doFlush S t s = Some (t\<lparr>t_Rows := [], t_JournalIDs := [], t_count := 0\<rparr>,
    if t_Rows t = [] then s else s_Send S (table_request t) s)"
  using assms by (cases t) (auto simp: doFlush_def table_ok_def)

lemma CheckFlush_cases:
  assumes "table_ok t" "0 \<le> t_FlushCount t"
  shows "CheckFlush S t s = Some (t_Rows t \<noteq> [], t\<lparr>t_Rows := [], t_JournalIDs := [], t_count := 0\<rparr>,
    if t_Rows t = [] then s else s_Send S (table_request t) s)"
proof (cases "t_Rows t = []")
  case True
  with assms have "t_count t = 0" "t_JournalIDs t = []" by (auto simp: table_ok_def)
  with True show ?thesis by (cases t) (simp add: CheckFlush_def)
next
  case False
  with assms have "0 < t_count t" unfolding table_ok_def by linarith
  with False assms show ?thesis by (simp add: CheckFlush_def doFlush_cases)
qed

text \<open>A run of inserts into one table.\<close>

fun add_all :: "'s Sender \<Rightarrow> nanos \<Rightarrow> (string \<times> u64) list \<Rightarrow> Table \<Rightarrow> 's \<Rightarrow> (Table \<times> 's) option" where
  "add_all S now [] t s = Some (t, s)"
| "add_all S now ((text, i) # xs) t s = (case Add S now text i t s of
     None \<Rightarrow> None
   | Some (t, s) \<Rightarrow> add_all S now xs t s)"


text \<open>What an insert does not change, so that requests of a table look alike throughout.\<close>

definition same_table :: "Table \<Rightarrow> Table \<Rightarrow> bool" where
  "same_table t u = (t_Format t = t_Format u \<and> t_Query t = t_Query u \<and> t_Params t = t_Params u
     \<and> t_FlushCount t = t_FlushCount u)"

lemma same_table_simps:
  "same_table t u \<Longrightarrow> batch_request t = batch_request u"
  "same_table t u \<Longrightarrow> rows_of t = rows_of u"
  by (auto simp: same_table_def batch_request_def table_request_def Content_def rows_of_def fun_eq_iff)

context batch_queue
begin

lemma queued_add_all:
  assumes "inv s" "table_ok t" "0 < t_FlushCount t" "int (length (t_Rows t)) < t_FlushCount t"
  shows "\<exists>t' s' idss. add_all S now xs t s = Some (t', s') \<and> inv s' \<and> same_table t' t
    \<and> t_Rows t' = snd (cut_batches (t_FlushCount t) (t_Rows t) (map (\<lambda>x. rows_of t (fst x)) xs))
    \<and> length idss = length (fst (cut_batches (t_FlushCount t) (t_Rows t) (map (\<lambda>x. rows_of t (fst x)) xs)))
    \<and> queued s' = queued s @ map2 (batch_request t)
        (fst (cut_batches (t_FlushCount t) (t_Rows t) (map (\<lambda>x. rows_of t (fst x)) xs))) idss
    \<and> concat idss @ t_JournalIDs t' = t_JournalIDs t @ concat (map (\<lambda>x. id_list (snd x)) xs)"
  using assms
proof (induction xs arbitrary: t s)
  case Nil
  then show ?case by (auto simp: same_table_def)
next
  case (Cons x xs)
  obtain b i where x: "x = (b, i)" by (cases x)
  let ?rows = "t_Rows t @ rows_of t b" and ?ids = "t_JournalIDs t @ id_list i"
  let ?rs = "map (\<lambda>x. rows_of t (fst x)) xs"
  have fc: "0 \<le> t_FlushCount t" using Cons.prems(3) by simp
  show ?case
  proof (cases "t_FlushCount t \<le> int (length ?rows)")
    case True
    let ?t = "t\<lparr>t_Rows := [], t_JournalIDs := [], t_count := 0, t_lastUpdate := now\<rparr>"
    let ?s = "s_Send S (batch_request t ?rows ?ids) s"
    have a: "Add S now b i t s = Some (?t, ?s)"
      using True by (rule Add_flush [OF Cons.prems(2) fc])
    have st: "same_table ?t t" by (simp add: same_table_def)
    have "inv ?s" "table_ok ?t" "0 < t_FlushCount ?t" "int (length (t_Rows ?t)) < t_FlushCount ?t"
      using Cons.prems inv_Send by (auto simp: table_ok_def)
    from Cons.IH [OF this] obtain t' s' idss where ih: "add_all S now xs ?t ?s = Some (t', s')" "inv s'"
      "same_table t' ?t" "t_Rows t' = snd (cut_batches (t_FlushCount t) [] ?rs)"
      "length idss = length (fst (cut_batches (t_FlushCount t) [] ?rs))"
      "queued s' = queued ?s @ map2 (batch_request t) (fst (cut_batches (t_FlushCount t) [] ?rs)) idss"
      "concat idss @ t_JournalIDs t' = concat (map (\<lambda>x. id_list (snd x)) xs)"
      by (auto simp: same_table_simps [OF st])
    show ?thesis
      using ih a True queued_Send [OF Cons.prems(1)]
      by (intro exI [of _ t'] exI [of _ s'] exI [of _ "?ids # idss"])
        (auto simp: x Let_def same_table_def case_prod_beta)
  next
    case False
    let ?t = "t\<lparr>t_Rows := ?rows, t_JournalIDs := ?ids, t_count := t_count t + 1, t_lastUpdate := now\<rparr>"
    have a: "Add S now b i t s = Some (?t, s)"
      using False by (rule Add_keep [OF Cons.prems(2) fc])
    have st: "same_table ?t t" by (simp add: same_table_def)
    have "table_ok ?t" "0 < t_FlushCount ?t" "int (length (t_Rows ?t)) < t_FlushCount ?t"
      using Add_ok [OF Cons.prems(2) fc a] Cons.prems(3) False by auto
    from Cons.IH [OF Cons.prems(1) this] obtain t' s' idss where ih: "add_all S now xs ?t s = Some (t', s')" "inv s'"
      "same_table t' ?t" "t_Rows t' = snd (cut_batches (t_FlushCount t) ?rows ?rs)"
      "length idss = length (fst (cut_batches (t_FlushCount t) ?rows ?rs))"
      "queued s' = queued s @ map2 (batch_request t) (fst (cut_batches (t_FlushCount t) ?rows ?rs)) idss"
      "concat idss @ t_JournalIDs t' = ?ids @ concat (map (\<lambda>x. id_list (snd x)) xs)"
      by (auto simp: same_table_simps [OF st])
    show ?thesis
      using ih a False
      by (intro exI [of _ t'] exI [of _ s'] exI [of _ idss]) (auto simp: x Let_def same_table_def)
  qed
qed

end

section \<open>All tables\<close>

definition coll_ok :: "Collector \<Rightarrow> bool" where
  "coll_ok c = ((\<forall>(k, t) \<in> set (c_Tables c). table_ok t \<and> 0 \<le> t_FlushCount t)
     \<and> distinct (map fst (c_Tables c)) \<and> 0 \<le> c_Count c
     \<and> 0 < duration_mult millisecond (c_FlushInterval c))"

definition held_ids :: "Collector \<Rightarrow> u64 multiset" where
  "held_ids c = (\<Sum>(k, t) \<leftarrow> c_Tables c. mset (t_JournalIDs t))"

definition request_ids :: "ClickhouseRequest list \<Rightarrow> u64 multiset" where
  "request_ids rs = (\<Sum>r \<leftarrow> rs. mset (req_JournalIDs r))"

lemma multiset_balance:
  fixes x :: "'a multiset"
  assumes "x + a = h + b" "b + q' = a + q + n"
  shows "x + q' = h + q + n"
proof -
  have "(x + q') + a = (x + a) + q'" by (simp only: ac_simps)
  also have "\<dots> = h + (b + q')" unfolding assms(1) by (simp only: ac_simps)
  also have "\<dots> = (h + q + n) + a" unfolding assms(2) by (simp only: ac_simps)
  finally show ?thesis by simp
qed

lemma request_ids_append [simp]: "request_ids (rs @ [r]) = request_ids rs + mset (req_JournalIDs r)"
  by (simp add: request_ids_def)

lemma sum_update:
  fixes f :: "string \<times> Table \<Rightarrow> u64 multiset"
  assumes "distinct (map fst ts)" "map_of ts k = Some u"
  shows "sum_list (map f (AList.update k t ts)) + f (k, u) = sum_list (map f ts) + f (k, t)"
  using assms
proof (induction ts)
  case (Cons a ts)
  obtain k' u' where a: "a = (k', u')" by (cases a)
  show ?case
  proof (cases "k' = k")
    case False
    with Cons a show ?thesis by (simp add: add.assoc)
  qed (use Cons a in \<open>simp add: add.commute\<close>)
qed simp

lemma sum_update_new:
  fixes f :: "string \<times> Table \<Rightarrow> u64 multiset"
  assumes "map_of ts k = None"
  shows "sum_list (map f (AList.update k t ts)) = sum_list (map f ts) + f (k, t)"
  using assms by (induction ts) (auto simp: add.assoc split: if_splits)

lemma update_ok:
  assumes "\<forall>(k, t) \<in> set ts. P t" "P t"
  shows "\<forall>(k, t) \<in> set (AList.update k t ts). P t"
  using assms by (induction ts) auto

lemma held_ids_update:
  assumes "distinct (map fst (c_Tables c))" "map_of (c_Tables c) k = Some u"
  shows "held_ids (c\<lparr>c_Tables := AList.update k t (c_Tables c)\<rparr>) + mset (t_JournalIDs u)
    = held_ids c + mset (t_JournalIDs t)"
  using sum_update [OF assms, of "\<lambda>(k, t). mset (t_JournalIDs t)" t] by (simp add: held_ids_def)

lemma held_ids_new:
  assumes "map_of (c_Tables c) k = None"
  shows "held_ids (c\<lparr>c_Tables := AList.update k t (c_Tables c)\<rparr>) = held_ids c + mset (t_JournalIDs t)"
  using sum_update_new [OF assms, of "\<lambda>(k, t). mset (t_JournalIDs t)" t] by (simp add: held_ids_def)

lemma new_table_ok:
  "coll_ok c \<Longrightarrow> table_ok (new_table k now c) \<and> 0 \<le> t_FlushCount (new_table k now c)
    \<and> t_JournalIDs (new_table k now c) = []"
  by (auto simp: new_table_def NewTable_def table_ok_def coll_ok_def split: prod.splits)

lemma addTable_fresh:
  assumes "coll_ok c" "map_of (c_Tables c) k = None"
  shows "\<exists>t c'. addTable k now c = Some (t, c') \<and> coll_ok c' \<and> map_of (c_Tables c') k = Some t \<and> held_ids c' = held_ids c"
proof -
  let ?t = "new_table k now c"
  let ?c = "c\<lparr>c_Tables := AList.update k ?t (c_Tables c)\<rparr>"
  have "coll_ok ?c"
    using assms new_table_ok [OF assms(1), of k now] update_ok [of "c_Tables c" "\<lambda>t. table_ok t \<and> 0 \<le> t_FlushCount t" ?t k]
    by (auto simp: coll_ok_def distinct_update)
  moreover have "held_ids ?c = held_ids c"
    using held_ids_new [OF assms(2), of ?t] new_table_ok [OF assms(1), of k now] by simp
  moreover have "addTable k now c = Some (?t, ?c)"
    using assms(1) by (simp add: addTable_def coll_ok_def Let_def)
  ultimately show ?thesis by (simp add: update_conv')
qed

text \<open>The table that a push adds to, and the collector that has it.\<close>

lemma push_table:
  assumes "coll_ok c"
  obtains t c1 where "(case map_of (c_Tables c) k of Some t \<Rightarrow> Some (t, c) | None \<Rightarrow> addTable k now c) = Some (t, c1)"
    "coll_ok c1" "map_of (c_Tables c1) k = Some t" "held_ids c1 = held_ids c"
proof (cases "map_of (c_Tables c) k")
  case (Some t)
  with assms that show ?thesis by auto
next
  case None
  with addTable_fresh [OF assms None, of now] that show ?thesis by fastforce
qed

text \<open>So \<open>AddTable\<close> keeps what is held, where there was no table under the name.\<close>

lemma AddTable_fresh:
  assumes "coll_ok c" "map_of (c_Tables c) k = None"
  shows "\<exists>c'. AddTable k now c = Some c' \<and> coll_ok c' \<and> held_ids c' = held_ids c"
  using addTable_fresh [OF assms, of now] by (auto simp: AddTable_def)

lemma CleanTables_empty_ids:
  "coll_ok c \<Longrightarrow> held_ids (tablesCleanHandler c) = held_ids c"
proof -
  assume ok: "coll_ok c"
  have "sum_list (map (\<lambda>(k, t). mset (t_JournalIDs t)) (filter (\<lambda>(k, t). \<not> table_Empty t) ts))
      = sum_list (map (\<lambda>(k, t). mset (t_JournalIDs t)) ts)"
    if "\<forall>(k, t) \<in> set ts. table_ok t \<and> 0 \<le> t_FlushCount t" for ts
    using that by (induction ts) (auto simp: table_Empty_def table_ok_def)
  with ok show ?thesis by (auto simp: held_ids_def tablesCleanHandler_def coll_ok_def)
qed

lemma filter_coll_ok: "coll_ok c \<Longrightarrow> coll_ok (c\<lparr>c_Tables := filter P (c_Tables c)\<rparr>)"
  by (auto simp: coll_ok_def distinct_map_filter)

context batch_queue
begin

lemma push_conserves:
  assumes "inv s" "coll_ok c"
  shows "\<exists>c' s'. Push S now p text i c s = Some (c', s') \<and> inv s' \<and> coll_ok c'
    \<and> held_ids c' + request_ids (queued s') = held_ids c + request_ids (queued s) + mset (id_list i)"
proof -
  let ?k = "push_key c p"
  obtain t c1 where t: "(case map_of (c_Tables c) ?k of Some t \<Rightarrow> Some (t, c) | None \<Rightarrow> addTable ?k now c) = Some (t, c1)"
    "coll_ok c1" "map_of (c_Tables c1) ?k = Some t" "held_ids c1 = held_ids c"
    by (rule push_table [OF assms(2)])
  have "(?k, t) \<in> set (c_Tables c1)" using t(3) by (rule map_of_SomeD)
  then have ok: "table_ok t" "0 \<le> t_FlushCount t" using t(2) by (auto simp: coll_ok_def)
  have dist: "distinct (map fst (c_Tables c1))" using t(2) by (simp add: coll_ok_def)
  obtain t' s' where a: "Add S now text i t s = Some (t', s')" and inv': "inv s'" and fc: "t_FlushCount t' = t_FlushCount t"
    and ids: "mset (t_JournalIDs t') + request_ids (queued s') = mset (t_JournalIDs t) + request_ids (queued s) + mset (id_list i)"
  proof (cases "t_FlushCount t \<le> int (length (t_Rows t @ rows_of t text))")
    case True
    then show ?thesis
      using that [OF Add_flush [OF ok True]] inv_Send [OF assms(1)] queued_Send [OF assms(1)]
      by (simp add: batch_request_def table_request_def)
  next
    case False
    then show ?thesis
      using that [OF Add_keep [OF ok False]] assms(1)
      by (simp add: ac_simps)
  qed
  let ?c = "c1\<lparr>c_Tables := AList.update ?k t' (c_Tables c1)\<rparr>"
  have "coll_ok ?c"
    using t(2) Add_ok [OF ok a] fc ok(2) update_ok [of "c_Tables c1" "\<lambda>t. table_ok t \<and> 0 \<le> t_FlushCount t" t' ?k]
    by (auto simp: coll_ok_def distinct_update)
  moreover have "held_ids ?c + mset (t_JournalIDs t) = held_ids c + mset (t_JournalIDs t')"
    using held_ids_update [OF dist t(3), of t'] t(4) by simp
  then have "held_ids ?c + request_ids (queued s') = held_ids c + request_ids (queued s) + mset (id_list i)"
    using ids by (rule multiset_balance)
  ultimately show ?thesis using t(1) a inv' by (simp add: Push_def)
qed

lemma flushTables_conserves:
  assumes "inv s" "\<forall>(k, t) \<in> set ts. table_ok t \<and> 0 \<le> t_FlushCount t"
  shows "\<exists>s'. flushTables S ts s = Some (length (filter (\<lambda>(k, t). t_Rows t \<noteq> []) ts),
      map (\<lambda>(k, t). (k, t\<lparr>t_Rows := [], t_JournalIDs := [], t_count := 0\<rparr>)) ts, s') \<and> inv s'
    \<and> queued s' = queued s @ map (table_request \<circ> snd) (filter (\<lambda>(k, t). t_Rows t \<noteq> []) ts)"
  using assms
proof (induction ts arbitrary: s)
  case Nil
  then show ?case by simp
next
  case (Cons a ts)
  obtain k t where a: "a = (k, t)" by (cases a)
  let ?s = "if t_Rows t = [] then s else s_Send S (table_request t) s"
  have "inv ?s" using Cons.prems(1) inv_Send by simp
  from Cons.IH [OF this] Cons.prems(2) obtain s' where "flushTables S ts ?s = Some (length (filter (\<lambda>(k, t). t_Rows t \<noteq> []) ts),
      map (\<lambda>(k, t). (k, t\<lparr>t_Rows := [], t_JournalIDs := [], t_count := 0\<rparr>)) ts, s')" "inv s'"
    "queued s' = queued ?s @ map (table_request \<circ> snd) (filter (\<lambda>(k, t). t_Rows t \<noteq> []) ts)" by auto
  moreover have "table_ok t" "0 \<le> t_FlushCount t" using Cons.prems(2) a by auto
  ultimately show ?case
    using queued_Send [OF Cons.prems(1)] by (simp add: a CheckFlush_cases)
qed

end

section \<open>Runs of the collector\<close>

text \<open>The operations that run while the program serves requests, and one after the other.\<close>

datatype cop = CPush nanos string string u64 | COpaque string string string u64
  | CTick string | CFlushAll | CCleanEmpty

fun coll_step :: "'s Sender \<Rightarrow> cop \<Rightarrow> Collector \<times> 's \<Rightarrow> (Collector \<times> 's) option" where
  "coll_step S (CPush now p text i) (c, s) = Push S now p text i c s"
| "coll_step S (COpaque p text ct i) (c, s) = Some (c, PushOpaque S p text ct i s)"
| "coll_step S (CTick k) (c, s) = tableTick S k c s"
| "coll_step S CFlushAll (c, s) = map_option (\<lambda>(n, c, s). (c, s)) (FlushAll S c s)"
| "coll_step S CCleanEmpty (c, s) = Some (tablesCleanHandler c, s)"

fun coll_run :: "'s Sender \<Rightarrow> cop list \<Rightarrow> Collector \<times> 's \<Rightarrow> (Collector \<times> 's) option" where
  "coll_run S [] x = Some x"
| "coll_run S (a # as) x = (case coll_step S a x of None \<Rightarrow> None | Some y \<Rightarrow> coll_run S as y)"

fun cop_ids :: "cop \<Rightarrow> u64 list" where
  "cop_ids (CPush now p text i) = id_list i"
| "cop_ids (COpaque p text ct i) = id_list i"
| "cop_ids _ = []"

lemma opaque_request_ids: "req_JournalIDs (opaque_request p text ct i) = id_list i"
  by (simp add: opaque_request_def id_list_def)

lemma request_ids_tables:
  "\<forall>(k, t) \<in> set ts. table_ok t \<and> 0 \<le> t_FlushCount t \<Longrightarrow>
   request_ids (map (table_request \<circ> snd) (filter (\<lambda>(k, t). t_Rows t \<noteq> []) ts))
   = sum_list (map (\<lambda>(k, t). mset (t_JournalIDs t)) ts)"
  by (induction ts) (auto simp: request_ids_def table_request_def table_ok_def)

lemma request_ids_app: "request_ids (xs @ ys) = request_ids xs + request_ids ys"
  by (simp add: request_ids_def)

lemma coll_ok_tables:
  "coll_ok c \<Longrightarrow> distinct (map fst ts) \<Longrightarrow> \<forall>(k, t) \<in> set ts. table_ok t \<and> 0 \<le> t_FlushCount t \<Longrightarrow>
   coll_ok (c\<lparr>c_Tables := ts\<rparr>)"
  by (simp add: coll_ok_def)

context batch_queue
begin

lemma FlushAll_sends:
  assumes "inv s" "coll_ok c"
  shows "\<exists>c' s'. FlushAll S c s = Some (length (filter (\<lambda>(k, t). t_Rows t \<noteq> []) (c_Tables c)), c', s') \<and> inv s'
    \<and> coll_ok c' \<and> collector_Empty c' \<and> held_ids c' = {#}
    \<and> queued s' = queued s @ map (table_request \<circ> snd) (filter (\<lambda>(k, t). t_Rows t \<noteq> []) (c_Tables c))"
proof -
  let ?ts = "map (\<lambda>(k, t). (k, t\<lparr>t_Rows := [], t_JournalIDs := [], t_count := 0\<rparr>)) (c_Tables c)"
  have "\<forall>(k, t) \<in> set (c_Tables c). table_ok t \<and> 0 \<le> t_FlushCount t" using assms(2) by (simp add: coll_ok_def)
  from flushTables_conserves [OF assms(1) this] obtain s' where
    f: "flushTables S (c_Tables c) s = Some (length (filter (\<lambda>(k, t). t_Rows t \<noteq> []) (c_Tables c)), ?ts, s')" "inv s'"
    "queued s' = queued s @ map (table_request \<circ> snd) (filter (\<lambda>(k, t). t_Rows t \<noteq> []) (c_Tables c))" by blast
  have "map fst ?ts = map fst (c_Tables c)" by (simp add: case_prod_beta)
  then have "distinct (map fst ?ts)" using assms(2) by (simp only: coll_ok_def)
  moreover have "\<forall>(k, t) \<in> set ?ts. table_ok t \<and> 0 \<le> t_FlushCount t"
    using assms(2) by (auto simp: coll_ok_def table_ok_def)
  ultimately have "coll_ok (c\<lparr>c_Tables := ?ts\<rparr>)"
    using coll_ok_tables [OF assms(2)] by blast
  moreover have "collector_Empty (c\<lparr>c_Tables := ?ts\<rparr>)"
    by (auto simp: collector_Empty_def table_Empty_def list_all_iff)
  moreover have "held_ids (c\<lparr>c_Tables := ?ts\<rparr>) = {#}"
    by (simp add: held_ids_def comp_def case_prod_beta)
  ultimately show ?thesis using f by (auto simp: FlushAll_def)
qed

lemma coll_step_conserves:
  assumes "inv s" "coll_ok c"
  shows "\<exists>c' s'. coll_step S a (c, s) = Some (c', s') \<and> inv s' \<and> coll_ok c'
    \<and> held_ids c' + request_ids (queued s') = held_ids c + request_ids (queued s) + mset (cop_ids a)"
proof (cases a)
  case (CPush now p b i)
  with push_conserves [OF assms, of now p b i] show ?thesis by simp
next
  case (COpaque p b ct i)
  with assms show ?thesis
    by (simp add: PushOpaque_def inv_Send queued_Send opaque_request_ids add.assoc)
next
  case (CTick k)
  show ?thesis
  proof (cases "map_of (c_Tables c) k")
    case None
    with CTick assms show ?thesis by (simp add: tableTick_def)
  next
    case (Some t)
    then have "(k, t) \<in> set (c_Tables c)" by (rule map_of_SomeD)
    with assms(2) have ok: "table_ok t" "0 \<le> t_FlushCount t" by (auto simp: coll_ok_def)
    have dist: "distinct (map fst (c_Tables c))" using assms(2) by (simp add: coll_ok_def)
    let ?t = "t\<lparr>t_Rows := [], t_JournalIDs := [], t_count := 0\<rparr>"
    let ?s = "if t_Rows t = [] then s else s_Send S (table_request t) s"
    let ?c = "c\<lparr>c_Tables := AList.update k ?t (c_Tables c)\<rparr>"
    have st: "coll_step S a (c, s) = Some (?c, ?s)"
      using CTick Some by (simp add: tableTick_def CheckFlush_cases [OF ok])
    have "table_ok ?t" by (simp add: table_ok_def)
    then have "coll_ok ?c"
      using assms(2) ok(2) update_ok [of "c_Tables c" "\<lambda>t. table_ok t \<and> 0 \<le> t_FlushCount t" ?t k]
      by (auto simp: coll_ok_def distinct_update)
    moreover have "held_ids ?c + mset (t_JournalIDs t) = held_ids c + {#}"
      using held_ids_update [OF dist Some, of ?t] by simp
    then have "held_ids ?c + request_ids (queued ?s) = held_ids c + request_ids (queued s) + {#}"
      by (rule multiset_balance)
        (use ok(1) queued_Send [OF assms(1)] in \<open>auto simp: table_ok_def table_request_def add.commute\<close>)
    ultimately have "coll_ok ?c" "held_ids ?c + request_ids (queued ?s) = held_ids c + request_ids (queued s) + mset (cop_ids a)"
      using CTick by simp_all
    with st assms(1) inv_Send show ?thesis by auto
  qed
next
  case CFlushAll
  from FlushAll_sends [OF assms] obtain c' s' where
    f: "FlushAll S c s = Some (length (filter (\<lambda>(k, t). t_Rows t \<noteq> []) (c_Tables c)), c', s')" "inv s'"
    "coll_ok c'" "held_ids c' = {#}"
    "queued s' = queued s @ map (table_request \<circ> snd) (filter (\<lambda>(k, t). t_Rows t \<noteq> []) (c_Tables c))" by blast
  have "\<forall>(k, t) \<in> set (c_Tables c). table_ok t \<and> 0 \<le> t_FlushCount t" using assms(2) by (simp add: coll_ok_def)
  with f show ?thesis
    using CFlushAll request_ids_tables [of "c_Tables c"]
    by (simp add: request_ids_app held_ids_def add.commute)
next
  case CCleanEmpty
  with assms filter_coll_ok [OF assms(2), of "\<lambda>(k, t). \<not> table_Empty t"] CleanTables_empty_ids [OF assms(2)]
  show ?thesis by (simp add: tablesCleanHandler_def)
qed

lemma coll_run_conserves:
  assumes "inv s" "coll_ok c"
  shows "\<exists>c' s'. coll_run S as (c, s) = Some (c', s') \<and> inv s' \<and> coll_ok c'
    \<and> held_ids c' + request_ids (queued s') = held_ids c + request_ids (queued s) + mset (concat (map cop_ids as))"
  using assms
proof (induction as arbitrary: c s)
  case Nil
  then show ?case by simp
next
  case (Cons a as)
  obtain c1 s1 where 1: "coll_step S a (c, s) = Some (c1, s1)" "inv s1" "coll_ok c1"
    "held_ids c1 + request_ids (queued s1) = held_ids c + request_ids (queued s) + mset (cop_ids a)"
    using coll_step_conserves [OF Cons.prems] by blast
  from Cons.IH [OF 1(2,3)] obtain c' s' where 2: "coll_run S as (c1, s1) = Some (c', s')" "inv s'" "coll_ok c'"
    "held_ids c' + request_ids (queued s') = held_ids c1 + request_ids (queued s1) + mset (concat (map cop_ids as))"
    by blast
  with 1 show ?case by (simp add: add.assoc)
qed

end

section \<open>Parameters and queries\<close>

lemma separateParts_no_query:
  "(\<And>p. p \<in> set ps \<Longrightarrow> \<not> HasPrefix p ''query='') \<Longrightarrow>
   separateParts ps (q, a) = (q, a @ concat (map (\<lambda>p. CHR ''&'' # p) ps))"
  by (induction ps arbitrary: a) auto

lemma separateParts_append:
  "separateParts (ps @ qs) x = separateParts qs (separateParts ps x)"
  by (induction ps arbitrary: x) (auto split: prod.splits)

lemma concat_amp_join: "ps \<noteq> [] \<Longrightarrow> concat (map (\<lambda>p. c # p) ps) = c # join [c] ps"
proof (induction ps)
  case (Cons p ps)
  then show ?case by (cases ps) auto
qed simp

lemma HasPrefix_self: "HasPrefix (p @ s) p"
  by (simp add: HasPrefix_def)

text \<open>The key of a table gives back the query and the other parameters it was made of.\<close>

lemma separateQuery_key:
  assumes "\<And>p. p \<in> set (split_on (CHR ''&'') qs) \<Longrightarrow> \<not> HasPrefix p ''query=''"
  shows "separateQuery (qs @ ''&query='' @ QueryEscape q) = (q, trim_space qs)"
    and "separateQuery (''query='' @ QueryEscape q) = (q, [])"
proof -
  let ?e = "''query='' @ QueryEscape q"
  have amp: "CHR ''&'' \<notin> set ?e" using QueryEscape_no_amp by simp
  have pre: "HasPrefix ?e ''query=''" by (rule HasPrefix_self)
  show "separateQuery (''query='' @ QueryEscape q) = (q, [])"
    using amp pre by (simp add: separateQuery_def split_on_no_sep QueryUnescape_QueryEscape)
  have "split_on (CHR ''&'') (qs @ CHR ''&'' # ?e) = split_on (CHR ''&'') qs @ [?e]"
    by (rule split_on_snoc [OF amp])
  moreover have "join ''&'' (split_on (CHR ''&'') qs) = qs" by (rule join_split_on)
  ultimately show "separateQuery (qs @ ''&query='' @ QueryEscape q) = (q, trim_space qs)"
    using assms pre concat_amp_join [of "split_on (CHR ''&'') qs" "CHR ''&''"]
    by (simp add: separateQuery_def separateParts_append separateParts_no_query QueryUnescape_QueryEscape)
qed

section \<open>Splitting an insert into query and data\<close>

lemma Parse_split:
  assumes "Parse b = (p, c)"
  shows "p = [] \<and> c = [] \<or> (\<exists>n. trim_space p = trim_space (take n b) \<and> trim_space c = trim_space (drop n b))"
proof -
  have "\<exists>n. (p, c) = (take n b, drop n b) \<or> (p, c) = (trim_space (take n b), trim_space (drop n b)) \<or> (p, c) = (b, [])
      \<or> (p, c) = ([], [])"
    using assms [symmetric]
    by (auto simp: Parse_def Let_def split: option.splits if_splits)
  then consider n where "p = take n b" "c = drop n b" | n where "p = trim_space (take n b)" "c = trim_space (drop n b)"
    | "p = b" "c = []" | "p = []" "c = []" by auto
  then show ?thesis
  proof cases
    case 3
    then show ?thesis by (intro disjI2 exI [of _ "length b"]) simp
  qed auto
qed

lemma trim_space_outer:
  assumes "s \<noteq> []" "\<not> is_space (hd s)" "t \<noteq> []" "\<not> is_space (last t)"
  shows "trim_space (s @ t) = s @ t"
  using assms by (intro trim_space_id) auto

lemma trimmed_ends: "trim_space s = s \<Longrightarrow> s \<noteq> [] \<Longrightarrow> \<not> is_space (hd s)"
proof -
  assume t: "trim_space s = s" "s \<noteq> []"
  have "length (trim_left s) \<le> length s" by (simp add: trim_left_def length_dropWhile_le)
  moreover have "length (trim_space s) \<le> length (trim_left s)"
    by (simp add: trim_space_def trim_right_def) (metis length_dropWhile_le length_rev)
  ultimately have "length (trim_left s) = length s" using t by simp
  moreover obtain zs where z: "s = zs @ trim_left s"
    unfolding trim_left_def by (metis takeWhile_dropWhile_id)
  ultimately have "length zs = 0" by (metis add_cancel_left_left length_append)
  with z have "trim_left s = s" by simp
  with t trim_left_hd [of s] show ?thesis by simp
qed

lemma last_query: "\<not> is_space (last (''&query='' @ QueryEscape q))" "\<not> is_space (last (''query='' @ QueryEscape q))"
  using QueryEscape_no_space [of "last (QueryEscape q)" q]
  by (cases "QueryEscape q = []"; auto simp: is_space_def)+

lemma trim_key:
  assumes "trim_space qs = qs"
  shows "trim_space (if qs \<noteq> [] then qs @ ''&query='' @ QueryEscape q else ''query='' @ QueryEscape q)
    = (if qs \<noteq> [] then qs @ ''&query='' @ QueryEscape q else ''query='' @ QueryEscape q)"
proof (cases "qs = []")
  case True
  have "trim_space (''query='' @ QueryEscape q) = ''query='' @ QueryEscape q"
    using last_query(2) [of q] by (intro trim_space_id) (auto simp: is_space_def)
  with True show ?thesis by simp
next
  case False
  then show ?thesis
    using trim_space_outer [OF False trimmed_ends [OF assms False], of "''&query='' @ QueryEscape q"] last_query(1) [of q]
    by simp
qed

text \<open>A query string without the query: the insert comes with the body.\<close>

lemma ParseQuery_body:
  assumes "index_of ''query='' qs = None" "trim_space qs = qs"
    and "\<And>p. p \<in> set (split_on (CHR ''&'') qs) \<Longrightarrow> \<not> HasPrefix p ''query=''"
    and "ParseQuery qs b = (params, content, ins)"
  shows "separateQuery params = (trim_space (fst (Parse b)), qs) \<and> content = trim_space (snd (Parse b))
    \<and> ins = HasPrefix (trim_space (fst (Parse b))) ''insert''"
proof -
  let ?q = "trim_space (fst (Parse b))"
  have "params = (if qs \<noteq> [] then qs @ ''&query='' @ QueryEscape ?q else ''query='' @ QueryEscape ?q)"
    "content = trim_space (snd (Parse b))" "ins = HasPrefix ?q ''insert''"
    using assms(1,4) trim_key [OF assms(2), of ?q]
    by (auto simp: ParseQuery_def Let_def case_prod_beta split: if_splits)
  with separateQuery_key [of qs ?q, OF assms(3)] assms(2) show ?thesis
    by (cases "qs = []") auto
qed

lemma index_of_prefix: "index_of p (p @ s) = Some 0"
proof -
  have "take (length p) (p @ s) = p" by simp
  then show ?thesis by (cases "p @ s") (auto simp del: take_append)
qed

lemma index_of_absent: "c \<notin> set s \<Longrightarrow> index_of [c] s = None"
  by (induction s) auto

text \<open>A query string that is only the query: as if it stood in front of the body.\<close>

lemma ParseQuery_url:
  assumes "b \<noteq> []"
  shows "fst (ParseQuery (''query='' @ QueryEscape q) b) = fst (ParseQuery [] (q @ '' '' @ b))"
    and "fst (snd (ParseQuery (''query='' @ QueryEscape q) b)) = fst (snd (ParseQuery [] (q @ '' '' @ b)))"
  using assms index_of_absent [OF QueryEscape_no_amp] index_of_prefix [of "''query=''" "QueryEscape q"]
  by (simp_all add: ParseQuery_def Let_def QueryUnescape_QueryEscape case_prod_beta ends_with_def)

section \<open>The query id\<close>

lemma withoutQueryID_parts:
  "withoutQueryID ps = concat (map (\<lambda>p. CHR ''&'' # p) (filter (\<lambda>p. \<not> HasPrefix p ''query_id='') ps))"
  by (induction ps) auto

lemma push_key_filter:
  "c_RemoveQueryID c \<Longrightarrow>
   push_key c ps = trim_space (join ''&'' (filter (\<lambda>p. \<not> HasPrefix p ''query_id='') (split_on (CHR ''&'') ps)))"
  using concat_amp_join [of "filter (\<lambda>p. \<not> HasPrefix p ''query_id='') (split_on (CHR ''&'') ps)" "CHR ''&''"]
  by (cases "filter (\<lambda>p. \<not> HasPrefix p ''query_id='') (split_on (CHR ''&'') ps) = []")
    (auto simp: push_key_def withoutQueryID_parts Let_def trim_space_def trim_left_def trim_right_def)

section \<open>A run of pushes under one key\<close>

fun push_all :: "'s Sender \<Rightarrow> nanos \<Rightarrow> string \<Rightarrow> (string \<times> u64) list \<Rightarrow> Collector \<Rightarrow> 's \<Rightarrow> (Collector \<times> 's) option" where
  "push_all S now p [] c s = Some (c, s)"
| "push_all S now p ((b, i) # xs) c s = (case Push S now p b i c s of
     None \<Rightarrow> None
   | Some (c, s) \<Rightarrow> push_all S now p xs c s)"

lemma push_key_tables [simp]: "push_key (c\<lparr>c_Tables := ts\<rparr>) = push_key c"
  by (simp add: push_key_def fun_eq_iff)

lemma push_all_add_all:
  assumes "map_of (c_Tables c) (push_key c p) = Some t"
  shows "push_all S now p xs c s = map_option (\<lambda>(t, s). (c\<lparr>c_Tables := AList.update (push_key c p) t (c_Tables c)\<rparr>, s))
    (add_all S now xs t s)"
  using assms
proof (induction xs arbitrary: c t s)
  case Nil
  then show ?case by (simp add: update_triv)
next
  case (Cons x xs)
  obtain b i where x: "x = (b, i)" by (cases x)
  show ?case
  proof (cases "Add S now b i t s")
    case None
    with Cons.prems show ?thesis by (simp add: x Push_def Let_def)
  next
    case (Some r)
    obtain t1 s1 where r: "r = (t1, s1)" by (cases r)
    let ?c = "c\<lparr>c_Tables := AList.update (push_key c p) t1 (c_Tables c)\<rparr>"
    have "Push S now p b i c s = Some (?c, s1)" using Cons.prems Some r by (simp add: Push_def Let_def)
    moreover have "push_all S now p xs ?c s1 = map_option (\<lambda>(t, s). (?c\<lparr>c_Tables := AList.update (push_key ?c p) t (c_Tables ?c)\<rparr>, s))
        (add_all S now xs t1 s1)"
      by (rule Cons.IH) (simp add: update_conv')
    ultimately show ?thesis using Some r x by simp
  qed
qed

section \<open>The formats that are not batched\<close>

lemma opaque_format_from_iff:
  "opaque_format_from w s \<longleftrightarrow>
   (\<exists>u v. s = u @ v \<and> opaque_format_at v \<and> (if u = [] then \<not> w else \<not> re_word (last u)))"
proof (induction w s rule: opaque_format_from.induct)
  case (1 w)
  then show ?case by (simp add: opaque_format_at_def HasPrefix_def)
next
  case (2 w x xs)
  have "(\<exists>u v. x # xs = u @ v \<and> opaque_format_at v \<and> (if u = [] then \<not> w else \<not> re_word (last u)))
    \<longleftrightarrow> (\<not> w \<and> opaque_format_at (x # xs)) \<or>
      (\<exists>u v. xs = u @ v \<and> opaque_format_at v \<and> (if u = [] then \<not> re_word x else \<not> re_word (last u)))"
    (is "?L \<longleftrightarrow> ?A \<or> ?B")
  proof
    assume ?L
    then obtain u v where u: "x # xs = u @ v" "opaque_format_at v" "if u = [] then \<not> w else \<not> re_word (last u)" by blast
    show "?A \<or> ?B"
    proof (cases u)
      case Nil
      with u show ?thesis by auto
    next
      case (Cons y ys)
      with u have "xs = ys @ v" "if ys = [] then \<not> re_word x else \<not> re_word (last ys)" by (auto split: if_splits)
      with u(2) show ?thesis by blast
    qed
  next
    assume "?A \<or> ?B"
    then show ?L
    proof
      assume ?A
      then show ?L by (metis append_Nil)
    next
      assume ?B
      then obtain u v where "xs = u @ v" "opaque_format_at v" "if u = [] then \<not> re_word x else \<not> re_word (last u)" by blast
      then have "x # xs = (x # u) @ v" "if x # u = [] then \<not> w else \<not> re_word (last (x # u))" by (auto split: if_splits)
      with \<open>opaque_format_at v\<close> show ?L by blast
    qed
  qed
  with 2 show ?case by simp
qed

lemma opaque_format_at_iff:
  "opaque_format_at s \<longleftrightarrow>
   (\<exists>kw sp f v. s = kw @ sp @ f @ v \<and> to_lower kw = ''format'' \<and> sp \<noteq> [] \<and> list_all re_space sp
     \<and> to_lower f \<in> to_lower ` set opaque_formats \<and> word_ends v)"
proof
  assume a: "opaque_format_at s"
  let ?r = "drop 6 s" and ?t = "dropWhile re_space (drop 6 s)"
  obtain f where f: "f \<in> set opaque_formats" "HasPrefix ?t f" "word_ends (drop (length f) ?t)"
    using a by (auto simp: opaque_format_at_def Let_def list_ex_iff)
  have h: "HasPrefix s ''format''" "?t \<noteq> ?r" using a by (auto simp: opaque_format_at_def Let_def)
  have "s = take 6 s @ takeWhile re_space ?r @ take (length f) ?t @ drop (length f) ?t"
    by (metis append_take_drop_id takeWhile_dropWhile_id)
  moreover have "to_lower (take 6 s) = ''format''"
    using h(1) by (simp add: HasPrefix_def to_lower_def ascii_lower_def eval_nat_numeral)
  moreover have "takeWhile re_space ?r \<noteq> []" using h(2) by (metis append_Nil takeWhile_dropWhile_id)
  moreover have "list_all re_space (takeWhile re_space ?r)" by (auto simp: list_all_iff dest: set_takeWhileD)
  moreover have "to_lower (take (length f) ?t) \<in> to_lower ` set opaque_formats" using f by (auto simp: HasPrefix_def)
  ultimately show "\<exists>kw sp f v. s = kw @ sp @ f @ v \<and> to_lower kw = ''format'' \<and> sp \<noteq> [] \<and> list_all re_space sp
     \<and> to_lower f \<in> to_lower ` set opaque_formats \<and> word_ends v" using f(3) by blast
next
  assume "\<exists>kw sp f v. s = kw @ sp @ f @ v \<and> to_lower kw = ''format'' \<and> sp \<noteq> [] \<and> list_all re_space sp
     \<and> to_lower f \<in> to_lower ` set opaque_formats \<and> word_ends v"
  then obtain kw sp f v g where s: "s = kw @ sp @ f @ v" "to_lower kw = ''format''" "sp \<noteq> []" "list_all re_space sp"
    "to_lower f = to_lower g" "g \<in> set opaque_formats" "word_ends v" by auto
  have "length (to_lower kw) = 6" by (simp add: s(2))
  then have len: "length kw = 6" by (simp add: to_lower_def)
  have lf: "length f = length g" using s(5) by (metis length_map to_lower_def)
  have "\<forall>g \<in> set opaque_formats. g \<noteq> [] \<and> re_word (hd (to_lower g))" by code_simp
  then have "g \<noteq> []" "re_word (hd (to_lower f))" using s(5,6) by auto
  moreover from this lf have "f \<noteq> []" by auto
  ultimately have "f \<noteq> []" "re_word (ascii_lower (hd f))" by (simp_all add: to_lower_def hd_map)
  moreover have "\<not> re_space c" if "re_word (ascii_lower c)" for c
    using that by (auto simp: re_space_def re_word_def is_alnum_def ascii_lower_def Let_def split: if_splits)
  ultimately have "f \<noteq> []" "\<not> re_space (hd f)" by blast+
  then have d: "dropWhile re_space (sp @ f @ v) = f @ v"
    using s(4) by (induction sp) (auto simp: dropWhile_none)
  have "HasPrefix (kw @ sp @ f @ v) ''format''"
    using len s(2) by (simp add: HasPrefix_def) (simp add: to_lower_def ascii_lower_def)
  moreover have "HasPrefix (f @ v) g \<and> word_ends (drop (length g) (f @ v))"
    using lf s(5,7) by (simp add: HasPrefix_def)
  moreover have "drop 6 (kw @ sp @ f @ v) = sp @ f @ v" using len by simp
  moreover have "f @ v \<noteq> sp @ f @ v" using s(3) by simp
  ultimately show "opaque_format_at s"
    unfolding opaque_format_at_def Let_def s(1) list_ex_iff using d s(6) by auto
qed

end
