(* ===== verification/Collector_Props.thy ===== *)
theory Collector_Props
  imports Collector_Facts Clickhouse_Props
begin

text \<open>
  The properties of the collector, each with a witness where it has hypotheses.
\<close>

section \<open>A collector to try the properties on\<close>

definition demo_coll :: Collector where
  "demo_coll = NewCollector 3 1000 100 True False []"

definition demo_key :: string where
  "demo_key = ''query=INSERT+INTO+t+FORMAT+TabSeparated''"

definition demo_coll1 :: Collector where
  "demo_coll1 = snd (the (addTable demo_key 0 demo_coll))"

lemma demo_coll_ok: "coll_ok demo_coll" "coll_ok demo_coll1"
proof -
  have i: "duration_mult millisecond 1000 = 1000000000"
    by (simp add: duration_mult_exact millisecond_def max_duration_def)
  then show c: "coll_ok demo_coll" by (simp add: coll_ok_def demo_coll_def NewCollector_def)
  have "addTable demo_key 0 demo_coll = Some (new_table demo_key 0 demo_coll,
      demo_coll\<lparr>c_Tables := [(demo_key, new_table demo_key 0 demo_coll)]\<rparr>)"
    using i by (simp add: addTable_def demo_coll_def NewCollector_def Let_def)
  then show "coll_ok demo_coll1"
    using c new_table_ok [OF c, of demo_key 0] by (simp add: demo_coll1_def coll_ok_def)
qed

section \<open>Batching\<close>

text \<open>
  C15. Inserts pushed one after the other under one key reach the queue as batches that, with
  the rows still waiting, are all of their rows in the order they came: none lost, none twice.
  A batch has at least \<open>flush_count\<close> rows, and fewer than that plus the rows of one insert;
  fewer than \<open>flush_count\<close> rows wait.
\<close>

theorem push_batches_in_order:
  assumes "fifo_api Q items" "coll_ok c" "map_of (c_Tables c) (push_key c p) = Some t"
    and "0 < t_FlushCount t" "int (length (t_Rows t)) < t_FlushCount t"
    and "\<forall>x \<in> set xs. length (rows_of t (fst x)) \<le> m"
  shows "\<exists>c' cc' w' bs waiting idss. push_all (clickhouse_sender Q E) now p xs c (cc, w) = Some (c', cc', w')
    \<and> items (ch_Queue cc') = items (ch_Queue cc) @ map2 (batch_request t) bs idss \<and> length idss = length bs
    \<and> concat bs @ waiting = t_Rows t @ concat (map (\<lambda>x. rows_of t (fst x)) xs)
    \<and> map_option t_Rows (map_of (c_Tables c') (push_key c p)) = Some waiting
    \<and> int (length waiting) < t_FlushCount t
    \<and> (\<forall>b \<in> set bs. t_FlushCount t \<le> int (length b) \<and> int (length b) < t_FlushCount t + int m)"
proof -
  let ?cut = "cut_batches (t_FlushCount t) (t_Rows t) (map (\<lambda>x. rows_of t (fst x)) xs)"
  have "(push_key c p, t) \<in> set (c_Tables c)" using assms(3) by (rule map_of_SomeD)
  then have "table_ok t" using assms(2) by (auto simp: coll_ok_def)
  from ch.queued_add_all [OF assms(1) this assms(4,5), of E now xs "(cc, w)"]
  obtain t' cc' w' idss where a: "add_all (clickhouse_sender Q E) now xs t (cc, w) = Some (t', cc', w')"
    "t_Rows t' = snd ?cut" "length idss = length (fst ?cut)"
    "items (ch_Queue cc') = items (ch_Queue cc) @ map2 (batch_request t) (fst ?cut) idss" by auto
  have p: "push_all (clickhouse_sender Q E) now p xs c (cc, w)
      = Some (c\<lparr>c_Tables := AList.update (push_key c p) t' (c_Tables c)\<rparr>, cc', w')"
    unfolding push_all_add_all [OF assms(3)] a(1) by simp
  have "\<forall>b \<in> set (fst ?cut). t_FlushCount t \<le> int (length b) \<and> int (length b) < t_FlushCount t + int m"
    using cut_batches_size [OF _ assms(5), of _ "map (\<lambda>x. rows_of t (fst x)) xs" m] assms(6) by auto
  moreover have "int (length (snd ?cut)) < t_FlushCount t" by (rule cut_batches_waiting [OF assms(5)])
  ultimately show ?thesis
    using p a cut_batches_concat [of "t_FlushCount t" "t_Rows t" "map (\<lambda>x. rows_of t (fst x)) xs"]
    by (intro exI [of _ "c\<lparr>c_Tables := AList.update (push_key c p) t' (c_Tables c)\<rparr>"] exI [of _ cc'] exI [of _ w']
        exI [of _ "fst ?cut"] exI [of _ "snd ?cut"] exI [of _ idss]) (simp add: update_conv')
qed

theorem push_batches_in_order_witness:
  "\<exists>c' cc' w' bs waiting. push_all (clickhouse_sender list_queue demo_env) 0 demo_key [(''a'', 1), (''b'' @ NL # ''c'', 2), (''d'', 3)]
      demo_coll1 (demo_ch [''b''], demo_world) = Some (c', cc', w')
    \<and> concat bs @ waiting = [''a'', ''b'', ''c'', ''d''] \<and> (\<forall>b \<in> set bs. 3 \<le> length b \<and> length b < 5)"
proof -
  obtain t where t: "map_of (c_Tables demo_coll1) (push_key demo_coll1 demo_key) = Some t"
    "t_FlushCount t = 3" "t_Rows t = []" "t_Format t = ''TabSeparated''"
  proof -
    have "(case map_of (c_Tables demo_coll1) (push_key demo_coll1 demo_key) of None \<Rightarrow> False
        | Some t \<Rightarrow> t_FlushCount t = 3 \<and> t_Rows t = [] \<and> t_Format t = ''TabSeparated'')" by code_simp
    then show ?thesis using that by (auto split: option.splits)
  qed
  have "\<forall>x \<in> set [(''a'', 1 :: u64), (''b'' @ NL # ''c'', 2), (''d'', 3)]. length (rows_of t (fst x)) \<le> 2"
    using t(4) by (simp add: rows_of_def NL_def)
  from push_batches_in_order [OF list_queue_fifo demo_coll_ok(2) t(1) _ _ this] t
  show ?thesis by (fastforce simp: rows_of_def NL_def)
qed



text \<open>
  \<open>FlushAll\<close> leaves every table empty, hands exactly one request for each table that had
  rows to both targets, in the same order, and returns their number.
\<close>

theorem flush_all_empties:
  assumes "fifo_api Q items" "fifo_api Q' items'" "coll_ok c"
  shows "\<exists>c' d'. FlushAll (dual_sender (clickhouse_sender Q E) (clickhouse_sender Q' E')) c d
      = Some (length (filter (\<lambda>(k, t). t_Rows t \<noteq> []) (c_Tables c)), c', d')
    \<and> collector_Empty c'
    \<and> items (ch_Queue (fst (ds_live d'))) = items (ch_Queue (fst (ds_live d)))
        @ map (table_request \<circ> snd) (filter (\<lambda>(k, t). t_Rows t \<noteq> []) (c_Tables c))
    \<and> items' (ch_Queue (fst (ds_backup d'))) = items' (ch_Queue (fst (ds_backup d)))
        @ map (table_request \<circ> snd) (filter (\<lambda>(k, t). t_Rows t \<noteq> []) (c_Tables c))"
  using dual_live.FlushAll_sends [of Q items Q' items' c E E' d] dual_backup.FlushAll_sends [of Q items Q' items' c E E' d]
    assms by (auto simp: case_prod_beta)

theorem flush_all_empties_witness:
  "\<exists>c' d'. FlushAll (dual_sender (clickhouse_sender list_queue demo_env) (clickhouse_sender list_queue demo_env)) demo_coll1
      \<lparr>ds_live = (demo_ch [''a''], demo_world), ds_backup = (demo_ch [''b''], demo_world)\<rparr> = Some (0, c', d')
    \<and> collector_Empty c'"
proof -
  have "length (filter (\<lambda>(k, t). t_Rows t \<noteq> []) (c_Tables demo_coll1)) = 0" by code_simp
  with flush_all_empties [OF list_queue_fifo list_queue_fifo demo_coll_ok(2), of demo_env demo_env
      "\<lparr>ds_live = (demo_ch [''a''], demo_world), ds_backup = (demo_ch [''b''], demo_world)\<rparr>"]
  show ?thesis by auto
qed

section \<open>Parsing\<close>



text \<open>
  It makes no difference to key and data whether the query stands in the query string,
  escaped, or in front of the data in the body.
\<close>

theorem query_in_url_or_body:
  assumes "b \<noteq> []"
  shows "fst (ParseQuery (''query='' @ QueryEscape q) b) = fst (ParseQuery [] (q @ '' '' @ b))
    \<and> fst (snd (ParseQuery (''query='' @ QueryEscape q) b)) = fst (snd (ParseQuery [] (q @ '' '' @ b)))"
  using ParseQuery_url [OF assms] by blast

theorem query_in_url_or_body_witness:
  "fst (ParseQuery (''query='' @ QueryEscape ''INSERT INTO t VALUES'') ''(1)'') = fst (ParseQuery [] ''INSERT INTO t VALUES (1)'')"
  using query_in_url_or_body [of "''(1)''" "''INSERT INTO t VALUES''"] by simp

text \<open>
  The query is looked for as a piece of text, not as a parameter: in a query string whose
  first parameter merely ends in query=, the insert of the real one is not recognised, while
  \<open>queryFromParams\<close> finds it.
\<close>

theorem query_found_inside_other_parameter:
  "snd (snd (ParseQuery ''log_query=1&query=INSERT+INTO+t+VALUES'' ''(1)'')) = False
   \<and> paramsIndicateInsert ''log_query=1&query=INSERT+INTO+t+VALUES''"
  by code_simp

text \<open>
  With \<open>remove_query_id\<close> set, a parameter query_id does not tell tables apart: a query
  string with it has the key of the query string without it.
\<close>

theorem query_id_not_in_key:
  assumes "c_RemoveQueryID c" "HasPrefix q ''query_id=''" "us @ vs \<noteq> []"
    and "\<forall>p \<in> set (us @ q # vs). CHR ''&'' \<notin> set p"
  shows "push_key c (join ''&'' (us @ q # vs)) = push_key c (join ''&'' (us @ vs))"
proof -
  have "split_on (CHR ''&'') (join ''&'' (us @ q # vs)) = us @ q # vs"
    "split_on (CHR ''&'') (join ''&'' (us @ vs)) = us @ vs"
    using assms(3,4) by (auto intro!: split_on_join)
  then show ?thesis using assms(1,2) by (simp add: push_key_filter)
qed

theorem query_id_not_in_key_witness:
  "push_key demo_coll ''db=d&query_id=7'' = push_key demo_coll ''db=d''"
proof -
  have "c_RemoveQueryID demo_coll" "HasPrefix ''query_id=7'' ''query_id=''" by code_simp+
  from query_id_not_in_key [OF this, of "[''db=d'']" "[]"] show ?thesis by simp
qed

text \<open>
  The matcher for the formats that are never batched finds what its regular expression
  describes: somewhere in the query, not after a letter, digit or underscore, the word format
  in any case, white space, one of the formats in any case, and then no such character.
\<close>

theorem opaque_format_is_regex:
  "opaqueFormatInQuery s \<longleftrightarrow>
   (\<exists>u kw sp f v. s = u @ kw @ sp @ f @ v \<and> \<not> after_word u \<and> to_lower kw = ''format''
     \<and> sp \<noteq> [] \<and> list_all re_space sp \<and> to_lower f \<in> to_lower ` set opaque_formats \<and> word_ends v)"
proof -
  have "opaqueFormatInQuery s \<longleftrightarrow> (\<exists>u v. s = u @ v \<and> \<not> after_word u \<and> opaque_format_at v)"
  proof -
    have "(if u = [] then \<not> False else \<not> re_word (last u)) = (\<not> after_word u)" for u by (simp add: after_word_def)
    then show ?thesis unfolding opaqueFormatInQuery_def opaque_format_from_iff by (auto simp only:)
  qed
  then show ?thesis unfolding opaque_format_at_iff by blast
qed

section \<open>Replay and cleaning\<close>

text \<open>
  C31. What the replay at start-up does with a record the journal wrote: a binary insert is
  sent as the very request that was built when it was accepted, and a text insert is pushed
  again with its parameters and data, provided that these are UTF-8.
\<close>

theorem replay_rebuilds_request:
  assumes "valid_utf8 params" "valid_utf8 ct" "ct \<noteq> []"
  shows "ReplayJournalRecord S now (json_reread (opaque_record i params content ct)) c s
      = Some (c, PushOpaque S params content ct i s)
    \<and> (valid_utf8 content \<longrightarrow> ReplayJournalRecord S now (json_reread (text_record i params content)) c s
      = Push S now params content i c s)"
proof -
  have "b64_encode content = [] \<Longrightarrow> content = []"
    using b64_decode_encode [of content] b64_decode_encode [of "[]"]
    by (simp add: b64_encode_def b64_decode_def)
  moreover have "json_text [] = []" by (simp add: json_text.simps)
  ultimately show ?thesis
    using assms by (auto simp: ReplayJournalRecord_def json_reread_def opaque_record_def text_record_def
        json_text_valid valid_utf8_b64 b64_decode_encode Let_def PushOpaque_def opaque_request_def)
qed

theorem replay_rebuilds_request_witness:
  "ReplayJournalRecord log_sender 0 (json_reread (opaque_record 5 ''p=1'' [CHR 0xFF] ''text/plain'')) demo_coll []
    = Some (demo_coll, PushOpaque log_sender ''p=1'' [CHR 0xFF] ''text/plain'' 5 [])"
proof -
  have "valid_utf8 ''p=1''" "valid_utf8 ''text/plain''" by code_simp+
  from replay_rebuilds_request [OF this, of log_sender 0 5 "[CHR 0xFF]" demo_coll "[]"] show ?thesis by simp
qed

text \<open>
  The timed cleaning drops an idle table with the rows that wait in it: here an insert is
  accepted with the journal number 1, and after the cleaning it is in no table and was sent
  to nobody.
\<close>

theorem cleaning_drops_waiting_rows:
  "\<exists>c. Push log_sender 0 demo_key ''a'' 1 demo_coll [] = Some (c, [])
    \<and> c_CleanInterval c < c_FlushInterval c
    \<and> held_ids c = {#1#} \<and> c_Tables (CleanTables 200000000 c) = []"
proof -
  have "(case Push log_sender 0 demo_key ''a'' 1 demo_coll [] of None \<Rightarrow> False
      | Some (c, s) \<Rightarrow> s = [] \<and> c_CleanInterval c < c_FlushInterval c
          \<and> map (\<lambda>(k, t). t_JournalIDs t) (c_Tables c) = [[1]]
          \<and> c_Tables (CleanTables 200000000 c) = [])" by code_simp
  then obtain c where c: "Push log_sender 0 demo_key ''a'' 1 demo_coll [] = Some (c, [])"
    "c_CleanInterval c < c_FlushInterval c" "map (\<lambda>(k, t). t_JournalIDs t) (c_Tables c) = [[1]]"
    "c_Tables (CleanTables 200000000 c) = []" by (auto split: option.splits)
  have "held_ids c = sum_list (map mset (map (\<lambda>(k, t). t_JournalIDs t) (c_Tables c)))"
    by (simp add: held_ids_def comp_def split_def)
  then have "held_ids c = {#1#}" using c(3) by simp
  with c show ?thesis by blast
qed

end
