(* ===== verification/Go_IO.thy ===== *)
theory Go_IO
  imports Go_Strings
begin

text \<open>
  The parts of Go's package \<open>io\<close> that the program reads request bodies with, and \<open>int64\<close>
  arithmetic. A reader is the list of the results its calls of \<open>Read\<close> will have: the bytes
  and the error of each call. A reader with no results left is at its end.
\<close>

section \<open>Wrap-around\<close>

definition int64_max :: int where
  "int64_max = 9223372036854775807"

definition wrap64 :: "int \<Rightarrow> int" where
  "wrap64 x = (x + 9223372036854775808) mod 18446744073709551616 - 9223372036854775808"

lemma wrap64_id: "- 9223372036854775808 \<le> x \<Longrightarrow> x \<le> int64_max \<Longrightarrow> wrap64 x = x"
  by (simp add: wrap64_def int64_max_def)

lemma wrap64_range: "- 9223372036854775808 \<le> wrap64 x" "wrap64 x \<le> int64_max"
proof -
  have "0 \<le> (x + 9223372036854775808) mod 18446744073709551616"
    "(x + 9223372036854775808) mod 18446744073709551616 < 18446744073709551616" by simp_all
  then show "- 9223372036854775808 \<le> wrap64 x" "wrap64 x \<le> int64_max"
    by (simp_all add: wrap64_def int64_max_def)
qed

section \<open>Readers\<close>

datatype ioerr = IoEOF | IoErr string

type_synonym reader = "(string \<times> ioerr option) list"

text \<open>\<open>io.ReadAll\<close>: the bytes up to the first error, and the error unless it is \<open>io.EOF\<close>.\<close>

fun readAll :: "reader \<Rightarrow> string \<times> string option" where
  "readAll [] = ([], None)"
| "readAll ((b, None) # rs) = (case readAll rs of (bs, e) \<Rightarrow> (b @ bs, e))"
| "readAll ((b, Some IoEOF) # rs) = (b, None)"
| "readAll ((b, Some (IoErr m)) # rs) = (b, Some m)"

text \<open>\<open>io.LimitReader\<close>: at most \<open>n\<close> bytes, then the end.\<close>

fun limitReader :: "int \<Rightarrow> reader \<Rightarrow> reader" where
  "limitReader n [] = []"
| "limitReader n ((b, e) # rs) =
     (if n \<le> 0 then []
      else if int (length b) \<le> n then (b, e) # limitReader (n - int (length b)) rs
      else [(take (nat n) b, None)])"

definition whole :: "string \<Rightarrow> reader" where
  "whole s = [(s, Some IoEOF)]"

lemma readAll_whole [simp]: "readAll (whole s) = (s, None)"
  by (simp add: whole_def)

lemma limitReader_nonpos: "n \<le> 0 \<Longrightarrow> readAll (limitReader n rs) = ([], None)"
  by (cases rs) auto

text \<open>What comes through a limit: all of it if it fits, else as many bytes as the limit says.\<close>

lemma readAll_limit_ok:
  "int (length (fst (readAll (limitReader n rs)))) < n \<Longrightarrow> readAll (limitReader n rs) = readAll rs"
proof (induction rs arbitrary: n)
  case Nil
  show ?case by simp
next
  case (Cons r rs)
  obtain b e where r: "r = (b, e)" by (cases r)
  show ?case
  proof (cases "n \<le> 0 \<or> n < int (length b)")
    case True
    with Cons.prems r show ?thesis by (auto split: if_splits)
  next
    case False
    then show ?thesis
      using Cons.prems Cons.IH [of "n - int (length b)"] r
      by (cases e rule: option.exhaust; cases "the e")
        (auto split: prod.splits simp: case_prod_beta)
  qed
qed

lemma readAll_limit_length: "0 \<le> n \<Longrightarrow> int (length (fst (readAll (limitReader n rs)))) \<le> n"
proof (induction rs arbitrary: n)
  case Nil
  then show ?case by simp
next
  case (Cons r rs)
  obtain b e where r: "r = (b, e)" by (cases r)
  have "int (length b) \<le> n \<Longrightarrow> int (length (fst (readAll (limitReader (n - int (length b)) rs)))) \<le> n - int (length b)"
    using Cons.IH [of "n - int (length b)"] by simp
  then show ?case
    using Cons.prems r by (cases e rule: option.exhaust; cases "the e") (auto simp: case_prod_beta)
qed

end
