(* ===== verification/Decompress.thy ===== *)
theory Decompress
  imports Go_IO Go_Codec
begin

text \<open>
  Reading and decompressing the body of a request (decompress.go). The decoders come from
  other packages (gzip, flate, zstd, lz4, snappy, brotli, the native blocks of ClickHouse) and
  are the fields of a record \<open>codecs\<close>: each makes a reader of the decoded bytes, or fails to.
\<close>

section \<open>State\<close>

record codecs =
  cd_gzip :: "string \<Rightarrow> string + reader"
  cd_flate :: "string \<Rightarrow> reader"
  cd_zstd :: "string \<Rightarrow> string + reader"
  cd_lz4 :: "string \<Rightarrow> reader"
  cd_snappy :: "string \<Rightarrow> reader"
  cd_brotli :: "string \<Rightarrow> reader"
  cd_native :: "string \<Rightarrow> reader"

datatype body_err = ErrRequestTooLarge | ReadError string | CodecError string
  | UnsupportedEncoding string | NativeError string

section \<open>Query parameters\<close>

text \<open>Name and value of a parameter; a parameter without an equals sign counts as 1.\<close>

definition param_name :: "string \<Rightarrow> string" where
  "param_name p = (case index_of ''='' p of Some i \<Rightarrow> take i p | None \<Rightarrow> p)"

definition param_value :: "string \<Rightarrow> string" where
  "param_value p = (case index_of ''='' p of Some i \<Rightarrow> drop (i + 1) p | None \<Rightarrow> ''1'')"

definition EqualFold :: "string \<Rightarrow> string \<Rightarrow> bool" where
  "EqualFold s t = (to_lower s = to_lower t)"

definition is_on :: "string \<Rightarrow> bool" where
  "is_on v = (to_lower (trim_space v) \<in> set [''1'', ''true'', ''yes'', ''on''])"

definition param_on :: "string \<Rightarrow> string \<Rightarrow> bool" where
  "param_on key p = (p \<noteq> [] \<and> EqualFold (param_name p) (to_lower key)
     \<and> is_on (case QueryUnescape (param_value p) of Some v \<Rightarrow> v | None \<Rightarrow> param_value p))"

definition queryParamEnabled :: "string \<Rightarrow> string \<Rightarrow> bool" where
  "queryParamEnabled params key = list_ex (param_on key) (split_on (CHR ''&'') params)"

definition stripQueryParam :: "string \<Rightarrow> string \<Rightarrow> string" where
  "stripQueryParam params key =
     (if params = [] then params
      else join ''&'' (filter (\<lambda>p. p \<noteq> [] \<and> \<not> EqualFold (param_name p) key) (split_on (CHR ''&'') params)))"

section \<open>Content-Encoding\<close>

definition normalizeContentEncoding :: "string \<Rightarrow> string" where
  "normalizeContentEncoding contentEncoding =
     (let enc = trim_space (to_lower contentEncoding)
      in if enc = [] then []
         else if \<exists>c \<in> set enc. c \<in> set '',;'' then trim_space (takeWhile (\<lambda>c. c \<notin> set '',;'') enc)
         else enc)"

definition needsDecompression :: "string \<Rightarrow> string \<Rightarrow> bool" where
  "needsDecompression contentEncoding params =
     (let enc = normalizeContentEncoding contentEncoding
      in (enc \<noteq> [] \<and> enc \<noteq> ''identity'') \<or> queryParamEnabled params ''decompress'')"

section \<open>Limits\<close>

definition readAllLimited :: "reader \<Rightarrow> int \<Rightarrow> body_err + string" where
  "readAllLimited r maxBytes =
     (case readAll (if maxBytes \<le> 0 then r else limitReader (wrap64 (maxBytes + 1)) r) of
        (_, Some e) \<Rightarrow> Inl (ReadError e)
      | (out, None) \<Rightarrow>
          if 0 < maxBytes \<and> maxBytes < int (length out) then Inl ErrRequestTooLarge else Inr out)"

definition checkRequestSize :: "nat \<Rightarrow> int \<Rightarrow> body_err option" where
  "checkRequestSize n maxBytes = (if 0 < maxBytes \<and> maxBytes < int n then Some ErrRequestTooLarge else None)"

definition compressedLimit :: "int \<Rightarrow> int" where
  "compressedLimit maxBytes =
     (let limit = wrap64 (maxBytes * 4) in if limit < maxBytes then maxBytes else limit)"

definition readRequestBody :: "reader \<Rightarrow> int \<Rightarrow> body_err + string" where
  "readRequestBody r maxBytes =
     (if maxBytes \<le> 0 then (case readAll r of (_, Some e) \<Rightarrow> Inl (ReadError e) | (out, None) \<Rightarrow> Inr out)
      else
        (let limit = compressedLimit maxBytes
         in case readAll (limitReader (wrap64 (limit + 1)) r) of
              (_, Some e) \<Rightarrow> Inl (ReadError e)
            | (body, None) \<Rightarrow> if limit < int (length body) then Inl ErrRequestTooLarge else Inr body))"

section \<open>Decoding\<close>

definition decompressHTTPEncoding :: "codecs \<Rightarrow> string \<Rightarrow> string \<Rightarrow> int \<Rightarrow> body_err + string" where
  "decompressHTTPEncoding cd body contentEncoding maxBytes =
     (let enc = normalizeContentEncoding contentEncoding;
          opened = (\<lambda>r. case r of Inl e \<Rightarrow> Inl (CodecError e) | Inr r \<Rightarrow> readAllLimited r maxBytes)
      in if enc = [] \<or> enc = ''identity'' then Inr body
         else if enc = ''gzip'' \<or> enc = ''x-gzip'' then opened (cd_gzip cd body)
         else if enc = ''deflate'' then opened (Inr (cd_flate cd body))
         else if enc = ''zstd'' then opened (cd_zstd cd body)
         else if enc = ''lz4'' then opened (Inr (cd_lz4 cd body))
         else if enc = ''snappy'' \<or> enc = ''x-snappy-framed'' then opened (Inr (cd_snappy cd body))
         else if enc = ''br'' then opened (Inr (cd_brotli cd body))
         else Inl (UnsupportedEncoding enc))"

definition isNativeBlockEOF :: "string \<Rightarrow> bool" where
  "isNativeBlockEOF msg = (contains msg ''header: EOF'' \<or> contains msg ''header: unexpected EOF'')"

text \<open>The loop of \<open>decompressNativeBlocks\<close>, with the bytes decoded so far.\<close>

fun nativeLoop :: "int \<Rightarrow> string \<Rightarrow> reader \<Rightarrow> body_err + string" where
  "nativeLoop maxBytes out [] = Inr out"
| "nativeLoop maxBytes out ((b, e) # rs) =
     (if b \<noteq> [] \<and> 0 < maxBytes \<and> maxBytes < int (length out + length b) then Inl ErrRequestTooLarge
      else
        (let out = out @ b
         in case e of
              None \<Rightarrow> nativeLoop maxBytes out rs
            | Some IoEOF \<Rightarrow> Inr out
            | Some (IoErr m) \<Rightarrow>
                if b = [] \<and> out \<noteq> [] \<and> isNativeBlockEOF m then Inr out else Inl (NativeError m)))"

definition decompressNativeBlocks :: "codecs \<Rightarrow> string \<Rightarrow> int \<Rightarrow> body_err + string" where
  "decompressNativeBlocks cd body maxBytes = nativeLoop maxBytes [] (cd_native cd body)"

text \<open>The body and the query string without the parameter; both are left out after an error.\<close>

definition decompressRequestBody :: "codecs \<Rightarrow> string \<Rightarrow> string \<Rightarrow> string \<Rightarrow> int
    \<Rightarrow> body_err + string \<times> string" where
  "decompressRequestBody cd body contentEncoding params maxBytes =
     (case decompressHTTPEncoding cd body contentEncoding maxBytes of
        Inl e \<Rightarrow> Inl e
      | Inr body \<Rightarrow>
          (case (if queryParamEnabled params ''decompress''
                 then (case decompressNativeBlocks cd body maxBytes of
                     Inl e \<Rightarrow> Inl e
                   | Inr body \<Rightarrow> Inr (body, stripQueryParam params ''decompress''))
                 else Inr (body, params)) of
             Inl e \<Rightarrow> Inl e
           | Inr (body, qs) \<Rightarrow>
               (case checkRequestSize (length body) maxBytes of
                  Some e \<Rightarrow> Inl e
                | None \<Rightarrow> Inr (body, qs))))"

end
