(* ===== verification/Decompress_Props.thy ===== *)
theory Decompress_Props
  imports Decompress
begin

text \<open>
  The properties of reading and decompressing a body, each with a witness where it has
  hypotheses.
\<close>

section \<open>Readers behind a limit\<close>

lemma readAll_take:
  "readAll r = (s, None) \<Longrightarrow> readAll (limitReader n r) = (take (nat n) s, None)"
proof (induction r arbitrary: s n)
  case Nil
  then show ?case by simp
next
  case (Cons x r)
  obtain b e where x: "x = (b, e)" by (cases x)
  show ?case
  proof (cases "n \<le> 0")
    case True
    then show ?thesis by (simp add: limitReader_nonpos)
  next
    case False
    have rest: "readAll (limitReader (n - int (length b)) r) = (take (nat n - length b) t, None)"
      if "readAll r = (t, None)" for t
      using Cons.IH [OF that, of "n - int (length b)"] False by (simp add: nat_diff_distrib')
    consider "e = None" | "e = Some IoEOF" | m where "e = Some (IoErr m)"
      by (metis ioerr.exhaust option.exhaust)
    then show ?thesis
      using Cons.prems x False rest by cases (auto split: prod.splits)
  qed
qed

lemma compressedLimit_ge: "maxBytes \<le> compressedLimit maxBytes"
  by (simp add: compressedLimit_def Let_def)

lemma compressedLimit_less:
  assumes "0 < maxBytes" "maxBytes < int64_max"
  shows "compressedLimit maxBytes < int64_max"
proof -
  have "wrap64 (maxBytes * 4) \<noteq> int64_max"
  proof
    assume "wrap64 (maxBytes * 4) = int64_max"
    then have "(maxBytes * 4 + 9223372036854775808) mod (4 * 4611686018427387904) = 18446744073709551615"
      by (simp add: wrap64_def int64_max_def)
    moreover have "4 * (maxBytes + 2305843009213693952) = maxBytes * 4 + 9223372036854775808" by simp
    ultimately have "4 * ((maxBytes + 2305843009213693952) mod 4611686018427387904) = 18446744073709551615"
      using mod_mult_mult1 [of 4 "maxBytes + 2305843009213693952" 4611686018427387904] by (simp only:)
    moreover have "4 * z \<noteq> 18446744073709551615" for z :: int by presburger
    ultimately show False by blast
  qed
  then show ?thesis
    using wrap64_range [of "maxBytes * 4"] assms by (auto simp: compressedLimit_def Let_def)
qed

lemma limit_next: "0 \<le> m \<Longrightarrow> m < int64_max \<Longrightarrow> wrap64 (m + 1) = m + 1"
  by (simp add: wrap64_id)

lemma readAllLimited_bound:
  assumes "readAllLimited r maxBytes = Inr s" "0 < maxBytes"
  shows "int (length s) \<le> maxBytes"
  using assms by (auto simp: readAllLimited_def split: prod.splits option.splits if_splits)

lemma readRequestBody_exact:
  assumes "0 < maxBytes" "maxBytes < int64_max" "readAll r = (s, None)"
  shows "readRequestBody r maxBytes
      = (if int (length s) \<le> compressedLimit maxBytes then Inr s else Inl ErrRequestTooLarge)"
proof -
  let ?l = "compressedLimit maxBytes"
  have l: "maxBytes \<le> ?l" "?l < int64_max"
    using compressedLimit_ge compressedLimit_less [OF assms(1,2)] by simp_all
  then have "readAll (limitReader (wrap64 (?l + 1)) r) = (take (nat (?l + 1)) s, None)"
    using readAll_take [OF assms(3)] limit_next [of ?l] assms(1) by simp
  then show ?thesis using assms(1) l by (auto simp: readRequestBody_def Let_def)
qed

text \<open>
  A body that is read without an error comes back whole when it is no longer than four
  times the limit on requests, and is refused as too large otherwise; so a body within the
  limit itself is never refused here. This holds for every limit but the largest number.
\<close>

theorem body_read_exactly:
  assumes "0 < maxBytes" "maxBytes < int64_max" "readAll r = (s, None)"
  shows "readRequestBody r maxBytes
      = (if int (length s) \<le> compressedLimit maxBytes then Inr s else Inl ErrRequestTooLarge)
    \<and> maxBytes \<le> compressedLimit maxBytes
    \<and> (compressedLimit maxBytes = 4 * maxBytes) = (4 * maxBytes \<le> int64_max)"
proof -
  let ?l = "compressedLimit maxBytes"
  have l: "maxBytes \<le> ?l" "?l < int64_max"
    using compressedLimit_ge compressedLimit_less [OF assms(1,2)] by simp_all
  then have "(?l = 4 * maxBytes) = (4 * maxBytes \<le> int64_max)"
    using assms(1) wrap64_id [of "maxBytes * 4"] by (auto simp: compressedLimit_def Let_def mult.commute)
  with l readRequestBody_exact [OF assms] show ?thesis by blast
qed

theorem body_read_exactly_witness:
  "readRequestBody (whole ''abcde'') 1 = Inl ErrRequestTooLarge \<and> readRequestBody (whole ''abcd'') 1 = Inr ''abcd''"
proof -
  have l: "compressedLimit 1 = 4" by (simp add: compressedLimit_def wrap64_def)
  from body_read_exactly [of 1 "whole ''abcde''" "''abcde''"] body_read_exactly [of 1 "whole ''abcd''" "''abcd''"]
  show ?thesis by (simp add: int64_max_def l)
qed

text \<open>
  The largest limit that can be configured does not let everything through but nothing:
  one more than it is a negative number, at which the reader stops at once, so every body
  comes back empty and without an error.
\<close>

theorem largest_limit_empties_body:
  "readRequestBody r int64_max = Inr []"
proof -
  have w: "wrap64 (int64_max * 4) = - 4" "wrap64 (int64_max + 1) = - 9223372036854775808"
    by (simp_all add: wrap64_def int64_max_def)
  then have "compressedLimit int64_max = int64_max" by (simp add: compressedLimit_def int64_max_def)
  moreover have "0 < int64_max" by (simp add: int64_max_def)
  ultimately show ?thesis
    using limitReader_nonpos [of "- 9223372036854775808" r] w by (simp add: readRequestBody_def)
qed

section \<open>Parameters\<close>

lemma not_on_name: "\<not> EqualFold (param_name p) (to_lower key) \<Longrightarrow> \<not> param_on key p"
  by (simp add: param_on_def)

lemma to_lower_idem [simp]: "to_lower (to_lower s) = to_lower s"
  by (auto simp: to_lower_def ascii_lower_def Let_def)

lemma EqualFold_lower [simp]: "EqualFold s (to_lower t) = EqualFold s t"
  by (simp add: EqualFold_def)

lemma stripQueryParam_parts:
  "filter (\<lambda>p. p \<noteq> []) (split_on (CHR ''&'') (stripQueryParam params key))
   = filter (\<lambda>p. p \<noteq> [] \<and> \<not> EqualFold (param_name p) key) (split_on (CHR ''&'') params)"
proof (cases "params = []")
  case False
  let ?ps = "filter (\<lambda>p. p \<noteq> [] \<and> \<not> EqualFold (param_name p) key) (split_on (CHR ''&'') params)"
  have "filter (\<lambda>p. p \<noteq> []) (split_on (CHR ''&'') (join ''&'' ?ps)) = ?ps"
  proof (cases "?ps = []")
    case False
    then have "split_on (CHR ''&'') (join ''&'' ?ps) = ?ps"
      by (rule split_on_join) (auto dest: split_on_parts)
    moreover have "filter (\<lambda>p. p \<noteq> []) ?ps = ?ps" by (rule filter_True) simp
    ultimately show ?thesis by simp
  qed auto
  with False show ?thesis by (simp add: stripQueryParam_def)
qed (simp add: stripQueryParam_def)

lemma stripped_not_enabled: "\<not> queryParamEnabled (stripQueryParam params key) key"
proof
  assume "queryParamEnabled (stripQueryParam params key) key"
  then obtain p where p: "p \<in> set (split_on (CHR ''&'') (stripQueryParam params key))" "param_on key p"
    by (auto simp: queryParamEnabled_def list_ex_iff)
  then have "p \<in> set (filter (\<lambda>p. p \<noteq> []) (split_on (CHR ''&'') (stripQueryParam params key)))"
    by (simp add: param_on_def)
  then have "\<not> EqualFold (param_name p) key" unfolding stripQueryParam_parts by simp
  with p(2) show False by (simp add: param_on_def)
qed

section \<open>Decoding\<close>

text \<open>The decoder that a normalised Content-Encoding names.\<close>

definition http_decoder :: "codecs \<Rightarrow> string \<Rightarrow> (string \<Rightarrow> string + reader) option" where
  "http_decoder cd enc =
     (if enc = ''gzip'' \<or> enc = ''x-gzip'' then Some (cd_gzip cd)
      else if enc = ''deflate'' then Some (\<lambda>s. Inr (cd_flate cd s))
      else if enc = ''zstd'' then Some (cd_zstd cd)
      else if enc = ''lz4'' then Some (\<lambda>s. Inr (cd_lz4 cd s))
      else if enc = ''snappy'' \<or> enc = ''x-snappy-framed'' then Some (\<lambda>s. Inr (cd_snappy cd s))
      else if enc = ''br'' then Some (\<lambda>s. Inr (cd_brotli cd s))
      else None)"

lemma readAllLimited_exact:
  assumes "readAll r = (out, None)" "0 < maxBytes" "maxBytes < int64_max"
  shows "readAllLimited r maxBytes = (if int (length out) \<le> maxBytes then Inr out else Inl ErrRequestTooLarge)"
  using readAll_take [OF assms(1), of "maxBytes + 1"] assms(2,3) by (auto simp: readAllLimited_def limit_next)

lemma decompress_decoded:
  assumes "http_decoder cd (normalizeContentEncoding enc) = Some f" "f body = Inr r" "readAll r = (out, None)"
    and "0 < maxBytes" "maxBytes < int64_max"
  shows "decompressHTTPEncoding cd body enc maxBytes
    = (if int (length out) \<le> maxBytes then Inr out else Inl ErrRequestTooLarge)"
  using assms(1,2) readAllLimited_exact [OF assms(3-5)]
  by (auto simp: decompressHTTPEncoding_def http_decoder_def Let_def split: if_splits)

lemma normalized_lz4: "normalizeContentEncoding ''lz4'' = ''lz4''"
  by code_simp

lemma decompressed_size:
  "decompressRequestBody cd body enc params maxBytes = Inr (body', qs) \<Longrightarrow> maxBytes \<le> 0 \<or> int (length body') \<le> maxBytes"
  by (auto simp: decompressRequestBody_def checkRequestSize_def split: sum.splits option.splits if_splits)

text \<open>
  C35. A request that was decompressed is within the limit, whatever the decoders return, and
  its query string no longer asks for it: the parameter decompress is gone where it was on, the
  other parameters keep their order, and the query string is untouched where it was not.
\<close>

theorem decompressed_request:
  assumes "decompressRequestBody cd body enc params maxBytes = Inr (body', qs)"
  shows "(maxBytes \<le> 0 \<or> int (length body') \<le> maxBytes)
    \<and> \<not> queryParamEnabled qs ''decompress''
    \<and> filter (\<lambda>p. p \<noteq> []) (split_on (CHR ''&'') qs)
      = filter (\<lambda>p. p \<noteq> [] \<and> (queryParamEnabled params ''decompress'' \<longrightarrow> \<not> EqualFold (param_name p) ''decompress''))
          (split_on (CHR ''&'') params)"
proof -
  have size: "checkRequestSize (length body') maxBytes = None"
    and q: "qs = (if queryParamEnabled params ''decompress'' then stripQueryParam params ''decompress'' else params)"
    using assms by (auto simp: decompressRequestBody_def split: sum.splits option.splits if_splits)
  then show ?thesis
    using stripped_not_enabled [of params "''decompress''"] stripQueryParam_parts [of params "''decompress''"]
    by (auto simp: checkRequestSize_def split: if_splits)
qed

definition demo_codecs :: codecs where
  "demo_codecs = \<lparr>cd_gzip = \<lambda>s. Inl ''gzip: invalid header'', cd_flate = whole, cd_zstd = \<lambda>s. Inr (whole s),
     cd_lz4 = whole, cd_snappy = whole, cd_brotli = whole, cd_native = (\<lambda>s. [(drop 4 s, None), ([], Some (IoErr ''header: EOF''))])\<rparr>"

theorem decompressed_request_witness:
  "decompressRequestBody demo_codecs ''lz4 data'' ''LZ4'' ''db=d&Decompress=1&p'' 8 = Inr (''data'', ''db=d&p'')
   \<and> \<not> queryParamEnabled ''db=d&p'' ''decompress''"
proof -
  have h: "decompressRequestBody demo_codecs ''lz4 data'' ''LZ4'' ''db=d&Decompress=1&p'' 8 = Inr (''data'', ''db=d&p'')"
    by code_simp
  from decompressed_request [OF h] h show ?thesis by blast
qed

end
