(* ===== verification/Go_Conv.thy ===== *)
theory Go_Conv
  imports Go_IO
begin

text \<open>
  The conversions of Go's package \<open>strconv\<close> with which the program reads numbers and switches
  from its environment and from query parameters. \<open>int\<close> has 64 bits.
\<close>

section \<open>Numbers\<close>

text \<open>\<open>strconv.ParseUint\<close> in base 10; it stops at the digit with which the number gets too large.\<close>

datatype digits = DigitsOk int | DigitsSyntax | DigitsRange

definition digit_val :: "char \<Rightarrow> int" where
  "digit_val c = of_char c - 48"

fun parseDigits :: "int \<Rightarrow> string \<Rightarrow> digits" where
  "parseDigits n [] = DigitsOk n"
| "parseDigits n (c # cs) =
     (if \<not> is_digit_char c then DigitsSyntax
      else if 1844674407370955162 \<le> n then DigitsRange
      else if 18446744073709551615 < n * 10 + digit_val c then DigitsRange
      else parseDigits (n * 10 + digit_val c) cs)"

text \<open>
  \<open>strconv.ParseInt\<close> in base 10 with 64 bits, and \<open>strconv.Atoi\<close>: the value they return, and
  whether without an error. A syntax error comes with the value 0, a number out of range with
  the nearest one in range.
\<close>

definition ParseInt :: "string \<Rightarrow> int \<times> bool" where
  "ParseInt s =
     (let neg = starts_with s ''-'';
          ds = (if starts_with s ''+'' \<or> starts_with s ''-'' then drop 1 s else s)
      in if ds = [] then (0, False)
         else (case parseDigits 0 ds of
             DigitsSyntax \<Rightarrow> (0, False)
           | DigitsRange \<Rightarrow> (if neg then - 9223372036854775808 else int64_max, False)
           | DigitsOk n \<Rightarrow>
               if \<not> neg \<and> int64_max < n then (int64_max, False)
               else if neg \<and> 9223372036854775808 < n then (- 9223372036854775808, False)
               else (if neg then - n else n, True)))"

definition Atoi :: "string \<Rightarrow> int \<times> bool" where
  "Atoi = ParseInt"

section \<open>Switches\<close>

definition ParseBool :: "string \<Rightarrow> bool option" where
  "ParseBool s =
     (if s \<in> set [''1'', ''t'', ''T'', ''true'', ''TRUE'', ''True''] then Some True
      else if s \<in> set [''0'', ''f'', ''F'', ''false'', ''FALSE'', ''False''] then Some False
      else None)"

end
