(* ===== verification/Config.thy ===== *)
theory Config
  imports Go_Conv Go_Path
begin

text \<open>
  The configuration (utils.go): defaults, the configuration file, the environment, and the
  checks at the end. The file is what it does to the configuration read so far: \<open>decode\<close> is
  any function, as the fields of any JSON file may be set, or an error.
\<close>

section \<open>State\<close>

record clickhouseConfig =
  cc_Servers :: "string list"
  cc_QueryParams :: string
  cc_TLSServerName :: string
  cc_TLSSkipVerify :: bool
  cc_DownTimeout :: int
  cc_ConnectTimeout :: int
  cc_SendMaxRPS :: int
  cc_SendMaxBurst :: int

record Config =
  cf_Listen :: string
  cf_Clickhouse :: clickhouseConfig
  cf_ClickhouseBackup :: "clickhouseConfig option"
  cf_FlushCount :: int
  cf_FlushInterval :: int
  cf_CleanInterval :: int
  cf_RemoveQueryID :: bool
  cf_OpaqueInsert :: bool
  cf_BatchFormats :: "string list"
  cf_SyncInsert :: bool
  cf_MaxRequestBytes :: int
  cf_DumpCheckInterval :: int
  cf_BkpDumpCheckInterval :: int
  cf_DumpReplayBatch :: int
  cf_MaxDumpFiles :: int
  cf_DumpDir :: string
  cf_BkpDumpDir :: string
  cf_JournalEnabled :: bool
  cf_JournalDir :: string
  cf_JournalFsync :: bool
  cf_MaxJournalPending :: int
  cf_ShutdownDrainSec :: int
  cf_Debug :: bool
  cf_LogQueries :: bool
  cf_MetricsPrefix :: string
  cf_UseTLS :: bool
  cf_TLSCertFile :: string
  cf_TLSKeyFile :: string

datatype conf_err = FileError string | NoServersConfigured string | EmptyServerURL string
  | InvalidPath string | PathTraversal string

definition BackupEnabled :: "Config \<Rightarrow> bool" where
  "BackupEnabled c = (case cf_ClickhouseBackup c of None \<Rightarrow> False | Some b \<Rightarrow> cc_Servers b \<noteq> [])"

definition EffectiveJournalDir :: "Config \<Rightarrow> string" where
  "EffectiveJournalDir c =
     (if \<not> cf_JournalEnabled c then []
      else if cf_JournalDir c \<noteq> [] then cf_JournalDir c
      else ''journal'')"

definition defaultConfig :: Config where
  "defaultConfig = \<lparr>cf_Listen = '':8124'',
     cf_Clickhouse = \<lparr>cc_Servers = [''http://127.0.0.1:8123''], cc_QueryParams = [],
       cc_TLSServerName = [], cc_TLSSkipVerify = False, cc_DownTimeout = 60,
       cc_ConnectTimeout = 10, cc_SendMaxRPS = 0, cc_SendMaxBurst = 0\<rparr>,
     cf_ClickhouseBackup = None, cf_FlushCount = 10000, cf_FlushInterval = 1000,
     cf_CleanInterval = 0, cf_RemoveQueryID = True, cf_OpaqueInsert = False, cf_BatchFormats = [],
     cf_SyncInsert = False, cf_MaxRequestBytes = 134217728, cf_DumpCheckInterval = 300,
     cf_BkpDumpCheckInterval = 0, cf_DumpReplayBatch = 0, cf_MaxDumpFiles = 0,
     cf_DumpDir = ''dumps'', cf_BkpDumpDir = [], cf_JournalEnabled = False, cf_JournalDir = [],
     cf_JournalFsync = False, cf_MaxJournalPending = 0, cf_ShutdownDrainSec = 60,
     cf_Debug = False, cf_LogQueries = False, cf_MetricsPrefix = [], cf_UseTLS = False,
     cf_TLSCertFile = [], cf_TLSKeyFile = []\<rparr>"

section \<open>The environment\<close>

text \<open>\<open>os.Getenv\<close>: the empty string for a variable that is not set.\<close>

type_synonym environ = "string \<Rightarrow> string"

text \<open>\<open>readEnvInt\<close> stores what \<open>Atoi\<close> returns even when it reports an error.\<close>

definition readEnvInt :: "environ \<Rightarrow> string \<Rightarrow> int \<Rightarrow> int" where
  "readEnvInt env name v = (if env name \<noteq> [] then fst (Atoi (env name)) else v)"

definition readEnvInt64 :: "environ \<Rightarrow> string \<Rightarrow> int \<Rightarrow> int" where
  "readEnvInt64 env name v =
     (if env name \<noteq> [] then (case ParseInt (env name) of (x, ok) \<Rightarrow> if ok then x else v) else v)"

definition readEnvBool :: "environ \<Rightarrow> string \<Rightarrow> bool \<Rightarrow> bool" where
  "readEnvBool env name v =
     (if env name \<noteq> [] then (case ParseBool (env name) of None \<Rightarrow> v | Some b \<Rightarrow> b) else v)"

definition readEnvString :: "environ \<Rightarrow> string \<Rightarrow> string \<Rightarrow> string" where
  "readEnvString env name v = (if env name \<noteq> [] then env name else v)"

definition normalizeServerList :: "string list \<Rightarrow> string list" where
  "normalizeServerList servers = filter (\<lambda>s. s \<noteq> []) (map trim_space servers)"

definition splitTrimServers :: "string \<Rightarrow> string list" where
  "splitTrimServers lst = filter (\<lambda>s. s \<noteq> []) (map trim_space (split_on (CHR '','') lst))"

definition readEnvStringList :: "environ \<Rightarrow> string \<Rightarrow> string list \<Rightarrow> string list" where
  "readEnvStringList env name v = (if env name \<noteq> [] then splitTrimServers (env name) else v)"

text \<open>The overrides of \<open>ReadConfig\<close>, in its order: of the target, and of the other settings.\<close>

definition envClickhouse :: "environ \<Rightarrow> clickhouseConfig \<Rightarrow> clickhouseConfig" where
  "envClickhouse env c = c\<lparr>
     cc_DownTimeout := readEnvInt env ''CLICKHOUSE_DOWN_TIMEOUT'' (cc_DownTimeout c),
     cc_ConnectTimeout := readEnvInt env ''CLICKHOUSE_CONNECT_TIMEOUT'' (cc_ConnectTimeout c),
     cc_SendMaxRPS := readEnvInt env ''CLICKHOUSE_SEND_MAX_RPS'' (cc_SendMaxRPS c),
     cc_SendMaxBurst := readEnvInt env ''CLICKHOUSE_SEND_MAX_BURST'' (cc_SendMaxBurst c),
     cc_TLSServerName := readEnvString env ''CLICKHOUSE_TLS_SERVER_NAME'' (cc_TLSServerName c),
     cc_TLSSkipVerify := readEnvBool env ''CLICKHOUSE_INSECURE_TLS_SKIP_VERIFY'' (cc_TLSSkipVerify c)\<rparr>"

definition envConfig :: "environ \<Rightarrow> Config \<Rightarrow> Config" where
  "envConfig env c = c\<lparr>
     cf_Debug := readEnvBool env ''CLICKHOUSE_BULK_DEBUG'' (cf_Debug c),
     cf_FlushCount := readEnvInt env ''CLICKHOUSE_FLUSH_COUNT'' (cf_FlushCount c),
     cf_FlushInterval := readEnvInt env ''CLICKHOUSE_FLUSH_INTERVAL'' (cf_FlushInterval c),
     cf_CleanInterval := readEnvInt env ''CLICKHOUSE_CLEAN_INTERVAL'' (cf_CleanInterval c),
     cf_RemoveQueryID := readEnvBool env ''CLICKHOUSE_REMOVE_QUERY_ID'' (cf_RemoveQueryID c),
     cf_OpaqueInsert := readEnvBool env ''OPAQUE_INSERT'' (cf_OpaqueInsert c),
     cf_BatchFormats := readEnvStringList env ''BATCH_FORMATS'' (cf_BatchFormats c),
     cf_SyncInsert := readEnvBool env ''SYNC_INSERT'' (cf_SyncInsert c),
     cf_MaxRequestBytes := readEnvInt64 env ''MAX_REQUEST_BYTES'' (cf_MaxRequestBytes c),
     cf_DumpCheckInterval := readEnvInt env ''DUMP_CHECK_INTERVAL'' (cf_DumpCheckInterval c),
     cf_BkpDumpCheckInterval := readEnvInt env ''BKP_DUMP_CHECK_INTERVAL'' (cf_BkpDumpCheckInterval c),
     cf_DumpReplayBatch := readEnvInt env ''DUMP_REPLAY_BATCH'' (cf_DumpReplayBatch c),
     cf_MaxDumpFiles := readEnvInt env ''MAX_DUMP_FILES'' (cf_MaxDumpFiles c),
     cf_DumpDir := readEnvString env ''DUMP_DIR'' (cf_DumpDir c),
     cf_BkpDumpDir := readEnvString env ''CLICKHOUSE_BKP_DUMP_DIR'' (cf_BkpDumpDir c),
     cf_ShutdownDrainSec := readEnvInt env ''SHUTDOWN_DRAIN_SEC'' (cf_ShutdownDrainSec c),
     cf_JournalEnabled := readEnvBool env ''JOURNAL_ENABLED'' (cf_JournalEnabled c),
     cf_JournalDir := readEnvString env ''JOURNAL_DIR'' (cf_JournalDir c),
     cf_JournalFsync := readEnvBool env ''JOURNAL_FSYNC'' (cf_JournalFsync c),
     cf_MaxJournalPending := readEnvInt env ''MAX_JOURNAL_PENDING'' (cf_MaxJournalPending c),
     cf_Clickhouse := envClickhouse env (cf_Clickhouse c),
     cf_MetricsPrefix := readEnvString env ''METRICS_PREFIX'' (cf_MetricsPrefix c),
     cf_LogQueries := readEnvBool env ''LOG_QUERIES'' (cf_LogQueries c)\<rparr>"

definition envServers :: "environ \<Rightarrow> Config \<Rightarrow> Config" where
  "envServers env c =
     (let servers = env ''CLICKHOUSE_SERVERS'';
          ch = cf_Clickhouse c;
          ch = (if servers \<noteq> [] then ch\<lparr>cc_Servers := splitTrimServers servers\<rparr> else ch)
      in c\<lparr>cf_Clickhouse := ch\<lparr>cc_Servers := normalizeServerList (cc_Servers ch)\<rparr>\<rparr>)"

definition ensureBackupConfig :: "Config \<Rightarrow> clickhouseConfig" where
  "ensureBackupConfig c = (case cf_ClickhouseBackup c of
     Some b \<Rightarrow> b
   | None \<Rightarrow> (let ch = cf_Clickhouse c in
       \<lparr>cc_Servers = [], cc_QueryParams = [], cc_TLSServerName = cc_TLSServerName ch,
        cc_TLSSkipVerify = cc_TLSSkipVerify ch, cc_DownTimeout = cc_DownTimeout ch,
        cc_ConnectTimeout = cc_ConnectTimeout ch, cc_SendMaxRPS = 0, cc_SendMaxBurst = 0\<rparr>))"

definition envBackupClickhouse :: "environ \<Rightarrow> clickhouseConfig \<Rightarrow> clickhouseConfig" where
  "envBackupClickhouse env b = b\<lparr>
     cc_Servers := normalizeServerList (cc_Servers b),
     cc_DownTimeout := readEnvInt env ''CLICKHOUSE_BACKUP_DOWN_TIMEOUT'' (cc_DownTimeout b),
     cc_ConnectTimeout := readEnvInt env ''CLICKHOUSE_BACKUP_CONNECT_TIMEOUT'' (cc_ConnectTimeout b),
     cc_TLSServerName := readEnvString env ''CLICKHOUSE_BACKUP_TLS_SERVER_NAME'' (cc_TLSServerName b),
     cc_TLSSkipVerify := readEnvBool env ''CLICKHOUSE_BACKUP_INSECURE_TLS_SKIP_VERIFY'' (cc_TLSSkipVerify b),
     cc_QueryParams := readEnvString env ''CLICKHOUSE_BACKUP_QUERY_PARAMS'' (cc_QueryParams b),
     cc_SendMaxRPS := readEnvInt env ''CLICKHOUSE_BACKUP_SEND_MAX_RPS'' (cc_SendMaxRPS b),
     cc_SendMaxBurst := readEnvInt env ''CLICKHOUSE_BACKUP_SEND_MAX_BURST'' (cc_SendMaxBurst b)\<rparr>"

definition envBackup :: "environ \<Rightarrow> Config \<Rightarrow> Config" where
  "envBackup env c =
     (let servers = env ''CLICKHOUSE_BACKUP_SERVERS'';
          c = (if servers \<noteq> []
               then c\<lparr>cf_ClickhouseBackup := Some ((ensureBackupConfig c)\<lparr>cc_Servers := splitTrimServers servers\<rparr>)\<rparr>
               else c)
      in if BackupEnabled c
         then c\<lparr>cf_ClickhouseBackup := Some (envBackupClickhouse env (ensureBackupConfig c))\<rparr>
         else c)"

section \<open>Checks\<close>

definition validateClickhouseConfig :: "string \<Rightarrow> clickhouseConfig \<Rightarrow> conf_err option" where
  "validateClickhouseConfig name ch =
     (if cc_Servers ch = [] then Some (NoServersConfigured name)
      else if list_ex (\<lambda>u. trim_space u = []) (cc_Servers ch) then Some (EmptyServerURL name)
      else None)"

definition validateLocalDataDir :: "string \<Rightarrow> string \<Rightarrow> conf_err + string" where
  "validateLocalDataDir dir field =
     (let dir = trim_space dir; clean = path_Clean dir
      in if dir = [] then Inr []
         else if clean = ''.'' \<or> clean = ''..'' then Inl (InvalidPath field)
         else if starts_with dir (''..'' @ [slash]) \<or> contains dir (slash # ''..'' @ [slash])
         then Inl (PathTraversal field)
         else Inr clean)"

definition validateConfigDataDirs :: "Config \<Rightarrow> conf_err + Config" where
  "validateConfigDataDirs c = (case validateLocalDataDir (cf_DumpDir c) ''dump_dir'' of
     Inl e \<Rightarrow> Inl e
   | Inr dump \<Rightarrow> (case validateLocalDataDir (cf_BkpDumpDir c) ''bkp_dump_dir'' of
       Inl e \<Rightarrow> Inl e
     | Inr bkp \<Rightarrow> (case validateLocalDataDir (cf_JournalDir c) ''journal_dir'' of
         Inl e \<Rightarrow> Inl e
       | Inr journal \<Rightarrow> Inr (c\<lparr>cf_DumpDir := dump, cf_BkpDumpDir := bkp, cf_JournalDir := journal\<rparr>))))"

section \<open>ReadConfig\<close>

datatype file_stat = FileFound | FileMissing | StatFailed string

definition checkConfig :: "Config \<Rightarrow> conf_err + Config" where
  "checkConfig c = (case validateClickhouseConfig ''clickhouse'' (cf_Clickhouse c) of
     Some e \<Rightarrow> Inl e
   | None \<Rightarrow>
       (case (if BackupEnabled c then validateClickhouseConfig ''clickhouse-backup'' (the (cf_ClickhouseBackup c)) else None) of
          Some e \<Rightarrow> Inl e
        | None \<Rightarrow> validateConfigDataDirs
            (if cf_ShutdownDrainSec c \<le> 0 then c\<lparr>cf_ShutdownDrainSec := 60\<rparr> else c)))"

definition ReadConfig :: "file_stat \<Rightarrow> (Config \<Rightarrow> string + Config) \<Rightarrow> environ \<Rightarrow> conf_err + Config" where
  "ReadConfig st decode env =
     (case (case st of
              FileFound \<Rightarrow> decode defaultConfig
            | FileMissing \<Rightarrow> Inr defaultConfig
            | StatFailed e \<Rightarrow> Inl e) of
        Inl e \<Rightarrow> Inl (FileError e)
      | Inr c \<Rightarrow> checkConfig (envBackup env (envServers env (envConfig env c))))"

end
