(* ===== verification/Config_Props.thy ===== *)
theory Config_Props
  imports Config Collector
begin

text \<open>
  The properties of the configuration, each with a witness where it has hypotheses.
\<close>

section \<open>Cleaned directories\<close>

lemma path_Clean_parts: "path_parts (path_Clean s) = path_parts s" "rooted (path_Clean s) = rooted s"
  unfolding path_Clean_def by (rule path_parts_render [OF path_parts_clean], rule rooted_render [OF path_parts_clean])

lemma path_Clean_idem [simp]: "path_Clean (path_Clean s) = path_Clean s"
  using path_Clean_parts [of s] by (simp add: path_Clean_def)

lemma clean_parts_no_dotdot:
  "''..'' \<notin> set xs \<Longrightarrow> ''..'' \<notin> set acc \<Longrightarrow> clean_parts rt acc (xs @ ys) = clean_parts rt (rev (clean_parts rt acc xs)) ys
    \<and> ''..'' \<notin> set (clean_parts rt acc xs)"
  by (induction xs arbitrary: acc) auto

text \<open>An element that is neither first nor last stands between two slashes.\<close>

lemma split_on_middle:
  assumes "split_on c s = u @ p # v" "v \<noteq> []"
  shows "(u = [] \<longrightarrow> starts_with s (p @ [c])) \<and> (u \<noteq> [] \<longrightarrow> contains s (c # p @ [c]))"
proof -
  have v: "join [c] (p # v) = p @ c # join [c] v" using assms(2) by (simp add: join_Cons)
  have s: "s = join [c] (u @ p # v)" using join_split_on [of c s] assms(1) by simp
  have "\<exists>w. join [c] (u @ p # v) = w @ c # join [c] (p # v)" if "u \<noteq> []"
    using that
  proof (induction u)
    case (Cons x u)
    show ?case
    proof (cases "u = []")
      case True
      then show ?thesis by (auto simp: join_Cons)
    next
      case False
      with Cons.IH obtain w where "join [c] (u @ p # v) = w @ c # join [c] (p # v)" by blast
      then have "join [c] ((x # u) @ p # v) = (x @ c # w) @ c # join [c] (p # v)"
        using False by (simp add: join_Cons)
      then show ?thesis by blast
    qed
  qed simp
  then show ?thesis
    using s v by (auto simp: starts_with_iff contains_iff)
qed

lemma validated_dir:
  assumes "validateLocalDataDir dir field = Inr c" "c \<noteq> []"
  shows "path_Clean c = c \<and> ''..'' \<notin> set (path_parts c) \<and> c \<noteq> ''.''"
proof -
  let ?d = "trim_space dir" and ?sep = "[slash]"
  have c: "c = path_Clean ?d" "c \<noteq> ''.''" "c \<noteq> ''..''"
    and no: "\<not> starts_with ?d (''..'' @ ?sep)" "\<not> contains ?d (slash # ''..'' @ ?sep)"
    using assms by (auto simp: validateLocalDataDir_def Let_def split: if_splits)
  obtain u p where up: "split_on slash ?d = u @ [p]"
    by (metis rev_exhaust split_on_not_Nil)
  have "''..'' \<notin> set u"
  proof
    assume "''..'' \<in> set u"
    then obtain x y where "u = x @ ''..'' # y" by (meson split_list)
    then have "split_on slash ?d = x @ ''..'' # (y @ [p])" using up by simp
    from split_on_middle [OF this] no show False by (cases x) auto
  qed
  with clean_parts_no_dotdot [of u "[]" "rooted ?d" "[p]"]
  have parts: "path_parts ?d = clean_parts (rooted ?d) (rev (clean_parts (rooted ?d) [] u)) [p]"
    "''..'' \<notin> set (clean_parts (rooted ?d) [] u)" using up by (simp_all add: path_parts_def)
  have "''..'' \<notin> set (path_parts ?d)"
  proof (cases "p = ''..''")
    case True
    show ?thesis
    proof (cases "rev (clean_parts (rooted ?d) [] u)")
      case Nil
      with True parts c(1,3) show ?thesis
        by (auto simp: path_Clean_def render_path_def split: if_splits)
    next
      case (Cons a as)
      have set: "set (a # as) = set (clean_parts (rooted ?d) [] u)" using Cons by (metis set_rev)
      then have "a \<noteq> ''..''" using parts(2) by auto
      then have "path_parts ?d = rev as" using True parts(1) Cons by simp
      with set parts(2) show ?thesis by auto
    qed
  next
    case False
    with parts show ?thesis by simp
  qed
  with c path_Clean_parts(1) [of ?d] show ?thesis by simp
qed

section \<open>What a configuration that was read satisfies\<close>

definition valid_servers :: "string list \<Rightarrow> bool" where
  "valid_servers us = (us \<noteq> [] \<and> list_all (\<lambda>u. u \<noteq> [] \<and> trim_space u = u) us)"

definition valid_dir :: "string \<Rightarrow> bool" where
  "valid_dir d = (d = [] \<or> path_Clean d = d \<and> d \<noteq> ''.'' \<and> ''..'' \<notin> set (path_parts d))"

lemma normalizeServerList_valid: "normalizeServerList us \<noteq> [] \<Longrightarrow> valid_servers (normalizeServerList us)"
  by (auto simp: valid_servers_def normalizeServerList_def list_all_iff)

lemma validated_dir': "validateLocalDataDir dir field = Inr c \<Longrightarrow> valid_dir c"
  using validated_dir by (fastforce simp: valid_dir_def)

lemma validated_dirs:
  assumes "validateConfigDataDirs c = Inr c'"
  shows "\<exists>x y z. c' = c\<lparr>cf_DumpDir := x, cf_BkpDumpDir := y, cf_JournalDir := z\<rparr> \<and> list_all valid_dir [x, y, z]"
  using assms by (auto simp: validateConfigDataDirs_def split: sum.splits dest!: validated_dir')

lemma checkConfig_ok:
  assumes "checkConfig c = Inr c'"
  shows "cf_Clickhouse c' = cf_Clickhouse c \<and> cf_ClickhouseBackup c' = cf_ClickhouseBackup c
    \<and> cf_FlushInterval c' = cf_FlushInterval c \<and> cf_FlushCount c' = cf_FlushCount c
    \<and> cc_Servers (cf_Clickhouse c) \<noteq> [] \<and> 0 < cf_ShutdownDrainSec c'
    \<and> list_all valid_dir [cf_DumpDir c', cf_BkpDumpDir c', cf_JournalDir c']"
proof -
  let ?c = "if cf_ShutdownDrainSec c \<le> 0 then c\<lparr>cf_ShutdownDrainSec := 60\<rparr> else c"
  have "validateConfigDataDirs ?c = Inr c'" "cc_Servers (cf_Clickhouse c) \<noteq> []"
    using assms by (auto simp: checkConfig_def validateClickhouseConfig_def split: option.splits if_splits)
  from validated_dirs [OF this(1)] this(2) show ?thesis by auto
qed

lemma envBackup_fields:
  "cf_Clickhouse (envBackup env c) = cf_Clickhouse c" "cf_FlushInterval (envBackup env c) = cf_FlushInterval c"
  "cf_FlushCount (envBackup env c) = cf_FlushCount c"
  by (simp_all add: envBackup_def Let_def)

lemma envBackup_servers:
  "BackupEnabled (envBackup env c) \<Longrightarrow> valid_servers (cc_Servers (the (cf_ClickhouseBackup (envBackup env c))))"
  by (auto simp: envBackup_def envBackupClickhouse_def BackupEnabled_def Let_def normalizeServerList_valid
      split: option.splits if_splits)

lemma ReadConfig_ok:
  assumes "ReadConfig st decode env = Inr c"
  obtains c0 where "checkConfig (envBackup env (envServers env (envConfig env c0))) = Inr c"
  using assms by (auto simp: ReadConfig_def split: sum.splits file_stat.splits)

lemma config_valid_servers:
  assumes "ReadConfig st decode env = Inr c"
  shows "valid_servers (cc_Servers (cf_Clickhouse c))"
proof -
  obtain c0 where c0: "checkConfig (envBackup env (envServers env (envConfig env c0))) = Inr c"
    using assms by (rule ReadConfig_ok)
  let ?b = "envServers env (envConfig env c0)"
  note k = checkConfig_ok [OF c0]
  have "cc_Servers (cf_Clickhouse ?b) \<noteq> []" using k by (simp add: envBackup_fields)
  then show ?thesis
    using k normalizeServerList_valid by (simp add: envBackup_fields envServers_def Let_def)
qed



text \<open>
  An interval in the environment that is not a number, such as 1s, is not refused: it turns
  the interval into 0, the program starts, and the first insert it batches brings it down, as
  the timer of its table cannot have this interval.
\<close>

theorem bad_interval_env_panics:
  assumes "ReadConfig st decode env = Inr c"
    and "env ''CLICKHOUSE_FLUSH_INTERVAL'' \<noteq> []" "Atoi (env ''CLICKHOUSE_FLUSH_INTERVAL'') = (0, False)"
  shows "cf_FlushInterval c = 0
    \<and> Push S now params content i (NewCollector (cf_FlushCount c) (cf_FlushInterval c) (cf_CleanInterval c)
        (cf_RemoveQueryID c) (cf_OpaqueInsert c) (cf_BatchFormats c)) s = None"
proof -
  obtain c0 where c0: "checkConfig (envBackup env (envServers env (envConfig env c0))) = Inr c"
    using assms(1) by (rule ReadConfig_ok)
  have "cf_FlushInterval c = readEnvInt env ''CLICKHOUSE_FLUSH_INTERVAL'' (cf_FlushInterval c0)"
    using checkConfig_ok [OF c0] by (simp add: envBackup_fields envServers_def envConfig_def Let_def)
  with assms(2,3) have "cf_FlushInterval c = 0" by (simp add: readEnvInt_def)
  moreover have "duration_mult millisecond 0 = 0" by (simp add: duration_mult_exact max_duration_def millisecond_def)
  ultimately show ?thesis by (simp add: Push_def NewCollector_def addTable_def Let_def)
qed

theorem bad_interval_env_panics_witness:
  "\<exists>c. ReadConfig FileMissing Inr (\<lambda>n. if n = ''CLICKHOUSE_FLUSH_INTERVAL'' then ''1s'' else []) = Inr c
    \<and> cf_FlushInterval c = 0"
proof -
  let ?env = "\<lambda>n. if n = ''CLICKHOUSE_FLUSH_INTERVAL'' then ''1s'' else []"
  have "(case ReadConfig FileMissing Inr ?env of Inl _ \<Rightarrow> False | Inr c \<Rightarrow> cf_FlushInterval c = 0)"
    "?env ''CLICKHOUSE_FLUSH_INTERVAL'' \<noteq> []" "Atoi (?env ''CLICKHOUSE_FLUSH_INTERVAL'') = (0, False)" by code_simp+
  note e = this
  then obtain c where c: "ReadConfig FileMissing Inr ?env = Inr c" by (auto split: sum.splits)
  from bad_interval_env_panics [OF c e(2,3), THEN conjunct1] c show ?thesis by blast
qed

end
