(* ===== verification/Log_Text.thy ===== *)
theory Log_Text
  imports Go_Strings
begin

text \<open>
  What the program writes of a request to its log (utils_log.go): the parameters without
  secrets, and texts cut to a length.
\<close>

section \<open>Definitions\<close>

definition logTruncateDefault :: int where
  "logTruncateDefault = 256"

definition sensitive_keys :: "string list" where
  "sensitive_keys = [''password'', ''pass'', ''pwd'', ''secret'', ''token'', ''access_key'', ''api_key'', ''key'']"

definition isSensitiveParamKey :: "string \<Rightarrow> bool" where
  "isSensitiveParamKey key = (to_lower (trim_space key) \<in> set sensitive_keys)"

text \<open>\<open>strings.Cut\<close> at the first equals sign: the key and the value, if there is one.\<close>

definition cut_eq :: "string \<Rightarrow> (string \<times> string) option" where
  "cut_eq p = (case index_of ''='' p of None \<Rightarrow> None | Some i \<Rightarrow> Some (take i p, drop (i + 1) p))"

definition redactPart :: "string \<Rightarrow> string" where
  "redactPart p = (case cut_eq p of
     None \<Rightarrow> p
   | Some (key, _) \<Rightarrow> if isSensitiveParamKey key then key @ ''=***'' else p)"

definition redactURLParams :: "string \<Rightarrow> string" where
  "redactURLParams params =
     (if params = [] then []
      else join ''&'' (map redactPart (filter (\<lambda>p. p \<noteq> []) (split_on (CHR ''&'') params))))"

text \<open>\<open>strings.ReplaceAll\<close> of the line break by a backslash and an n.\<close>

definition escape_NL :: "string \<Rightarrow> string" where
  "escape_NL s = concat (map (\<lambda>c. if c = NL then [CHR 0x5C, CHR ''n''] else [c]) s)"

definition logTruncate :: "string \<Rightarrow> int \<Rightarrow> string" where
  "logTruncate s mx =
     (let mx = (if mx \<le> 0 then logTruncateDefault else mx); s = escape_NL s
      in if int (length s) \<le> mx then s else take (nat mx) s @ ''...'')"

text \<open>\<open>logInsertMeta\<close>: the parameters it prints, the number of rows and of bytes.\<close>

definition logInsertMeta :: "string \<Rightarrow> string \<Rightarrow> string \<times> nat \<times> nat" where
  "logInsertMeta params content =
     (redactURLParams params, if content \<noteq> [] then count_list content NL + 1 else 0, length content)"

section \<open>Facts\<close>

lemma cut_eq_Some: "cut_eq p = Some (k, v) \<Longrightarrow> p = k @ ''='' @ v \<and> CHR ''='' \<notin> set k"
proof -
  have *: "index_of ''='' p = Some i \<Longrightarrow> p = take i p @ ''='' @ drop (i + 1) p \<and> CHR ''='' \<notin> set (take i p)" for i
    by (induction p arbitrary: i) (auto split: if_splits)
  assume "cut_eq p = Some (k, v)"
  with * show ?thesis by (auto simp: cut_eq_def split: option.splits)
qed

lemma cut_eq_append: "CHR ''='' \<notin> set k \<Longrightarrow> cut_eq (k @ ''='' @ v) = Some (k, v)"
proof -
  have "CHR ''='' \<notin> set k \<Longrightarrow> index_of ''='' (k @ ''='' @ v) = Some (length k)"
    by (induction k) auto
  then show "CHR ''='' \<notin> set k \<Longrightarrow> ?thesis" by (simp add: cut_eq_def)
qed

lemma redactPart_amp: "CHR ''&'' \<notin> set p \<Longrightarrow> CHR ''&'' \<notin> set (redactPart p)"
  by (auto simp: redactPart_def split: option.splits dest!: cut_eq_Some)

lemma redactPart_safe:
  assumes "cut_eq (redactPart p) = Some (k, v)" "isSensitiveParamKey k"
  shows "v = ''***''"
proof (cases "cut_eq p")
  case None
  with assms show ?thesis by (simp add: redactPart_def)
next
  case (Some kv)
  then obtain a b where ab: "cut_eq p = Some (a, b)" by (cases kv) simp
  then have "CHR ''='' \<notin> set a" using cut_eq_Some by blast
  then have "cut_eq (a @ ''=***'') = Some (a, ''***'')" using cut_eq_append [of a "''***''"] by simp
  with ab assms show ?thesis by (auto simp: redactPart_def split: if_splits)
qed

lemma redact_parts:
  "params \<noteq> [] \<Longrightarrow> filter (\<lambda>p. p \<noteq> []) (split_on (CHR ''&'') params) \<noteq> [] \<Longrightarrow>
   split_on (CHR ''&'') (redactURLParams params) = map redactPart (filter (\<lambda>p. p \<noteq> []) (split_on (CHR ''&'') params))"
  unfolding redactURLParams_def
  by simp (rule split_on_join, auto dest: split_on_parts redactPart_amp)

section \<open>The properties\<close>

text \<open>
  C40. The parameters in the log show no secret: a parameter of the printed text whose key is
  one of the sensitive ones, in any case and with white space around it, has three stars for
  its value, and what is printed is the parameters of the request one by one.
\<close>

theorem log_hides_secrets:
  assumes "p \<in> set (split_on (CHR ''&'') (redactURLParams params))" "cut_eq p = Some (k, v)" "isSensitiveParamKey k"
  shows "v = ''***''"
proof (cases "params = [] \<or> filter (\<lambda>p. p \<noteq> []) (split_on (CHR ''&'') params) = []")
  case True
  then have "redactURLParams params = []" by (auto simp: redactURLParams_def)
  with assms(1,2) show ?thesis by (simp add: cut_eq_def)
next
  case False
  with assms(1) redact_parts [of params] obtain q where "p = redactPart q" by auto
  with assms(2,3) redactPart_safe show ?thesis by simp
qed

theorem log_hides_secrets_witness:
  "redactURLParams ''user=u&PassWord=a=b&&db=d'' = ''user=u&PassWord=***&db=d'' \<and> ''***'' = drop 9 ''PassWord=***''"
proof -
  have h: "''PassWord=***'' \<in> set (split_on (CHR ''&'') (redactURLParams ''user=u&PassWord=a=b&&db=d''))"
    "cut_eq ''PassWord=***'' = Some (''PassWord'', ''***'')" "isSensitiveParamKey ''PassWord''"
    "redactURLParams ''user=u&PassWord=a=b&&db=d'' = ''user=u&PassWord=***&db=d''" by code_simp+
  have "drop 9 ''PassWord=***'' = ''***''" by code_simp
  with log_hides_secrets [OF h(1-3)] h(4) show ?thesis by simp
qed

end
