(* ===== verification/Response_Headers.thy ===== *)
theory Response_Headers
  imports Sender "HOL-Library.AList"
begin

text \<open>
  HTTP headers as Go's package \<open>net/http\<close> keeps them, and the answer of ClickHouse passed on to
  the client (response_headers.go). The web framework gets a status, a content type and a
  body; its method \<open>String\<close> documents the content type text/plain.
\<close>

section \<open>Package net/http\<close>

definition is_tchar :: "char \<Rightarrow> bool" where
  "is_tchar c = (is_alnum c \<or> c \<in> set ''!#$%&*+-.^_|~'' \<or> c = CHR 0x27 \<or> c = CHR 0x60)"

definition ascii_upper :: "char \<Rightarrow> char" where
  "ascii_upper c = (let n = of_char c :: nat in if 97 \<le> n \<and> n \<le> 122 then char_of (n - 32) else c)"

fun canonical_from :: "bool \<Rightarrow> string \<Rightarrow> string" where
  "canonical_from up [] = []"
| "canonical_from up (c # cs) =
     (let c = (if up then ascii_upper c else ascii_lower c) in c # canonical_from (c = CHR ''-'') cs)"

definition CanonicalHeaderKey :: "string \<Rightarrow> string" where
  "CanonicalHeaderKey s = (if list_all is_tchar s then canonical_from True s else s)"

definition header_values :: "string \<Rightarrow> headers \<Rightarrow> string list" where
  "header_values k h = (case map_of h k of None \<Rightarrow> [] | Some vs \<Rightarrow> vs)"

definition header_Get :: "string \<Rightarrow> headers \<Rightarrow> string" where
  "header_Get k h = (case header_values (CanonicalHeaderKey k) h of [] \<Rightarrow> [] | v # _ \<Rightarrow> v)"

definition header_Add :: "string \<Rightarrow> string \<Rightarrow> headers \<Rightarrow> headers" where
  "header_Add k v h = (let k = CanonicalHeaderKey k in AList.update k (header_values k h @ [v]) h)"

section \<open>Headers passed on\<close>

definition hopByHopResponseHeaders :: "string list" where
  "hopByHopResponseHeaders = [''connection'', ''keep-alive'', ''proxy-authenticate'',
     ''proxy-authorization'', ''te'', ''trailers'', ''transfer-encoding'', ''upgrade'']"

definition skip_header :: "string \<Rightarrow> bool" where
  "skip_header k = (let kl = to_lower k
     in kl \<in> set hopByHopResponseHeaders \<or> kl = ''content-length'' \<or> kl = ''content-encoding'')"

text \<open>A nil map of headers is \<^term>\<open>None\<close>.\<close>

definition copyProxiedResponseHeaders :: "headers \<Rightarrow> headers option \<Rightarrow> headers" where
  "copyProxiedResponseHeaders dst src = (case src of
     None \<Rightarrow> dst
   | Some src \<Rightarrow> fold (\<lambda>(k, vals) dst. if skip_header k then dst else fold (header_Add k) vals dst) src dst)"

section \<open>The answer to the client\<close>

record http_reply =
  hr_status :: int
  hr_ctype :: string
  hr_body :: string
  hr_headers :: headers

definition text_plain :: string where
  "text_plain = ''text/plain; charset=UTF-8''"

definition string_reply :: "int \<Rightarrow> string \<Rightarrow> http_reply" where
  "string_reply status body = \<lparr>hr_status = status, hr_ctype = text_plain, hr_body = body, hr_headers = []\<rparr>"

definition writeProxiedQueryResponse :: "int \<Rightarrow> string \<Rightarrow> headers option \<Rightarrow> http_reply" where
  "writeProxiedQueryResponse status body headers =
     (let h = copyProxiedResponseHeaders [] headers; ct = header_Get ''Content-Type'' h
      in \<lparr>hr_status = status, hr_ctype = (if ct = [] then text_plain else ct), hr_body = body, hr_headers = h\<rparr>)"

section \<open>What is passed on\<close>

lemma header_values_Add:
  "header_values k (header_Add k' v h) = header_values k h @ (if k = CanonicalHeaderKey k' then [v] else [])"
  by (simp add: header_values_def header_Add_def Let_def update_conv')

lemma header_values_Adds:
  "header_values k (fold (header_Add k') vs h) = header_values k h @ (if k = CanonicalHeaderKey k' then vs else [])"
  by (induction vs arbitrary: h) (simp_all add: header_values_Add)

text \<open>
  The client gets every header of the answer of ClickHouse with all its values in order,
  except those that belong to the connection and the two that describe the body's encoding, and
  no others.
\<close>

theorem headers_passed_on:
  "header_values k (copyProxiedResponseHeaders dst (Some src)) = header_values k dst
     @ concat (map snd (filter (\<lambda>(k', _). CanonicalHeaderKey k' = k \<and> \<not> skip_header k') src))"
proof (induction src arbitrary: dst)
  case Nil
  show ?case by (simp add: copyProxiedResponseHeaders_def)
next
  case (Cons x src)
  obtain k' vs where x: "x = (k', vs)" by (cases x)
  let ?dst = "if skip_header k' then dst else fold (header_Add k') vs dst"
  have "copyProxiedResponseHeaders dst (Some (x # src)) = copyProxiedResponseHeaders ?dst (Some src)"
    by (simp add: copyProxiedResponseHeaders_def x)
  with Cons.IH [of ?dst] show ?case by (auto simp: x header_values_Adds)
qed

end
