(* ===== verification/Server.thy ===== *)
theory Server
  imports Decompress Response_Headers Go_Conv Config Collector Clickhouse
begin

text \<open>
  The HTTP server (server.go, sync_insert.go): the handler of inserts and queries, inserts that
  wait for ClickHouse, the manual replay, and the shutdown. The collector, the live target with
  the journal, and the backup target are parts of the server's state.
\<close>

section \<open>State\<close>

text \<open>The senders of both targets; there may be no backup.\<close>

record 'q targets =
  tg_live :: "'q worker"
  tg_backup :: "'q worker option"

text \<open>The goroutines that a handler has started and that have not run yet.\<close>

datatype spawned = SpawnPush string string u64 | SpawnOpaque string string string u64

text \<open>
  \<open>sv_hasLive\<close>, \<open>sv_hasBackup\<close>: whether the fields LiveSender and BackupSender are set. The
  journal of the collector is that of the live sender.
\<close>

record 'q Server =
  sv_Collector :: Collector
  sv_targets :: "'q targets"
  sv_hasLive :: bool
  sv_hasBackup :: bool
  sv_BackupOn :: bool
  sv_MaxRequestBytes :: int
  sv_SyncInsert :: bool
  sv_spawned :: "spawned list"

record http_request =
  rq_body :: reader
  rq_query :: string
  rq_auth :: "(string \<times> string) option"
  rq_encoding :: string
  rq_ctype :: string
  rq_sync :: string

section \<open>The senders as one\<close>

definition worker_sender :: "'q queue_api \<Rightarrow> env \<Rightarrow> 'q worker Sender" where
  "worker_sender Q E = \<lparr>
     s_Send = (\<lambda>r s. s\<lparr>wk_ch := Send Q r (wk_ch s)\<rparr>),
     s_SendQuery = (\<lambda>r s. map_option (\<lambda>(q, c, w). (q, s\<lparr>wk_ch := c, wk_world := w\<rparr>))
        (SendQuery E r (wk_ch s) (wk_world s))),
     s_Len = (\<lambda>s. q_Len Q (ch_Queue (wk_ch s))),
     s_Empty = (\<lambda>s. q_Empty Q (ch_Queue (wk_ch s)))\<rparr>"

text \<open>The sender \<open>runServer\<close> gives the collector: the live one, or the pair of both.\<close>

definition main_sender :: "'q queue_api \<Rightarrow> env \<Rightarrow> env \<Rightarrow> 'q targets Sender" where
  "main_sender Q E E' =
     (let L = worker_sender Q E; B = worker_sender Q E'
      in \<lparr>s_Send = (\<lambda>r t. t\<lparr>tg_live := s_Send L r (tg_live t), tg_backup := map_option (s_Send B r) (tg_backup t)\<rparr>),
          s_SendQuery = (\<lambda>r t. map_option (\<lambda>(q, s). (q, t\<lparr>tg_live := s\<rparr>)) (s_SendQuery L r (tg_live t))),
          s_Len = (\<lambda>t. s_Len L (tg_live t) + (case tg_backup t of None \<Rightarrow> 0 | Some b \<Rightarrow> s_Len B b)),
          s_Empty = (\<lambda>t. s_Empty L (tg_live t) \<and> (case tg_backup t of None \<Rightarrow> True | Some b \<Rightarrow> s_Empty B b))\<rparr>)"

section \<open>The journal in a handler\<close>

text \<open>\<open>appendInsertJournal\<close> and \<open>appendOpaqueJournal\<close>; the number is 0 without a journal.\<close>

definition with_live :: "('q worker \<Rightarrow> 'q worker) \<Rightarrow> 'q Server \<Rightarrow> 'q Server" where
  "with_live f sv = sv\<lparr>sv_targets := (sv_targets sv)\<lparr>tg_live := f (tg_live (sv_targets sv))\<rparr>\<rparr>"

definition appendJournal :: "(journal \<Rightarrow> journal_dir \<Rightarrow> u64 jresult) \<Rightarrow> 'q Server \<Rightarrow> (jerr + u64) \<times> 'q Server" where
  "appendJournal app sv = (let live = tg_live (sv_targets sv) in case wk_journal live of
     None \<Rightarrow> (Inr 0, sv)
   | Some j \<Rightarrow> (case app j (wk_jdir live) of
       (res, j', d') \<Rightarrow> (res, with_live (\<lambda>s. s\<lparr>wk_journal := Some j', wk_jdir := d'\<rparr>) sv)))"

text \<open>\<open>journalAppendError\<close>; \<^term>\<open>None\<close> where the call panicked and the connection is cut.\<close>

definition journalAppendError :: "jerr \<Rightarrow> http_reply option" where
  "journalAppendError e =
     (if e = JPanic then None
      else if e = ErrJournalBacklog then Some (string_reply 503 (''Journal backlog full'' @ [NL]))
      else Some (string_reply 500 (''Journal write failed'' @ [NL])))"

section \<open>Inserts that wait for ClickHouse (sync_insert.go)\<close>

definition wantsSyncInsert :: "bool \<Rightarrow> string \<Rightarrow> bool" where
  "wantsSyncInsert configEnabled header = (configEnabled \<or> is_on header)"

fun insertParts :: "string list \<Rightarrow> string \<times> string \<Rightarrow> string \<times> string" where
  "insertParts [] (query, params) = (query, params)"
| "insertParts (p # ps) (query, params) =
     (if p = [] then insertParts ps (query, params)
      else if HasPrefix p ''query='' then insertParts ps (drop 6 p, params)
      else insertParts ps (query, params @ ''&'' @ p))"

definition separateInsertParams :: "string \<Rightarrow> string \<times> string" where
  "separateInsertParams paramsIn =
     (case insertParts (split_on (CHR ''&'') paramsIn) ([], []) of (query, params) \<Rightarrow>
        (let params = (if 0 < length params then trim_space (drop 1 params) else params)
         in case QueryUnescape query of
              None \<Rightarrow> ([], paramsIn)
            | Some q \<Rightarrow> (q, params)))"

definition buildSyncBatchedRequest :: "string \<Rightarrow> string \<Rightarrow> u64 \<Rightarrow> ClickhouseRequest" where
  "buildSyncBatchedRequest params content journalID =
     (case separateInsertParams params of (query, outParams) \<Rightarrow>
        \<lparr>req_Params = outParams, req_Query = query, req_Content = query @ NL # content,
         req_ContentType = [], req_Count = 1,
         req_JournalIDs = (if 0 < journalID then [journalID] else []),
         req_isInsert = True, req_opaque = False\<rparr>)"

definition buildSyncOpaqueRequest :: "string \<Rightarrow> string \<Rightarrow> string \<Rightarrow> u64 \<Rightarrow> ClickhouseRequest" where
  "buildSyncOpaqueRequest params content contentType journalID =
     \<lparr>req_Params = params, req_Query = insertQueryString params content, req_Content = content,
      req_ContentType = contentType, req_Count = 1,
      req_JournalIDs = (if 0 < journalID then [journalID] else []),
      req_isInsert = True, req_opaque = True\<rparr>"

text \<open>The text of an error; that of a wrong status goes on in Go, but such an error has a status.\<close>

fun err_text :: "send_err \<Rightarrow> string" where
  "err_text ErrServerIsDown = ''server is down''"
| "err_text ErrNoServers = ''No working clickhouse servers''"
| "err_text (ErrWrongStatus n) = ''wrong server status '' @ itoa n"

definition finishSyncInsert :: "env \<Rightarrow> ClickhouseRequest \<Rightarrow> string \<Rightarrow> int \<Rightarrow> headers option \<Rightarrow> send_err option
    \<Rightarrow> 'q Server \<Rightarrow> http_reply \<times> 'q Server" where
  "finishSyncInsert E req resp status headers sendErr sv =
     (let sv = (if sendErr \<noteq> None \<and> sv_hasLive sv
                then with_live (\<lambda>s. snd (ch_Dump (req_Params req) (req_Content req) resp (dump_kind status) status s)) sv
                else sv);
          sv = (if sv_hasLive sv then with_live (ackJournal E (req_JournalIDs req)) sv else sv)
      in (writeProxiedQueryResponse status resp headers, sv))"

text \<open>\<^term>\<open>None\<close> when the query never returns.\<close>

definition syncSendInsert :: "'q queue_api \<Rightarrow> env \<Rightarrow> env \<Rightarrow> ClickhouseRequest \<Rightarrow> 'q Server
    \<Rightarrow> (http_reply \<times> 'q Server) option" where
  "syncSendInsert Q E E' req sv =
     (if \<not> sv_hasLive sv then Some (string_reply 503 (''No ClickHouse configured'' @ [NL]), sv)
      else (case s_SendQuery (worker_sender Q E) req (tg_live (sv_targets sv)) of
          None \<Rightarrow> None
        | Some (q, live) \<Rightarrow>
            (let sv = with_live (\<lambda>_. live) sv in
             case rp_err q of
               None \<Rightarrow>
                 (let sv = (if sv_BackupOn sv \<and> sv_hasBackup sv
                            then sv\<lparr>sv_targets := (sv_targets sv)\<lparr>tg_backup :=
                                   map_option (s_Send (worker_sender Q E') req) (tg_backup (sv_targets sv))\<rparr>\<rparr>
                            else sv)
                  in Some (finishSyncInsert E req (rp_response q) (rp_status q) (rp_headers q) None sv))
             | Some e \<Rightarrow>
                 (let (status, resp) = (if rp_status q = 0
                        then (502, if rp_response q = [] then err_text e @ [NL] else rp_response q)
                        else (rp_status q, rp_response q))
                  in Some (finishSyncInsert E req resp status (rp_headers q) (Some e) sv)))))"

definition acceptBatchedInsertSync :: "'q queue_api \<Rightarrow> env \<Rightarrow> env \<Rightarrow> string \<Rightarrow> string \<Rightarrow> 'q Server
    \<Rightarrow> (http_reply option \<times> 'q Server) option" where
  "acceptBatchedInsertSync Q E E' params content sv = (case appendJournal (Append params content) sv of
     (Inl e, sv) \<Rightarrow> Some (journalAppendError e, sv)
   | (Inr journalID, sv) \<Rightarrow>
       map_option (\<lambda>(r, sv). (Some r, sv))
         (syncSendInsert Q E E' (buildSyncBatchedRequest params content journalID) sv))"

section \<open>The handler of POST /\<close>

definition spawn :: "spawned \<Rightarrow> 'q Server \<Rightarrow> 'q Server" where
  "spawn g sv = sv\<lparr>sv_spawned := sv_spawned sv @ [g]\<rparr>"

definition acceptOpaqueInsert :: "'q queue_api \<Rightarrow> env \<Rightarrow> env \<Rightarrow> string \<Rightarrow> string \<Rightarrow> string \<Rightarrow> bool \<Rightarrow> 'q Server
    \<Rightarrow> (http_reply option \<times> 'q Server) option" where
  "acceptOpaqueInsert Q E E' params content clientCT sync sv =
     (if content = [] \<and> queryFromParams params = []
      then Some (Some (string_reply 500 (''Empty insert'' @ [NL])), sv)
      else
        (let outCT = outboundContentType clientCT (insertQueryString params content)
         in case appendJournal (AppendOpaque params content outCT) sv of
              (Inl e, sv) \<Rightarrow> Some (journalAppendError e, sv)
            | (Inr journalID, sv) \<Rightarrow>
                (if sync then
                   map_option (\<lambda>(r, sv). (Some r, sv))
                     (syncSendInsert Q E E' (buildSyncOpaqueRequest params content outCT journalID) sv)
                 else Some (Some (string_reply 200 []), spawn (SpawnOpaque params content outCT journalID) sv))))"

text \<open>The part of \<open>writeHandler\<close> after the body and the query string are settled.\<close>

definition handleBody :: "'q queue_api \<Rightarrow> env \<Rightarrow> env \<Rightarrow> http_request \<Rightarrow> string \<Rightarrow> string \<Rightarrow> 'q Server
    \<Rightarrow> (http_reply option \<times> 'q Server) option" where
  "handleBody Q E E' rq qs body sv =
     (let sync = wantsSyncInsert (sv_SyncInsert sv) (rq_sync rq); c = sv_Collector sv
      in if shouldOpaqueInsert (c_OpaqueInsert c) (c_BatchFormats c) (rq_ctype rq) qs body
         then acceptOpaqueInsert Q E E' qs body (rq_ctype rq) sync sv
         else (case ParseQuery qs body of (params, content, insrt) \<Rightarrow>
           (if insrt then
              (if content = [] then Some (Some (string_reply 500 (''Empty insert'' @ [NL])), sv)
               else if sync then acceptBatchedInsertSync Q E E' params content sv
               else (case appendJournal (Append params content) sv of
                   (Inl e, sv) \<Rightarrow> Some (journalAppendError e, sv)
                 | (Inr journalID, sv) \<Rightarrow>
                     Some (Some (string_reply 200 []), spawn (SpawnPush params content journalID) sv)))
            else
              map_option (\<lambda>(q, t). (Some (writeProxiedQueryResponse (rp_status q) (rp_response q) (rp_headers q)),
                                    sv\<lparr>sv_targets := t\<rparr>))
                (s_SendQuery (main_sender Q E E')
                   \<lparr>req_Params = qs, req_Query = [], req_Content = body, req_ContentType = [],
                    req_Count = 0, req_JournalIDs = [], req_isInsert = False, req_opaque = False\<rparr>
                   (sv_targets sv)))))"

definition auth_query :: "(string \<times> string) option \<Rightarrow> string \<Rightarrow> string" where
  "auth_query auth qs = (case auth of
     None \<Rightarrow> qs
   | Some (user, password) \<Rightarrow>
       (if qs = [] then ''user='' @ user @ ''&password='' @ password
        else ''user='' @ user @ ''&password='' @ password @ ''&'' @ qs))"

text \<open>\<^term>\<open>None\<close> when the handler never returns; no reply when the connection is cut.\<close>

definition writeHandler :: "codecs \<Rightarrow> 'q queue_api \<Rightarrow> env \<Rightarrow> env \<Rightarrow> http_request \<Rightarrow> 'q Server
    \<Rightarrow> (http_reply option \<times> 'q Server) option" where
  "writeHandler cd Q E E' rq sv = (case readRequestBody (rq_body rq) (sv_MaxRequestBytes sv) of
     Inl e \<Rightarrow> Some (Some (if e = ErrRequestTooLarge
                     then string_reply 413 (''Request body too large'' @ [NL])
                     else string_reply 400 (''Request read failed'' @ [NL])), sv)
   | Inr body \<Rightarrow>
       (let qs = auth_query (rq_auth rq) (rq_query rq)
        in if needsDecompression (rq_encoding rq) qs
           then (case decompressRequestBody cd body (rq_encoding rq) qs (sv_MaxRequestBytes sv) of
               Inl e \<Rightarrow> Some (Some (if e = ErrRequestTooLarge
                               then string_reply 413 (''Request body too large'' @ [NL])
                               else string_reply 400 (''Request decompression failed'' @ [NL])), sv)
             | Inr (body, qs) \<Rightarrow> handleBody Q E E' rq qs body sv)
           else handleBody Q E E' rq qs body sv))"

section \<open>Goroutines\<close>

text \<open>
  The \<open>i\<close>-th of the goroutines that are still to run, at the time \<open>now\<close>; \<^term>\<open>None\<close> when it
  panics, which ends the process.
\<close>

definition runSpawned :: "'q queue_api \<Rightarrow> env \<Rightarrow> env \<Rightarrow> nanos \<Rightarrow> nat \<Rightarrow> 'q Server \<Rightarrow> 'q Server option" where
  "runSpawned Q E E' now i sv = (case drop i (sv_spawned sv) of
     [] \<Rightarrow> Some sv
   | g # gs \<Rightarrow>
       (let S = main_sender Q E E'; sv = sv\<lparr>sv_spawned := take i (sv_spawned sv) @ gs\<rparr>
        in case g of
             SpawnPush params content i \<Rightarrow>
               map_option (\<lambda>(c, t). sv\<lparr>sv_Collector := c, sv_targets := t\<rparr>)
                 (Push S now params content i (sv_Collector sv) (sv_targets sv))
           | SpawnOpaque params content ct i \<Rightarrow>
               Some (sv\<lparr>sv_targets := PushOpaque S params content ct i (sv_targets sv)\<rparr>)))"

end
