(* ===== verification/Server_Facts.thy ===== *)
theory Server_Facts
  imports Server Collector_Facts Journal_Faults Dumper_Facts
begin

text \<open>
  Lemmas on the server: what ClickHouse has accepted, and what the senders of the server keep
  of their targets.
\<close>

section \<open>What ClickHouse has accepted\<close>

fun accepted :: "http_result \<Rightarrow> bool" where
  "accepted (HttpReply status body hs) = (status < 400)"
| "accepted (PostFailed msg) = False"

text \<open>A request with this text in its body was accepted.\<close>

definition posted :: "string \<Rightarrow> world \<Rightarrow> bool" where
  "posted x w = (\<exists>(url, ct, body, res) \<in> set (w_log w). accepted res \<and> contains body x)"

lemma posted_mono: "set (w_log w) \<subseteq> set (w_log w') \<Longrightarrow> posted x w \<Longrightarrow> posted x w'"
  by (auto simp: posted_def)

lemma server_SendQuery_log:
  assumes "server_SendQuery E r s w = (q, s', w')"
  shows "set (w_log w) \<subseteq> set (w_log w')"
    "rp_err q = None \<Longrightarrow> srv_URL s \<noteq> [] \<Longrightarrow>
      \<exists>url ct res. (url, ct, req_Content r, res) \<in> set (w_log w') \<and> accepted res"
proof -
  show "set (w_log w) \<subseteq> set (w_log w')"
    using assms by (auto simp: server_SendQuery_def http_Post_def Let_def split: if_splits http_result.splits)
  assume "rp_err q = None" "srv_URL s \<noteq> []"
  with assms show "\<exists>url ct res. (url, ct, req_Content r, res) \<in> set (w_log w') \<and> accepted res"
    by (auto simp: server_SendQuery_def http_Post_def Let_def split: if_splits http_result.splits)
      (metis accepted.simps(1) insertI1 linorder_not_le)+
qed

definition urls_ok :: "'q Clickhouse \<Rightarrow> bool" where
  "urls_ok c = ([] \<notin> set (map srv_URL (ch_Servers c)))"

definition query_logged :: "ClickhouseRequest \<Rightarrow> query_reply \<Rightarrow> world \<Rightarrow> world \<Rightarrow> bool" where
  "query_logged r q w w' = (set (w_log w) \<subseteq> set (w_log w') \<and>
     (rp_err q = None \<longrightarrow> (\<exists>url ct res. (url, ct, req_Content r, res) \<in> set (w_log w') \<and> accepted res)))"

lemma GetNextServer_log: "GetNextServer E c w = (i, c', w') \<Longrightarrow> w_log w' = w_log w"
  by (auto simp: GetNextServer_def time_Now_def split: option.splits prod.splits)

lemma sendLoop_logged:
  assumes "sendLoop E req c w = Some (q, c', w')" "urls_ok c"
  shows "query_logged req q w w'"
proof -
  have "urls_ok c \<longrightarrow> query_logged req (fst r) w (snd (snd r))" if "sendLoop E req c w = Some r" for r
    using that
  proof (induction rule: sendLoop_induct)
    case (step sl E req c w r)
    show ?case
    proof
      assume u: "urls_ok c"
      obtain i c1 w1 where g: "GetNextServer E c w = (i, c1, w1)" by (metis prod_cases3)
      have l1: "w_log w1 = w_log w" by (rule GetNextServer_log [OF g])
      obtain ss where c1: "c1 = c\<lparr>ch_Servers := ss\<rparr>" "map srv_URL ss = map srv_URL (ch_Servers c)"
        using GetNextServer_URLs [OF g] by blast
      show "query_logged req (fst r) w (snd (snd r))"
      proof (cases i)
        case None
        with step(2) g l1 show ?thesis by (auto simp: query_logged_def no_servers_def)
      next
        case (Some k)
        obtain q s w2 where sq: "server_SendQuery E req (ch_Servers c1 ! k) w1 = (q, s, w2)" by (metis prod_cases3)
        note lg = server_SendQuery_log [OF sq]
        let ?c = "c1\<lparr>ch_Servers := (ch_Servers c1)[k := s]\<rparr>"
        have k: "k < length ss"
          using GetNextServer_Some [OF g [unfolded Some]] c1(2) by (metis length_map)
        then have "srv_URL (ss ! k) \<in> set (map srv_URL ss)" by simp
        then have url: "srv_URL (ch_Servers c1 ! k) \<noteq> []"
          using u c1 by (auto simp del: set_map simp add: urls_ok_def)
        have "srv_URL s = srv_URL (ss ! k)" using server_SendQuery_frame(1) [OF sq] c1(1) by simp
        then have "map srv_URL (ss[k := s]) = map srv_URL (ch_Servers c)"
          using k c1(2) by (metis list_update_id map_update)
        then have u2: "urls_ok ?c" using u c1(1) by (simp add: urls_ok_def)
        show ?thesis
        proof (cases "rp_err q = Some ErrServerIsDown")
          case True
          with step(2) g Some sq have "sl E req ?c w2 = Some r" by simp
          from step(1) [OF this] u2 lg(1) l1 show ?thesis by (auto simp: query_logged_def)
        next
          case False
          with step(2) g Some sq have "r = (q, ?c, w2)" by simp
          with lg url l1 show ?thesis by (auto simp: query_logged_def)
        qed
      qed
    qed
  qed
  with assms show ?thesis by fastforce
qed

lemma SendQuery_logged:
  assumes "SendQuery E r c w = Some (q, c', w')" "urls_ok c"
  shows "query_logged r q w w'"
  using sendLoop_logged [OF assms(1) [unfolded SendQuery_def] assms(2)]
  by (auto simp: query_logged_def split: if_splits)

lemma SendQuery_urls: "SendQuery E r c w = Some (q, c', w') \<Longrightarrow> urls_ok c \<Longrightarrow> urls_ok c'"
  using SendQuery_post [of E r c w q c' w'] by (auto simp: send_post_def urls_ok_def simp del: set_map)

lemma SendQuery_posted:
  assumes "SendQuery E r c w = Some (q, c', w')" "urls_ok c" "rp_err q = None" "contains (req_Content r) x"
  shows "posted x w'"
  using SendQuery_logged [OF assms(1,2)] assms(3,4) by (fastforce simp: query_logged_def posted_def)

lemma SendQuery_keeps_posted:
  "SendQuery E r c w = Some (q, c', w') \<Longrightarrow> urls_ok c \<Longrightarrow> posted x w \<Longrightarrow> posted x w'"
  using SendQuery_logged posted_mono unfolding query_logged_def by blast

end
