(* ===== verification/Collector_Carry.thy ===== *)
theory Collector_Carry
  imports Collector_Facts
begin

text \<open>
  An insert on its way through the collector: the text stays with the number of its journal
  record, in a table or in a request.
\<close>

section \<open>The text of an insert on its way\<close>

text \<open>
  Wherever the number of an insert is held, by a table or by a request in a queue, the text of
  the insert is held with it.
\<close>

definition carries :: "u64 \<Rightarrow> string \<Rightarrow> ClickhouseRequest \<Rightarrow> bool" where
  "carries i x r = (i \<in> set (req_JournalIDs r) \<longrightarrow> contains (req_Content r) x)"

definition on_its_way :: "u64 \<Rightarrow> string \<Rightarrow> Collector \<Rightarrow> ClickhouseRequest list \<Rightarrow> bool" where
  "on_its_way i x c rs =
     ((\<forall>(k, t) \<in> set (c_Tables c). carries i x (table_request t)) \<and> (\<forall>r \<in> set rs. carries i x r))"

lemma contains_append: "contains s x \<Longrightarrow> contains (s @ t) x" "contains s x \<Longrightarrow> contains (t @ s) x"
  by (auto simp: contains_iff) (metis append.assoc)+

lemma contains_self [simp]: "contains s s"
  unfolding contains_iff by (metis append_Nil append_Nil2)

lemma join_append:
  "xs \<noteq> [] \<Longrightarrow> ys \<noteq> [] \<Longrightarrow> join d (xs @ ys) = join d xs @ d @ join d ys"
proof (induction xs)
  case (Cons x xs)
  then show ?case by (cases "xs = []"; cases ys) (auto simp: neq_Nil_conv)
qed simp

lemma join_prefix: "\<exists>u. join d (xs @ ys) = join d xs @ u"
  by (cases "xs = []"; cases "ys = []") (auto simp: join_append)

lemma join_suffix: "ys \<noteq> [] \<Longrightarrow> \<exists>u. join d (xs @ ys) = u @ join d ys"
  by (cases "xs = []") (auto simp: join_append)

text \<open>The rows of a text, joined, are the text again.\<close>

definition row_delimiter :: "Table \<Rightarrow> string" where
  "row_delimiter t = (if t_Format t = ''RowBinary'' then [] else [NL])"

lemma Content_rows: "Content t = t_Query t @ [NL] @ join (row_delimiter t) (t_Rows t)"
  by (simp add: Content_def row_delimiter_def)

lemma join_rows_of: "join (row_delimiter t) (rows_of t text) = text"
  by (simp add: rows_of_def row_delimiter_def join_split_on)

lemma batch_carries:
  assumes "carries i x (table_request t)" "j = i \<Longrightarrow> contains text x"
  shows "carries i x (batch_request t (t_Rows t @ rows_of t text) (t_JournalIDs t @ id_list j))"
proof -
  let ?d = "row_delimiter t"
  obtain u where "join ?d (t_Rows t @ rows_of t text) = join ?d (t_Rows t) @ u" using join_prefix by blast
  moreover obtain v where "join ?d (t_Rows t @ rows_of t text) = v @ text"
    using join_suffix [OF rows_of_not_Nil] join_rows_of by metis
  moreover have "contains (t_Query t @ [NL] @ join ?d (t_Rows t)) x" if "i \<in> set (t_JournalIDs t)"
    using that assms(1) by (simp add: carries_def table_request_def Content_rows)
  ultimately show ?thesis
    using assms(2) contains_append(1) [of "t_Query t @ [NL] @ join ?d (t_Rows t)" x u]
      contains_append(2) [of "text" x "t_Query t @ [NL] @ v"]
    by (auto simp: carries_def batch_request_def table_request_def Content_rows row_delimiter_def id_list_def
        split: if_splits)
qed

lemma emptied_carries [simp]: "carries i x (table_request (t\<lparr>t_Rows := rs, t_JournalIDs := [], t_count := n\<rparr>))"
  "carries i x (table_request (t\<lparr>t_Rows := rs, t_JournalIDs := [], t_count := n, t_lastUpdate := now\<rparr>))"
  "carries i x (table_request (new_table k now c))"
  by (auto simp: carries_def table_request_def new_table_def NewTable_def split: prod.splits)

fun cop_carries :: "u64 \<Rightarrow> string \<Rightarrow> cop \<Rightarrow> bool" where
  "cop_carries i x (CPush now p text j) = (j = i \<longrightarrow> contains text x)"
| "cop_carries i x (COpaque p text ct j) = (j = i \<longrightarrow> contains text x)"
| "cop_carries i x _ = True"

lemma tables_update:
  "\<forall>(k, t) \<in> set ts. P t \<Longrightarrow> P t' \<Longrightarrow> \<forall>(k, t) \<in> set (AList.update k t' ts). P t"
  by (rule update_ok)

context batch_queue
begin

lemma push_carries:
  assumes "inv s" "coll_ok c" "on_its_way i x c (queued s)" "j = i \<Longrightarrow> contains text x"
    and "Push S now p text j c s = Some (c', s')"
  shows "on_its_way i x c' (queued s')"
proof -
  let ?k = "push_key c p"
  obtain t c1 where t: "(case map_of (c_Tables c) ?k of Some t \<Rightarrow> Some (t, c) | None \<Rightarrow> addTable ?k now c) = Some (t, c1)"
    "coll_ok c1" "map_of (c_Tables c1) ?k = Some t" by (rule push_table [OF assms(2)])
  have tk: "(?k, t) \<in> set (c_Tables c1)" using t(3) by (rule map_of_SomeD)
  then have ok: "table_ok t" "0 \<le> t_FlushCount t" using t(2) by (auto simp: coll_ok_def)
  have old: "\<forall>(k, t) \<in> set (c_Tables c1). carries i x (table_request t)"
  proof (cases "map_of (c_Tables c) ?k")
    case None
    with t(1) have "c1 = c\<lparr>c_Tables := AList.update ?k (new_table ?k now c) (c_Tables c)\<rparr>"
      by (auto simp: addTable_def Let_def split: if_splits)
    then show ?thesis
      using assms(3) tables_update [of "c_Tables c" "\<lambda>t. carries i x (table_request t)" "new_table ?k now c" ?k]
      by (simp add: on_its_way_def)
  next
    case (Some u)
    with t(1) assms(3) show ?thesis by (simp add: on_its_way_def)
  qed
  with tk have ct: "carries i x (table_request t)" by blast
  note new = batch_carries [OF ct, of j "text", OF assms(4)]
  show ?thesis
  proof (cases "t_FlushCount t \<le> int (length (t_Rows t @ rows_of t text))")
    case True
    have e: "c' = c1\<lparr>c_Tables := AList.update ?k
        (t\<lparr>t_Rows := [], t_JournalIDs := [], t_count := 0, t_lastUpdate := now\<rparr>) (c_Tables c1)\<rparr>"
      "s' = s_Send S (batch_request t (t_Rows t @ rows_of t text) (t_JournalIDs t @ id_list j)) s"
      using assms(5) t(1) Add_flush [OF ok True, of S now j s] by (simp_all add: Push_def Let_def)
    show ?thesis
      using assms(3) new tables_update [OF old, of "t\<lparr>t_Rows := [], t_JournalIDs := [], t_count := 0, t_lastUpdate := now\<rparr>" ?k]
      by (simp add: e on_its_way_def queued_Send [OF assms(1)])
  next
    case False
    have e: "c' = c1\<lparr>c_Tables := AList.update ?k
        (t\<lparr>t_Rows := t_Rows t @ rows_of t text, t_JournalIDs := t_JournalIDs t @ id_list j,
           t_count := t_count t + 1, t_lastUpdate := now\<rparr>) (c_Tables c1)\<rparr>" "s' = s"
      using assms(5) t(1) Add_keep [OF ok False, of S now j s] by (simp_all add: Push_def Let_def)
    have "carries i x (table_request (t\<lparr>t_Rows := t_Rows t @ rows_of t text, t_JournalIDs := t_JournalIDs t @ id_list j,
           t_count := t_count t + 1, t_lastUpdate := now\<rparr>))"
      using new by (simp add: carries_def batch_request_def table_request_def Content_def)
    then show ?thesis
      using assms(3) old tables_update [of "c_Tables c1" "\<lambda>t. carries i x (table_request t)"]
      by (simp add: e on_its_way_def)
  qed
qed

lemma coll_step_carries:
  assumes "inv s" "coll_ok c" "on_its_way i x c (queued s)" "cop_carries i x a"
    and "coll_step S a (c, s) = Some (c', s')"
  shows "on_its_way i x c' (queued s')"
proof (cases a)
  case (CPush now p b j)
  with push_carries [OF assms(1-3), of j b now p c' s'] assms(4,5) show ?thesis by simp
next
  case (COpaque p b ct j)
  with assms show ?thesis
    by (auto simp: PushOpaque_def queued_Send on_its_way_def carries_def opaque_request_def)
next
  case (CTick k)
  show ?thesis
  proof (cases "map_of (c_Tables c) k")
    case None
    with CTick assms show ?thesis by (simp add: tableTick_def)
  next
    case (Some t)
    then have tk: "(k, t) \<in> set (c_Tables c)" by (rule map_of_SomeD)
    with assms(2) have ok: "table_ok t" "0 \<le> t_FlushCount t" by (auto simp: coll_ok_def)
    have c: "carries i x (table_request t)" and all: "\<forall>(k, t) \<in> set (c_Tables c). carries i x (table_request t)"
      using tk assms(3) by (auto simp: on_its_way_def)
    have e: "c' = c\<lparr>c_Tables := AList.update k (t\<lparr>t_Rows := [], t_JournalIDs := [], t_count := 0\<rparr>) (c_Tables c)\<rparr>"
      "s' = (if t_Rows t = [] then s else s_Send S (table_request t) s)"
      using CTick Some assms(5) by (simp_all add: tableTick_def CheckFlush_cases [OF ok])
    show ?thesis
      using c assms(3) tables_update [OF all, of "t\<lparr>t_Rows := [], t_JournalIDs := [], t_count := 0\<rparr>" k]
      by (simp add: e on_its_way_def queued_Send [OF assms(1)])
  qed
next
  case CFlushAll
  have "\<forall>(k, t) \<in> set (c_Tables c). table_ok t \<and> 0 \<le> t_FlushCount t" using assms(2) by (simp add: coll_ok_def)
  from flushTables_conserves [OF assms(1) this] CFlushAll assms(3,5) show ?thesis
    by (fastforce simp: FlushAll_def on_its_way_def)
next
  case CCleanEmpty
  with assms(3,5) show ?thesis by (auto simp: tablesCleanHandler_def on_its_way_def)
qed

end

end
