(* ===== verification/Dumper_Store.thy ===== *)
theory Dumper_Store
  imports Dumper_Facts
begin

text \<open>
  What a directory of dumps holds, and that writing and replaying dumps lose none of it.
\<close>

section \<open>What a directory of dumps holds\<close>

definition pending_file :: "FileDumper \<Rightarrow> disk \<Rightarrow> string \<Rightarrow> string option" where
  "pending_file d dk n = map_of (dk_files dk) (path_Join [fd_Path d, n])"

definition failed_file :: "FileDumper \<Rightarrow> disk \<Rightarrow> string \<Rightarrow> string option" where
  "failed_file d dk n = map_of (dk_files dk) (path_Join [failedDir d, n])"

lemma failed_path_neq: "plain_name m \<Longrightarrow> plain_name n \<Longrightarrow> path_Join [failedDir d, m] \<noteq> path_Join [fd_Path d, n]"
  by (simp add: failedDir_join)

text \<open>A dump, waiting or in \<open>failed/\<close>, that gives back a request with this text.\<close>

definition holds_text :: "string \<Rightarrow> string \<Rightarrow> bool" where
  "holds_text x c = contains (req_Content (dump_request (dump_payload c))) x"

definition stored :: "string \<Rightarrow> FileDumper \<Rightarrow> disk \<Rightarrow> bool" where
  "stored x d dk = (\<exists>n c. plain_name n \<and> holds_text x c
     \<and> (pending_file d dk n = Some c \<or> failed_file d dk n = Some c))"

lemma storedI:
  "plain_name n \<Longrightarrow> holds_text x c \<Longrightarrow> pending_file d dk n = Some c \<or> failed_file d dk n = Some c \<Longrightarrow> stored x d dk"
  unfolding stored_def by blast

text \<open>A name that this process gives to its dump with the number \<open>k\<close>.\<close>

definition own_name :: "FileDumper \<Rightarrow> int \<Rightarrow> string \<Rightarrow> bool" where
  "own_name d k n = (\<exists>kind st. n = dumpName d k [kind] st \<and> is_digit_char kind \<and> 0 \<le> st)"

text \<open>
  The state of the dump directory: nothing is pruned, no name is used twice, and the names of
  the dumps to come are free.
\<close>

definition dumps_ok :: "FileDumper \<Rightarrow> disk \<Rightarrow> bool" where
  "dumps_ok d dk = (list_all is_digit_char (fd_DumpPrefix d) \<and> 0 \<le> fd_DumpNum d \<and> fd_MaxDumpFiles d \<le> 0
     \<and> (\<forall>k n. fd_DumpNum d < k \<and> own_name d k n \<longrightarrow> pending_file d dk n = None \<and> failed_file d dk n = None)
     \<and> (\<forall>n. plain_name n \<longrightarrow> pending_file d dk n = None \<or> failed_file d dk n = None))"

lemma dumps_okD:
  assumes "dumps_ok d dk"
  shows "list_all is_digit_char (fd_DumpPrefix d)" "0 \<le> fd_DumpNum d" "fd_MaxDumpFiles d \<le> 0"
    "fd_DumpNum d < k \<Longrightarrow> own_name d k n \<Longrightarrow> pending_file d dk n = None \<and> failed_file d dk n = None"
    "plain_name n \<Longrightarrow> pending_file d dk n = None \<or> failed_file d dk n = None"
  using assms by (auto simp: dumps_ok_def)

lemma own_name_plain:
  "list_all is_digit_char (fd_DumpPrefix d) \<Longrightarrow> 0 \<le> k \<Longrightarrow> own_name d k n \<Longrightarrow> plain_name n"
  using dumpName_ok unfolding own_name_def dump_file_name_def by blast

definition digits_value :: "string \<Rightarrow> nat" where
  "digits_value ds = foldl (\<lambda>v c. 10 * v + (of_char c - 48)) 0 ds"

lemma digits_value_nat: "digits_value (nat_digits n) = n"
proof (induction n rule: nat_digits.induct)
  case (1 n)
  have d: "of_char (char_of (48 + m :: nat) :: char) = (48 + m :: nat)" if "m < 10" for m
    using that by simp
  show ?case
  proof (cases "n < 10")
    case True
    then show ?thesis by (simp add: nat_digits.simps [of n] digits_value_def d)
  next
    case False
    with 1 d [of "n mod 10"] show ?thesis by (simp add: nat_digits.simps [of n] digits_value_def)
  qed
qed

lemma nat_digits_inject: "nat_digits m = nat_digits n \<Longrightarrow> m = n"
  by (metis digits_value_nat)

lemma itoa_inject: "0 \<le> i \<Longrightarrow> 0 \<le> j \<Longrightarrow> itoa i = itoa j \<Longrightarrow> i = j"
  using nat_digits_inject [of "nat i" "nat j"] by (simp add: itoa_def)

lemma own_name_unique:
  assumes "own_name d j n" "own_name d k n" "0 \<le> j" "0 \<le> k"
  shows "j = k"
proof -
  obtain a s where n1: "n = dumpName d j [a] s" using assms(1) by (auto simp: own_name_def)
  obtain b t where n2: "n = dumpName d k [b] t" using assms(2) by (auto simp: own_name_def)
  then have e: "itoa j @ CHR ''-'' # itoa s @ ''.dmp'' = itoa k @ CHR ''-'' # itoa t @ ''.dmp''"
    using n1 n2 by (simp add: dumpName_def)
  have nd: "\<not> is_digit_char (CHR ''-'')" by (simp add: is_digit_char_def)
  have "takeWhile is_digit_char (itoa j @ CHR ''-'' # itoa s @ ''.dmp'') = itoa j"
    using itoa_digits [OF assms(3)] by (intro takeWhile_digits(1) nd) blast
  moreover have "takeWhile is_digit_char (itoa k @ CHR ''-'' # itoa t @ ''.dmp'') = itoa k"
    using itoa_digits [OF assms(4)] by (intro takeWhile_digits(1) nd) blast
  ultimately have "itoa j = itoa k" using e by simp
  with assms(3,4) show ?thesis by (rule itoa_inject)
qed

lemma own_name_next [simp]: "own_name (d\<lparr>fd_DumpNum := m\<rparr>) k n = own_name d k n"
  "own_name (d\<lparr>fd_LockedFiles := L\<rparr>) k n = own_name d k n"
  by (simp_all add: own_name_def dumpName_def)

lemma file_next [simp]:
  "pending_file (d\<lparr>fd_DumpNum := m\<rparr>) = pending_file d" "failed_file (d\<lparr>fd_DumpNum := m\<rparr>) = failed_file d"
  "pending_file (d\<lparr>fd_LockedFiles := L\<rparr>) = pending_file d" "failed_file (d\<lparr>fd_LockedFiles := L\<rparr>) = failed_file d"
  by (simp_all add: pending_file_def failed_file_def failedDir_def fun_eq_iff)

lemma files_cong: "same_files dk dk' \<Longrightarrow> pending_file d dk' = pending_file d dk"
  "same_files dk dk' \<Longrightarrow> failed_file d dk' = failed_file d dk"
  by (simp_all add: same_files_def pending_file_def failed_file_def fun_eq_iff)

section \<open>Writing a dump\<close>

lemma Dump_effect:
  assumes "Dump params content response kind status d dk = (res, d', dk')" "fd_MaxDumpFiles d \<le> 0"
  shows "res \<noteq> Inr () \<and> same_files dk dk' \<and> (d' = d \<or> d' = d\<lparr>fd_DumpNum := fd_DumpNum d + 1\<rparr>)
    \<or> (\<exists>s. dk_files dk' = AList.update (dump_path d kind status) s (dk_files dk)
         \<and> d' = d\<lparr>fd_DumpNum := fd_DumpNum d + 1\<rparr> \<and> (res = Inr () \<longrightarrow> s = dump_data params content response))"
proof -
  obtain c dk1 where c: "checkDir d True dk = (c, dk1)" by (metis surj_pair)
  note k1 = checkDir_files [OF c]
  show ?thesis
  proof (cases c)
    case (Inl e)
    with assms c k1 show ?thesis by (auto simp: Dump_def)
  next
    case (Inr u)
    obtain w dk2 where w: "os_WriteFile (dump_path d kind status) (dump_data params content response) dk1 = (w, dk2)"
      by (metis surj_pair)
    have w': "os_WriteFile (path_Join [fd_Path d, dumpName (d\<lparr>fd_DumpNum := fd_DumpNum d + 1\<rparr>) (fd_DumpNum d + 1) kind status])
        (dump_data params content response) dk1 = (w, dk2)"
      using w by (simp add: dump_path_def dumpName_def)
    have "Dump params content response kind status d dk = (w, d\<lparr>fd_DumpNum := fd_DumpNum d + 1\<rparr>, dk2)"
      using assms(2) c w' Inr by (cases w) (simp_all add: Dump_def pruneOldestIfNeeded_def)
    with assms(1) have e: "res = w" "dk' = dk2" "d' = d\<lparr>fd_DumpNum := fd_DumpNum d + 1\<rparr>" by simp_all
    obtain x dk0 where x: "dsys dk1 = (x, dk0)" by (metis surj_pair)
    have f0: "dk_files dk0 = dk_files dk"
      using same_files_trans [OF k1 dsys_files [OF x]] by (simp add: same_files_def)
    have "w \<noteq> Inr () \<and> same_files dk dk2
      \<or> (\<exists>s. dk_files dk2 = AList.update (dump_path d kind status) s (dk_files dk)
           \<and> (w = Inr () \<longrightarrow> s = dump_data params content response))"
    proof (cases x)
      case DFail
      with w x have "w = Inl EIO" "dk2 = dk0" by (simp_all add: os_WriteFile_def)
      with f0 show ?thesis by (simp add: same_files_def)
    next
      case (DPartial m)
      with w x f0 have "w = Inl EIO" "dk_files dk2 = AList.update (dump_path d kind status)
          (take m (dump_data params content response)) (dk_files dk)"
        by (auto simp: os_WriteFile_def)
      then show ?thesis by blast
    qed (use w x f0 in \<open>auto simp: os_WriteFile_def\<close>)
    then show ?thesis by (simp only: e simp_thms)
  qed
qed

lemma dumps_ok_next:
  assumes "dumps_ok d dk" "same_files dk dk'"
  shows "dumps_ok (d\<lparr>fd_DumpNum := fd_DumpNum d + 1\<rparr>) dk'"
proof -
  have "pending_file d dk n = None \<and> failed_file d dk n = None" if "fd_DumpNum d + 1 < k" "own_name d k n" for k n
    using that(1) by (intro dumps_okD(4) [OF assms(1) _ that(2)]) simp
  then have "\<forall>k n. fd_DumpNum d + 1 < k \<and> own_name d k n \<longrightarrow> pending_file d dk n = None \<and> failed_file d dk n = None"
    by blast
  moreover have "\<forall>n. plain_name n \<longrightarrow> pending_file d dk n = None \<or> failed_file d dk n = None"
    using dumps_okD(5) [OF assms(1)] by blast
  ultimately show ?thesis
    using dumps_okD(1-3) [OF assms(1)] by (simp add: dumps_ok_def files_cong [OF assms(2)])
qed

lemma dumps_ok_same: "dumps_ok d dk \<Longrightarrow> same_files dk dk' \<Longrightarrow> dumps_ok d dk'"
  by (simp add: dumps_ok_def files_cong)

lemma stored_same: "stored x d dk \<Longrightarrow> same_files dk dk' \<Longrightarrow> stored x d dk'"
  by (simp add: stored_def files_cong)

lemma stored_next [simp]: "stored x (d\<lparr>fd_DumpNum := m\<rparr>) dk = stored x d dk"
  "stored x (d\<lparr>fd_LockedFiles := L\<rparr>) dk = stored x d dk"
  by (simp_all add: stored_def)

lemma dump_keeps:
  assumes "Dump params content response [k] status d dk = (res, d', dk')" "dumps_ok d dk"
    and "is_digit_char k" "0 \<le> status"
  shows "dumps_ok d' dk'" "stored x d dk \<Longrightarrow> stored x d' dk'" "fd_Path d' = fd_Path d"
proof -
  let ?n = "dumpName d (fd_DumpNum d + 1) [k] status"
  have own: "own_name d (fd_DumpNum d + 1) ?n" using assms(3,4) by (auto simp: own_name_def)
  have num: "0 \<le> fd_DumpNum d" and dig: "list_all is_digit_char (fd_DumpPrefix d)" and mx: "fd_MaxDumpFiles d \<le> 0"
    using assms(2) by (auto simp: dumps_ok_def)
  have plain: "plain_name ?n" using own_name_plain [OF dig _ own] num by simp
  have free: "pending_file d dk ?n = None" "failed_file d dk ?n = None"
    using assms(2) own unfolding dumps_ok_def by (metis less_add_one)+
  have "dumps_ok d' dk' \<and> (stored x d dk \<longrightarrow> stored x d' dk') \<and> fd_Path d' = fd_Path d"
    using Dump_effect [OF assms(1) mx]
  proof (elim disjE exE conjE)
    fix s assume up: "dk_files dk' = AList.update (dump_path d [k] status) s (dk_files dk)"
      and d': "d' = d\<lparr>fd_DumpNum := fd_DumpNum d + 1\<rparr>"
    have pf: "pending_file d dk' m = (if m = ?n then Some s else pending_file d dk m)"
      and ff: "failed_file d dk' m = failed_file d dk m" if "plain_name m" for m
      using that plain up failed_path_neq [OF that plain, of d]
      by (auto simp: pending_file_def failed_file_def dump_path_def update_conv')
    have "dumps_ok d' dk'"
    proof -
      have "pending_file d dk' n = None \<and> failed_file d dk' n = None" if "fd_DumpNum d + 1 < j" "own_name d j n" for j n
      proof -
        have p: "plain_name n" using own_name_plain [OF dig _ that(2)] that(1) num by simp
        have "n \<noteq> ?n" using own_name_unique [of d j n "fd_DumpNum d + 1"] own that num by auto
        with pf [OF p] ff [OF p] dumps_okD(4) [OF assms(2) _ that(2)] that(1) show ?thesis by simp
      qed
      moreover have "pending_file d dk' n = None \<or> failed_file d dk' n = None" if "plain_name n" for n
        using pf [OF that] ff [OF that] free dumps_okD(5) [OF assms(2) that] by auto
      ultimately show ?thesis using d' num dig mx by (auto simp: dumps_ok_def)
    qed
    moreover have "stored x d' dk'" if st: "stored x d dk"
    proof -
      obtain n c where n: "plain_name n" "holds_text x c" "pending_file d dk n = Some c \<or> failed_file d dk n = Some c"
        using st by (auto simp: stored_def)
      with free have "n \<noteq> ?n" by auto
      with n pf [OF n(1)] ff [OF n(1)] show ?thesis unfolding d' stored_next by (intro storedI [OF n(1,2)]) simp
    qed
    ultimately show ?thesis using d' by simp
  qed (use assms(2) dumps_ok_next dumps_ok_same stored_same in auto)
  then show "dumps_ok d' dk'" "stored x d dk \<Longrightarrow> stored x d' dk'" "fd_Path d' = fd_Path d" by blast+
qed

text \<open>A request whose dump can be read back.\<close>

definition dumpable :: "ClickhouseRequest \<Rightarrow> bool" where
  "dumpable r = (NL \<notin> set (req_Params r)
     \<and> \<not> contains (req_Params r @ NL # req_Content r @ butlast dumpResponseMark) dumpResponseMark)"

lemma dump_stores:
  assumes "Dump (req_Params r) (req_Content r) response [k] status d dk = (Inr (), d', dk')" "dumps_ok d dk"
    and "is_digit_char k" "0 \<le> status" "dumpable r" "contains (req_Content r) x"
  shows "stored x d' dk'"
proof -
  let ?n = "dumpName d (fd_DumpNum d + 1) [k] status"
  let ?s = "dump_data (req_Params r) (req_Content r) response"
  have dig: "list_all is_digit_char (fd_DumpPrefix d)" and num: "0 \<le> fd_DumpNum d" and mx: "fd_MaxDumpFiles d \<le> 0"
    using assms(2) by (auto simp: dumps_ok_def)
  have "plain_name ?n" using own_name_plain [OF dig, of "fd_DumpNum d + 1" ?n] num assms(3,4) by (auto simp: own_name_def)
  moreover have "pending_file d' dk' ?n = Some ?s"
    using Dump_effect [OF assms(1) mx] by (auto simp: pending_file_def dump_path_def update_conv')
  moreover have "holds_text x ?s"
    using assms(5,6) dump_payload_data dump_request_params by (simp add: holds_text_def dumpable_def)
  ultimately show ?thesis unfolding stored_def by blast
qed

section \<open>A step of the replay\<close>

lemma ProcessNextDump_dumper:
  "ProcessNextDump S d dk s = Some (res, d', dk', s') \<Longrightarrow> d' = d \<or> (\<exists>L. d' = d\<lparr>fd_LockedFiles := L\<rparr>)"
  by (auto simp: ProcessNextDump_def finishDump_def Let_def split: sum.splits prod.splits option.splits if_splits)

lemma dumps_ok_locked [simp]: "dumps_ok (d\<lparr>fd_LockedFiles := L\<rparr>) dk = dumps_ok d dk"
  by (simp add: dumps_ok_def)

lemma replay_keeps:
  assumes "ProcessNextDump S d dk s = Some (res, d', dk', s')" "dumps_ok d dk"
  shows "dumps_ok d' dk'"
    "stored x d dk \<Longrightarrow> stored x d' dk' \<or> (\<exists>c. holds_text x c \<and> delivered S (dump_payload c) s s')"
proof -
  have "dumps_ok d' dk' \<and>
    (stored x d dk \<longrightarrow> stored x d' dk' \<or> (\<exists>c. holds_text x c \<and> delivered S (dump_payload c) s s'))"
    using assms(1)
  proof (cases rule: ProcessNextDump_cases)
    case (moved f c)
    note f = pending_plain(1) [OF moved(4)]
    have pf: "pending_file d dk' m = (if m = f then None else pending_file d dk m)"
      and ff: "failed_file d dk' m = (if m = f then Some c else failed_file d dk m)" if "plain_name m" for m
      using that f moved(8) failed_path_neq [OF that f, of d] failed_path_neq [OF f that, of d]
      by (auto simp: pending_file_def failed_file_def update_conv' delete_conv')
    have free: "pending_file d dk f = Some c" "failed_file d dk f = None"
      using moved(7) assms(2) f by (auto simp: pending_file_def dumps_ok_def)
    have "dumps_ok d dk'"
    proof -
      have "pending_file d dk' n = None \<and> failed_file d dk' n = None" if "fd_DumpNum d < j" "own_name d j n" for j n
      proof -
        have "plain_name n" using dumps_okD(1,2) [OF assms(2)] own_name_plain [OF _ _ that(2)] that(1) by simp
        moreover have "n \<noteq> f" using dumps_okD(4) [OF assms(2) that] free(1) by auto
        ultimately show ?thesis using pf ff dumps_okD(4) [OF assms(2) that] by simp
      qed
      moreover have "pending_file d dk' n = None \<or> failed_file d dk' n = None" if "plain_name n" for n
        using pf [OF that] ff [OF that] dumps_okD(5) [OF assms(2) that] by auto
      ultimately show ?thesis using assms(2) by (auto simp: dumps_ok_def)
    qed
    moreover have "stored x d dk'" if st: "stored x d dk"
    proof -
      obtain n b where n: "plain_name n" "holds_text x b" "pending_file d dk n = Some b \<or> failed_file d dk n = Some b"
        using st by (auto simp: stored_def)
      with pf [OF n(1)] ff [OF n(1)] free show ?thesis by (intro storedI [OF n(1,2)]) (auto split: if_splits)
    qed
    ultimately show ?thesis using moved(2) by simp
  next
    case (sent f c)
    note f = pending_plain(1) [OF sent(1)]
    from sent(6) show ?thesis
    proof (elim disjE conjE exE)
      assume a: "d' = d" "dk_files dk' = AList.delete (path_Join [fd_Path d, f]) (dk_files dk)"
      have pf: "pending_file d dk' m = (if m = f then None else pending_file d dk m)"
        and ff: "failed_file d dk' m = failed_file d dk m" if "plain_name m" for m
        using that f a(2) failed_path_neq [OF that f, of d]
        by (auto simp: pending_file_def failed_file_def delete_conv')
      have "dumps_ok d dk'"
      proof -
        have "pending_file d dk' n = None \<and> failed_file d dk' n = None" if "fd_DumpNum d < j" "own_name d j n" for j n
        proof -
          have "plain_name n" using dumps_okD(1,2) [OF assms(2)] own_name_plain [OF _ _ that(2)] that(1) by simp
          then show ?thesis using pf ff dumps_okD(4) [OF assms(2) that] by simp
        qed
        moreover have "pending_file d dk' n = None \<or> failed_file d dk' n = None" if "plain_name n" for n
          using pf [OF that] ff [OF that] dumps_okD(5) [OF assms(2) that] by auto
        ultimately show ?thesis using assms(2) by (auto simp: dumps_ok_def)
      qed
      moreover have "stored x d dk' \<or> holds_text x c" if st: "stored x d dk"
      proof -
        obtain n b where n: "plain_name n" "holds_text x b" "pending_file d dk n = Some b \<or> failed_file d dk n = Some b"
          using st by (auto simp: stored_def)
        show ?thesis
        proof (cases "pending_file d dk n = Some b \<and> n = f")
          case True
          with sent(4) n(2) show ?thesis by (auto simp: pending_file_def)
        next
          case False
          with n pf [OF n(1)] ff [OF n(1)] have "stored x d dk'" by (intro storedI [OF n(1,2)]) (auto split: if_splits)
          then show ?thesis ..
        qed
      qed
      ultimately show ?thesis using a(1) sent(5) by auto
    next
      assume a: "same_files dk dk'"
      have "dumps_ok d dk'" "stored x d dk \<Longrightarrow> stored x d dk'"
        using a assms(2) dumps_ok_same stored_same by blast+
      with ProcessNextDump_dumper [OF assms(1)] show ?thesis by auto
    qed
  qed (use assms(2) dumps_ok_same stored_same in auto)
  then show "dumps_ok d' dk'"
    "stored x d dk \<Longrightarrow> stored x d' dk' \<or> (\<exists>c. holds_text x c \<and> delivered S (dump_payload c) s s')" by blast+
qed

section \<open>Removing a dump of \<open>failed/\<close>\<close>

lemma delete_failed_keeps:
  assumes "dk_files dk' = AList.delete (path_Join [failedDir d, n]) (dk_files dk)" "plain_name n" "dumps_ok d dk"
  shows "dumps_ok d dk'" "stored x d dk \<Longrightarrow> stored x d dk' \<or> (\<exists>c. failed_file d dk n = Some c \<and> holds_text x c)"
proof -
  have pf: "pending_file d dk' m = pending_file d dk m"
    and ff: "failed_file d dk' m = (if m = n then None else failed_file d dk m)" if "plain_name m" for m
    using that assms(1,2) failed_path_neq [OF assms(2) that, of d] path_Join_inject [OF that assms(2), of "failedDir d"]
    by (auto simp: pending_file_def failed_file_def delete_conv')
  have "\<forall>k m. fd_DumpNum d < k \<and> own_name d k m \<longrightarrow> pending_file d dk' m = None \<and> failed_file d dk' m = None"
  proof (intro allI impI, elim conjE)
    fix k m assume k: "fd_DumpNum d < k" "own_name d k m"
    have "plain_name m" using dumps_okD(1,2) [OF assms(3)] own_name_plain [OF _ _ k(2)] k(1) by simp
    with pf ff dumps_okD(4) [OF assms(3) k] show "pending_file d dk' m = None \<and> failed_file d dk' m = None" by simp
  qed
  moreover have "\<forall>m. plain_name m \<longrightarrow> pending_file d dk' m = None \<or> failed_file d dk' m = None"
    using pf ff dumps_okD(5) [OF assms(3)] by auto
  ultimately show "dumps_ok d dk'" using dumps_okD(1-3) [OF assms(3)] by (simp add: dumps_ok_def)
  show "stored x d dk' \<or> (\<exists>c. failed_file d dk n = Some c \<and> holds_text x c)" if st: "stored x d dk"
  proof -
    obtain m b where m: "plain_name m" "holds_text x b" "pending_file d dk m = Some b \<or> failed_file d dk m = Some b"
      using st by (auto simp: stored_def)
    show ?thesis
    proof (cases "m = n \<and> failed_file d dk m = Some b")
      case True
      with m(2) show ?thesis by auto
    next
      case False
      with m pf [OF m(1)] ff [OF m(1)] have "stored x d dk'" by (intro storedI [OF m(1,2)]) (auto split: if_splits)
      then show ?thesis ..
    qed
  qed
qed

end
