(* ===== verification/Lifecycle.thy ===== *)
theory Lifecycle
  imports Server
begin

text \<open>
  The rest of the server (server.go): the manual replay and the status, the start of the program
  from a configuration, and its orderly end. \<open>runServer\<close> is \<open>startUp\<close>; the goroutine that waits for
  a signal is \<open>shutDown\<close>.
\<close>

section \<open>Status and manual replay\<close>

record FullStatus =
  fs_Status :: string
  fs_Live :: TargetStatus
  fs_Backup :: TargetStatus

definition statusHandler :: "'q queue_api \<Rightarrow> 'q Server \<Rightarrow> FullStatus" where
  "statusHandler Q sv = \<lparr>fs_Status = ''ok'',
     fs_Live = buildTargetStatus Q (if sv_hasLive sv then Some (wk_ch (tg_live (sv_targets sv))) else None) (sv_hasLive sv),
     fs_Backup = buildTargetStatus Q
       (if sv_hasBackup sv then map_option wk_ch (tg_backup (sv_targets sv)) else None) (sv_BackupOn sv)\<rparr>"

text \<open>The answers: an error with its status, or the reports of the targets asked for.\<close>

datatype replay_answer = ReplayRefused int string
  | ReplayFailedResponse "FailedReplayReport option" "FailedReplayReport option"

definition replayFailedTarget :: "'q queue_api \<Rightarrow> env \<Rightarrow> int \<Rightarrow> FileDumper \<Rightarrow> 'q worker
    \<Rightarrow> (FailedReplayReport \<times> 'q worker) option" where
  "replayFailedTarget Q E limit d s =
     map_option (\<lambda>(rep, dk, s). (rep, s\<lparr>wk_disk := dk\<rparr>))
       (ReplayFailed (worker_sender Q E) limit d (wk_disk s) s)"

definition with_backup :: "'q worker \<Rightarrow> 'q Server \<Rightarrow> 'q Server" where
  "with_backup b sv = sv\<lparr>sv_targets := (sv_targets sv)\<lparr>tg_backup := Some b\<rparr>\<rparr>"

text \<open>The dumper and the sender of the backup, where the handler finds both and the backup is on.\<close>

definition replayable_backup :: "'q Server \<Rightarrow> (FileDumper \<times> 'q worker) option" where
  "replayable_backup sv = (case tg_backup (sv_targets sv) of
     Some b \<Rightarrow> (if sv_BackupOn sv \<and> sv_hasBackup sv then map_option (\<lambda>d. (d, b)) (wk_dumper b) else None)
   | None \<Rightarrow> None)"

definition replayable_live :: "'q Server \<Rightarrow> FileDumper option" where
  "replayable_live sv = (if sv_hasLive sv then wk_dumper (tg_live (sv_targets sv)) else None)"

definition replayLive :: "'q queue_api \<Rightarrow> env \<Rightarrow> int \<Rightarrow> 'q Server \<Rightarrow> (FailedReplayReport option \<times> 'q Server) option" where
  "replayLive Q E limit sv = (case replayable_live sv of
     None \<Rightarrow> Some (None, sv)
   | Some d \<Rightarrow> map_option (\<lambda>(rep, s). (Some rep, with_live (\<lambda>_. s) sv))
       (replayFailedTarget Q E limit d (tg_live (sv_targets sv))))"

definition replayBackup :: "'q queue_api \<Rightarrow> env \<Rightarrow> int \<Rightarrow> 'q Server \<Rightarrow> (FailedReplayReport option \<times> 'q Server) option" where
  "replayBackup Q E limit sv = (case replayable_backup sv of
     None \<Rightarrow> Some (None, sv)
   | Some (d, b) \<Rightarrow> map_option (\<lambda>(rep, b). (Some rep, with_backup b sv)) (replayFailedTarget Q E limit d b))"

definition replay_limit :: "string \<Rightarrow> int option" where
  "replay_limit s = (if s = [] then Some 0
     else (case Atoi s of (v, ok) \<Rightarrow> if ok \<and> 0 \<le> v then Some v else None))"

text \<open>The parameters target and limit of the query; \<^term>\<open>None\<close> when a query never returns.\<close>

definition replayFailedHandler :: "'q queue_api \<Rightarrow> env \<Rightarrow> env \<Rightarrow> string \<Rightarrow> string \<Rightarrow> 'q Server
    \<Rightarrow> (replay_answer \<times> 'q Server) option" where
  "replayFailedHandler Q E E' target limitParam sv =
     (let target = (if target = [] then ''live'' else target)
      in case replay_limit limitParam of
           None \<Rightarrow> Some (ReplayRefused 400 ''invalid limit'', sv)
         | Some limit \<Rightarrow>
             (if target = ''backup'' then
                (if replayable_backup sv = None then Some (ReplayRefused 400 ''backup not enabled'', sv)
                 else map_option (\<lambda>(b, sv). (ReplayFailedResponse None b, sv)) (replayBackup Q E' limit sv))
              else if target = ''all'' then
                (case replayLive Q E limit sv of
                   None \<Rightarrow> None
                 | Some (l, sv) \<Rightarrow> map_option (\<lambda>(b, sv). (ReplayFailedResponse l b, sv)) (replayBackup Q E' limit sv))
              else
                (if replayable_live sv = None then Some (ReplayRefused 500 ''live dumper not configured'', sv)
                 else map_option (\<lambda>(l, sv). (ReplayFailedResponse l None, sv)) (replayLive Q E limit sv))))"

section \<open>Start\<close>

text \<open>The sender and the dumper of a target, for the queue \<open>q\<close> and the time \<open>stamp\<close> of the dumper.\<close>

definition newClickhouseSender :: "clickhouseConfig \<Rightarrow> string \<Rightarrow> bool \<Rightarrow> int \<Rightarrow> 'q \<Rightarrow> string
    \<Rightarrow> 'q Clickhouse \<times> FileDumper" where
  "newClickhouseSender ch dumpDir logQueries maxDumpFiles q stamp =
     (let dumper = (NewDumper dumpDir stamp)\<lparr>fd_MaxDumpFiles := maxDumpFiles\<rparr>;
          target = (NewClickhouse q (cc_DownTimeout ch) (cc_ConnectTimeout ch))\<lparr>ch_QueryParams := cc_QueryParams ch\<rparr>
      in (fold (\<lambda>url. AddServer url logQueries) (cc_Servers ch) target, dumper))"

text \<open>With a negative interval the dumps are not replayed.\<close>

definition startDumpReplay :: "int \<Rightarrow> FileDumper \<Rightarrow> FileDumper" where
  "startDumpReplay interval d = (if 0 \<le> interval then Listen_init d else d)"

definition backupDumpCheckInterval :: "Config \<Rightarrow> int" where
  "backupDumpCheckInterval c =
     (if 0 < cf_BkpDumpCheckInterval c then cf_BkpDumpCheckInterval c else cf_DumpCheckInterval c)"

text \<open>
  What a process finds when it starts: the times of the dumpers, empty queues, the dump directories,
  the journal's directory, and the time.
\<close>

record 'q surroundings =
  sr_stamp :: string
  sr_queue :: 'q
  sr_disk :: disk
  sr_backup_disk :: disk
  sr_jdir :: journal_dir
  sr_now :: nanos

definition new_target :: "clickhouseConfig \<Rightarrow> string \<Rightarrow> int \<Rightarrow> Config \<Rightarrow> journal option \<Rightarrow> journal_dir \<Rightarrow> disk
    \<Rightarrow> 'q surroundings \<Rightarrow> 'q worker" where
  "new_target ch dumpDir interval cnf j jd dk sr =
     (case newClickhouseSender ch dumpDir (cf_LogQueries cnf) (cf_MaxDumpFiles cnf) (sr_queue sr) (sr_stamp sr) of
        (c, dumper) \<Rightarrow>
          \<lparr>wk_ch = c, wk_world = \<lparr>w_ticks = 0, w_posts = 0, w_log = []\<rparr>,
           wk_dumper = Some (startDumpReplay interval dumper), wk_disk = dk, wk_journal = j, wk_jdir = jd\<rparr>)"

definition bkp_dump_dir :: "Config \<Rightarrow> string" where
  "bkp_dump_dir cnf = (if cf_BkpDumpDir cnf = [] then ''dumps-bkp'' else cf_BkpDumpDir cnf)"

text \<open>The records the journal hands back, one after the other; a panic ends the process.\<close>

fun replayRecords :: "'s Sender \<Rightarrow> nanos \<Rightarrow> journalRecord list \<Rightarrow> Collector \<times> 's \<Rightarrow> (Collector \<times> 's) option" where
  "replayRecords S now [] (c, s) = Some (c, s)"
| "replayRecords S now (r # rs) (c, s) = (case ReplayJournalRecord S now r c s of
     None \<Rightarrow> None
   | Some x \<Rightarrow> replayRecords S now rs x)"

text \<open>
  \<open>runServer\<close> up to the start of the HTTP server; \<^term>\<open>None\<close> where it ends with a fatal error. The
  argument \<open>backup\<close> is the configuration of the backup target if that is enabled.
\<close>

definition startUp :: "'q queue_api \<Rightarrow> env \<Rightarrow> env \<Rightarrow> Config \<Rightarrow> 'q surroundings \<Rightarrow> 'q Server option" where
  "startUp Q E E' cnf sr =
     (case NewJournal (EffectiveJournalDir cnf) (cf_JournalFsync cnf) (cf_MaxJournalPending cnf) (sr_now sr) (sr_jdir sr) of
        (Inl e, jd) \<Rightarrow> None
      | (Inr j, jd) \<Rightarrow>
          (let backup = BackupEnabled cnf;
               live = new_target (cf_Clickhouse cnf) (cf_DumpDir cnf) (cf_DumpCheckInterval cnf) cnf j jd (sr_disk sr) sr;
               bkp = (if backup then Some (new_target (the (cf_ClickhouseBackup cnf)) (bkp_dump_dir cnf)
                        (backupDumpCheckInterval cnf) cnf None jd (sr_backup_disk sr) sr) else None);
               collect = NewCollector (cf_FlushCount cnf) (cf_FlushInterval cnf) (cf_CleanInterval cnf)
                 (cf_RemoveQueryID cnf) (cf_OpaqueInsert cnf) (cf_BatchFormats cnf);
               sv = \<lparr>sv_Collector = collect, sv_targets = \<lparr>tg_live = live, tg_backup = bkp\<rparr>,
                 sv_hasLive = True, sv_hasBackup = backup, sv_BackupOn = backup,
                 sv_MaxRequestBytes = cf_MaxRequestBytes cnf, sv_SyncInsert = cf_SyncInsert cnf, sv_spawned = []\<rparr>
           in case j of
                None \<Rightarrow> Some sv
              | Some j \<Rightarrow> (case ReplayUnacked j jd of
                  (recs, Inl e, j, jd) \<Rightarrow> None
                | (recs, Inr _, j, jd) \<Rightarrow>
                    (case replayRecords (main_sender Q E E') (sr_now sr) recs (collect, sv_targets sv) of
                       None \<Rightarrow> None
                     | Some (c, t) \<Rightarrow> (case Compact (sr_now sr) j jd of
                         (_, j, jd) \<Rightarrow>
                           Some (with_live (\<lambda>s. s\<lparr>wk_journal := Some j, wk_jdir := jd\<rparr>)
                             (sv\<lparr>sv_Collector := c, sv_targets := t\<rparr>)))))))"

section \<open>End\<close>

definition shutdownJournal :: "nanos \<Rightarrow> 'q worker \<Rightarrow> 'q worker" where
  "shutdownJournal now s = (case wk_journal s of
     None \<Rightarrow> s
   | Some j \<Rightarrow> (case Close now j (wk_jdir s) of
       (_, j, jd) \<Rightarrow> s\<lparr>wk_journal := Some j, wk_jdir := jd\<rparr>))"

text \<open>
  \<open>WaitFlush\<close> of a target: its worker takes turns until nothing is outstanding; \<^term>\<open>None\<close> if that
  never happens. The pair of targets waits for the live one and then for the backup.
\<close>

partial_function (option) waitFlush :: "'q queue_api \<Rightarrow> env \<Rightarrow> 'q worker \<Rightarrow> 'q worker option" where
  "waitFlush Q E s =
     (if ch_wg (wk_ch s) \<le> 0 then Some s
      else (case runStep Q E s of None \<Rightarrow> None | Some s \<Rightarrow> waitFlush Q E s))"

definition waitTargets :: "'q queue_api \<Rightarrow> env \<Rightarrow> env \<Rightarrow> 'q targets \<Rightarrow> 'q targets option" where
  "waitTargets Q E E' t = (case waitFlush Q E (tg_live t) of
     None \<Rightarrow> None
   | Some l \<Rightarrow> (case tg_backup t of
       None \<Rightarrow> Some (t\<lparr>tg_live := l\<rparr>)
     | Some b \<Rightarrow> map_option (\<lambda>b. t\<lparr>tg_live := l, tg_backup := Some b\<rparr>) (waitFlush Q E' b)))"

definition flush_collector :: "'q queue_api \<Rightarrow> env \<Rightarrow> env \<Rightarrow> 'q Server \<Rightarrow> 'q Server option" where
  "flush_collector Q E E' sv =
     map_option (\<lambda>(n, c, t). sv\<lparr>sv_Collector := c, sv_targets := t\<rparr>)
       (FlushAll (main_sender Q E E') (sv_Collector sv) (sv_targets sv))"

definition drained :: "'q queue_api \<Rightarrow> env \<Rightarrow> env \<Rightarrow> 'q Server \<Rightarrow> bool" where
  "drained Q E E' sv = (s_Empty (main_sender Q E E') (sv_targets sv) \<and> collector_Empty (sv_Collector sv))"

text \<open>A reading of the clock, and the loop of \<open>SafeQuit\<close>.\<close>

definition server_now :: "env \<Rightarrow> 'q Server \<Rightarrow> nanos \<times> 'q Server" where
  "server_now E sv = (case time_Now E (wk_world (tg_live (sv_targets sv))) of
     (now, w) \<Rightarrow> (now, with_live (\<lambda>s. s\<lparr>wk_world := w\<rparr>) sv))"

partial_function (option) drainLoop :: "'q queue_api \<Rightarrow> env \<Rightarrow> env \<Rightarrow> nanos \<Rightarrow> 'q Server \<Rightarrow> 'q Server option" where
  "drainLoop Q E E' deadline sv =
     (if drained Q E E' sv then Some sv
      else (case server_now E sv of (now, sv) \<Rightarrow>
        (if deadline < now then Some sv
         else (case (if collector_Empty (sv_Collector sv) then Some sv else flush_collector Q E E' sv) of
             None \<Rightarrow> None
           | Some sv \<Rightarrow> (case waitTargets Q E E' (sv_targets sv) of
               None \<Rightarrow> None
             | Some t \<Rightarrow> drainLoop Q E E' deadline (sv\<lparr>sv_targets := t\<rparr>))))))"

definition SafeQuit :: "'q queue_api \<Rightarrow> env \<Rightarrow> env \<Rightarrow> int \<Rightarrow> 'q Server \<Rightarrow> 'q Server option" where
  "SafeQuit Q E E' drainSec sv =
     (let drainSec = (if drainSec \<le> 0 then 60 else drainSec)
      in case server_now E sv of (now, sv) \<Rightarrow>
         (case flush_collector Q E E' sv of
            None \<Rightarrow> None
          | Some sv \<Rightarrow> drainLoop Q E E' (now + duration_mult second drainSec) sv))"

definition shutDown :: "'q queue_api \<Rightarrow> env \<Rightarrow> env \<Rightarrow> Config \<Rightarrow> 'q Server \<Rightarrow> 'q Server option" where
  "shutDown Q E E' cnf sv = (case SafeQuit Q E E' (cf_ShutdownDrainSec cnf) sv of
     None \<Rightarrow> None
   | Some sv \<Rightarrow> (case server_now E sv of (now, sv) \<Rightarrow> Some (with_live (shutdownJournal now) sv)))"

end
