(* ===== verification/Target_Facts.thy ===== *)
theory Target_Facts
  imports Server_Facts Collector_Carry Dumper_Store Lifecycle
begin

text \<open>
  A target with its journal and its dumps: what each operation on it does to the records the
  journal still has, and to the texts that have arrived in a dump or at ClickHouse.
\<close>

section \<open>A target with journal and dumps\<close>

text \<open>The records the journal would hand back, and whether a text is past the journal.\<close>

definition pending_recs :: "'q worker \<Rightarrow> journalRecord list" where
  "pending_recs s = (case wk_journal s of None \<Rightarrow> [] | Some j \<Rightarrow> pending j (wk_jdir s))"

abbreviation pending_ids :: "'q worker \<Rightarrow> u64 list" where
  "pending_ids s \<equiv> map rec_ID (pending_recs s)"

definition arrived :: "string \<Rightarrow> 'q worker \<Rightarrow> bool" where
  "arrived x s = ((\<exists>d. wk_dumper s = Some d \<and> stored x d (wk_disk s)) \<or> posted x (wk_world s))"

definition target_inv :: "'q worker \<Rightarrow> bool" where
  "target_inv s = ((\<exists>j. wk_journal s = Some j \<and> log_inv (j, wk_jdir s))
     \<and> (\<exists>d. wk_dumper s = Some d \<and> dumps_ok d (wk_disk s)) \<and> urls_ok (wk_ch s))"

lemma pending_ids_known:
  assumes "target_inv s" "wk_journal s = Some j"
  shows "distinct (pending_ids s)" "set (pending_ids s) \<subseteq> set (wal_ids (wal_lines (wk_jdir s)))"
    "i \<in> set (pending_ids s) \<Longrightarrow> i \<noteq> 0 \<and> i \<le> j_nextID j"
proof -
  have inv: "journal_inv j (wk_jdir s)" using assms by (auto simp: target_inv_def)
  then have d: "distinct (wal_ids (wal_lines (wk_jdir s)))"
    and b: "\<forall>x \<in> set (wal_ids (wal_lines (wk_jdir s))). x \<noteq> 0 \<and> x \<le> j_nextID j"
    by (auto simp: journal_inv_def wal_wf_def)
  show "distinct (pending_ids s)"
    using d assms(2) by (simp add: pending_recs_def pending_def unacked_recs_def wal_ids_def distinct_map_filter)
  show sub: "set (pending_ids s) \<subseteq> set (wal_ids (wal_lines (wk_jdir s)))"
    using assms(2) by (auto simp: pending_recs_def pending_def unacked_recs_def wal_ids_def)
  show "i \<in> set (pending_ids s) \<Longrightarrow> i \<noteq> 0 \<and> i \<le> j_nextID j" using sub b by blast
qed

text \<open>What a query does to its target.\<close>

lemma query_target:
  assumes "SendQuery E r (wk_ch s) (wk_world s) = Some (q, c, w)" "target_inv s"
  shows "target_inv (s\<lparr>wk_ch := c, wk_world := w\<rparr>)"
    "pending_recs (s\<lparr>wk_ch := c, wk_world := w\<rparr>) = pending_recs s"
    "arrived x s \<Longrightarrow> arrived x (s\<lparr>wk_ch := c, wk_world := w\<rparr>)"
    "rp_err q = None \<Longrightarrow> contains (req_Content r) x \<Longrightarrow> arrived x (s\<lparr>wk_ch := c, wk_world := w\<rparr>)"
    "rp_err q \<noteq> None \<Longrightarrow> 400 \<le> rp_status q" "ch_Queue c = ch_Queue (wk_ch s)"
proof -
  have u: "urls_ok (wk_ch s)" using assms(2) by (simp add: target_inv_def)
  have sp: "send_post (wk_ch s) q c" using SendQuery_post [OF assms(1)] .
  show "target_inv (s\<lparr>wk_ch := c, wk_world := w\<rparr>)"
    using assms(2) SendQuery_urls [OF assms(1) u] by (simp add: target_inv_def)
  show "pending_recs (s\<lparr>wk_ch := c, wk_world := w\<rparr>) = pending_recs s"
    by (simp add: pending_recs_def split: option.split)
  show "arrived x s \<Longrightarrow> arrived x (s\<lparr>wk_ch := c, wk_world := w\<rparr>)"
    using SendQuery_keeps_posted [OF assms(1) u] by (auto simp: arrived_def)
  show "rp_err q = None \<Longrightarrow> contains (req_Content r) x \<Longrightarrow> arrived x (s\<lparr>wk_ch := c, wk_world := w\<rparr>)"
    using SendQuery_posted [OF assms(1) u] by (simp add: arrived_def)
  show "rp_err q \<noteq> None \<Longrightarrow> 400 \<le> rp_status q" "ch_Queue c = ch_Queue (wk_ch s)"
    using sp by (auto simp: send_post_def)
qed

text \<open>What a dump does to its target.\<close>

lemma dump_kind_digit: "\<exists>k. dump_kind st = [k] \<and> is_digit_char k"
  by (simp add: dump_kind_def is_digit_char_def)

lemma dump_target:
  assumes "ch_Dump (req_Params r) (req_Content r) resp (dump_kind st) st s = (res, s')" "target_inv s" "400 \<le> st"
  shows "target_inv s'" "pending_recs s' = pending_recs s" "wk_ch s' = wk_ch s"
    "arrived x s \<Longrightarrow> arrived x s'"
    "res = Inr () \<Longrightarrow> dumpable r \<Longrightarrow> contains (req_Content r) x \<Longrightarrow> arrived x s'"
proof -
  obtain d where d: "wk_dumper s = Some d" "dumps_ok d (wk_disk s)" using assms(2) by (auto simp: target_inv_def)
  obtain k where k: "dump_kind st = [k]" "is_digit_char k" using dump_kind_digit by blast
  obtain d' dk' where e: "Dump (req_Params r) (req_Content r) resp [k] st d (wk_disk s) = (res, d', dk')"
    "s' = s\<lparr>wk_dumper := Some d', wk_disk := dk'\<rparr>"
    using assms(1) d(1) k(1) by (auto simp: ch_Dump_def split: prod.splits)
  note keep = dump_keeps [OF e(1) d(2) k(2)]
  have st: "0 \<le> st" using assms(3) by simp
  show "target_inv s'" using assms(2) keep(1) [OF st] e(2) by (simp add: target_inv_def)
  show "pending_recs s' = pending_recs s" "wk_ch s' = wk_ch s"
    using e(2) by (simp_all add: pending_recs_def split: option.split)
  show "arrived x s \<Longrightarrow> arrived x s'" using keep(2) [OF st] d(1) e(2) by (auto simp: arrived_def)
  show "res = Inr () \<Longrightarrow> dumpable r \<Longrightarrow> contains (req_Content r) x \<Longrightarrow> arrived x s'"
    using dump_stores [OF _ d(2) k(2) st] e by (simp add: arrived_def)
qed

text \<open>What an acknowledgement does to its target.\<close>

lemma ack_target:
  assumes "target_inv s" "set ids \<subseteq> set (pending_ids s)"
  shows "target_inv (ackJournal E ids s)" "arrived x s \<Longrightarrow> arrived x (ackJournal E ids s)"
    "pending_recs (ackJournal E ids s) = filter (\<lambda>r. rec_ID r \<notin> set ids) (pending_recs s)"
proof -
  obtain j where j: "wk_journal s = Some j" "log_inv (j, wk_jdir s)" using assms(1) by (auto simp: target_inv_def)
  have sub: "set ids \<subseteq> insert 0 (set (wal_ids (wal_lines (wk_jdir s))))"
    using assms(2) pending_ids_known(2) [OF assms(1) j(1)] by blast
  have "target_inv (ackJournal E ids s) \<and> (arrived x s \<longrightarrow> arrived x (ackJournal E ids s))
    \<and> pending_recs (ackJournal E ids s) = filter (\<lambda>r. rec_ID r \<notin> set ids) (pending_recs s)"
  proof (cases "ids = []")
    case True
    with j assms(1) show ?thesis by (simp add: ackJournal_def)
  next
    case False
    let ?now = "env_clock E (w_ticks (wk_world s))"
    obtain res j' d' where a: "Ack ?now ids j (wk_jdir s) = (res, j', d')" by (metis prod_cases3)
    have e: "ackJournal E ids s = s\<lparr>wk_world := (wk_world s)\<lparr>w_ticks := w_ticks (wk_world s) + 1\<rparr>,
        wk_journal := Some j', wk_jdir := d'\<rparr>"
      using j(1) False a by (simp add: ackJournal_def time_Now_def)
    have c: "log_inv (j', d')" "pending j' d' = filter (\<lambda>r. rec_ID r \<notin> set ids) (pending j (wk_jdir s))"
      using journal_step_contract [OF j(2), of "JAck ?now ids"] sub a by auto
    have "pending_recs (ackJournal E ids s) = filter (\<lambda>r. rec_ID r \<notin> set ids) (pending_recs s)"
      using c(2) j(1) by (simp add: e pending_recs_def)
    with c(1) assms(1) show ?thesis by (simp add: e target_inv_def arrived_def posted_def)
  qed
  then show "target_inv (ackJournal E ids s)" "arrived x s \<Longrightarrow> arrived x (ackJournal E ids s)"
    "pending_recs (ackJournal E ids s) = filter (\<lambda>r. rec_ID r \<notin> set ids) (pending_recs s)" by blast+
qed

text \<open>A request handled: what the journal loses has arrived.\<close>

lemma handleRequest_target:
  assumes "handleRequest E r s = Some s'" "target_inv s" "set (req_JournalIDs r) \<subseteq> set (pending_ids s)" "dumpable r"
  shows "target_inv s'" "arrived x s \<Longrightarrow> arrived x s'" "ch_Queue (wk_ch s') = ch_Queue (wk_ch s)"
    "pending_recs s' = pending_recs s \<or> pending_recs s' = filter (\<lambda>k. rec_ID k \<notin> set (req_JournalIDs r)) (pending_recs s)
      \<and> (contains (req_Content r) x \<longrightarrow> arrived x s')"
proof -
  have "target_inv s' \<and> (arrived x s \<longrightarrow> arrived x s') \<and> ch_Queue (wk_ch s') = ch_Queue (wk_ch s)
    \<and> (pending_recs s' = pending_recs s \<or> pending_recs s' = filter (\<lambda>k. rec_ID k \<notin> set (req_JournalIDs r)) (pending_recs s)
      \<and> (contains (req_Content r) x \<longrightarrow> arrived x s'))"
    using assms(1)
  proof (cases rule: handleRequest_cases)
    case (sent q c w)
    note t = query_target [OF sent(1) assms(2)]
    have "set (req_JournalIDs r) \<subseteq> set (pending_ids (s\<lparr>wk_ch := c, wk_world := w\<rparr>))" using t(2) assms(3) by simp
    note a = ack_target [OF t(1) this]
    show ?thesis using a t sent by simp
  next
    case (dumped q c w s1)
    note t = query_target [OF dumped(1) assms(2)]
    note d = dump_target [OF dumped(3) t(1) t(5) [OF dumped(2)]]
    have "set (req_JournalIDs r) \<subseteq> set (pending_ids s1)" using t(2) d(2) assms(3) by simp
    note a = ack_target [OF d(1) this]
    show ?thesis using a d t dumped assms(4) by simp
  next
    case (kept q c w e)
    note t = query_target [OF kept(1) assms(2)]
    note d = dump_target [OF kept(3) t(1) t(5) [OF kept(2)]]
    show ?thesis using d t kept by simp
  qed
  then show "target_inv s'" "arrived x s \<Longrightarrow> arrived x s'" "ch_Queue (wk_ch s') = ch_Queue (wk_ch s)"
    "pending_recs s' = pending_recs s \<or> pending_recs s' = filter (\<lambda>k. rec_ID k \<notin> set (req_JournalIDs r)) (pending_recs s)
      \<and> (contains (req_Content r) x \<longrightarrow> arrived x s')" by blast+
qed

text \<open>What an append does to its target.\<close>

lemma append_target:
  assumes "target_inv s" "wk_journal s = Some j" "appendRecord r j (wk_jdir s) = (res, j', d')"
    "j_nextID j \<noteq> - 1" "fits MaxScanTokenSize (marshal_line (r\<lparr>rec_ID := j_nextID j + 1\<rparr>))"
  shows "target_inv (s\<lparr>wk_journal := Some j', wk_jdir := d'\<rparr>)"
    "arrived x (s\<lparr>wk_journal := Some j', wk_jdir := d'\<rparr>) = arrived x s"
    "pending_recs (s\<lparr>wk_journal := Some j', wk_jdir := d'\<rparr>) = pending_recs s
      @ (case res of Inl _ \<Rightarrow> [] | Inr i \<Rightarrow> [json_reread (r\<lparr>rec_ID := i\<rparr>)])"
    "res = Inr i \<Longrightarrow> i = j_nextID j + 1 \<and> 0 < i \<and> i \<notin> set (pending_ids s)"
proof -
  have inv: "log_inv (j, wk_jdir s)" using assms(1,2) by (auto simp: target_inv_def)
  have "pending j' d' = pending j (wk_jdir s) @ (case res of Inl _ \<Rightarrow> [] | Inr i \<Rightarrow> [json_reread (r\<lparr>rec_ID := i\<rparr>)])
    \<and> (res = Inr i \<longrightarrow> i = j_nextID j + 1)"
  proof (cases "backlogged j")
    case True
    with assms(3) inv show ?thesis by (auto simp: appendRecord_backlogged)
  next
    case False
    from appendRecord_quiet [OF _ _ False, of "wk_jdir s" r] inv assms(3) have "res = Inr (j_nextID j + 1)" by auto
    with append_contract(2) [OF inv assms(4,5)] assms(3) False show ?thesis by (simp add: json_reread_def)
  qed
  moreover have "log_inv (j', d')" using append_contract(1) [OF inv assms(4,5)] assms(3) by simp
  ultimately show "target_inv (s\<lparr>wk_journal := Some j', wk_jdir := d'\<rparr>)"
    "arrived x (s\<lparr>wk_journal := Some j', wk_jdir := d'\<rparr>) = arrived x s"
    "pending_recs (s\<lparr>wk_journal := Some j', wk_jdir := d'\<rparr>) = pending_recs s
      @ (case res of Inl _ \<Rightarrow> [] | Inr i \<Rightarrow> [json_reread (r\<lparr>rec_ID := i\<rparr>)])"
    "res = Inr i \<Longrightarrow> i = j_nextID j + 1 \<and> 0 < i \<and> i \<notin> set (pending_ids s)"
    using assms(1,2) pending_ids_known(3) [OF assms(1,2), of i] u64_less_Suc [OF assms(4)]
    by (auto simp: target_inv_def arrived_def pending_recs_def word_neq_0_conv [symmetric])
qed

text \<open>What a tick of the replay does to its target.\<close>

lemma delivered_posts:
  assumes "delivered (worker_sender Q E) (dump_payload b) s s'" "target_inv s" "holds_text x b" "x \<noteq> []"
  shows "posted x (wk_world s')"
proof -
  let ?r = "dump_request (dump_payload b)"
  have ne: "contains (req_Content ?r) x" using assms(3) by (simp add: holds_text_def)
  then have "req_Content ?r \<noteq> []" using assms(4) by (auto simp: contains_iff)
  moreover have "dump_payload b \<noteq> []"
    using \<open>req_Content ?r \<noteq> []\<close> by (auto simp: dump_request_def parseDumpPayload_def HasPrefix_def)
  ultimately obtain q c w where q: "SendQuery E ?r (wk_ch s) (wk_world s) = Some (q, c, w)" "rp_err q = None"
    "s' = s\<lparr>wk_ch := c, wk_world := w\<rparr>"
    using assms(1) by (auto simp: delivered_def sendDumpPayload_def worker_sender_def Let_def)
  with SendQuery_posted [OF q(1) _ q(2) ne] assms(2) show ?thesis by (simp add: target_inv_def)
qed

lemma replay_target:
  assumes "ProcessNextDump (worker_sender Q E) d (wk_disk s) s = Some (res, d', dk', s')"
    "wk_dumper s = Some d" "target_inv s"
  shows "target_inv (s'\<lparr>wk_dumper := Some d', wk_disk := dk'\<rparr>)"
    "pending_recs (s'\<lparr>wk_dumper := Some d', wk_disk := dk'\<rparr>) = pending_recs s"
    "ch_Queue (wk_ch s') = ch_Queue (wk_ch s)"
    "arrived x s \<Longrightarrow> x \<noteq> [] \<Longrightarrow> arrived x (s'\<lparr>wk_dumper := Some d', wk_disk := dk'\<rparr>)"
proof -
  have ok: "dumps_ok d (wk_disk s)" using assms(2,3) by (auto simp: target_inv_def)
  note keep = replay_keeps [OF assms(1) ok]
  have "s' = s \<or> (\<exists>r q c w. SendQuery E r (wk_ch s) (wk_world s) = Some (q, c, w) \<and> s' = s\<lparr>wk_ch := c, wk_world := w\<rparr>)"
    using assms(1)
    by (cases rule: ProcessNextDump_cases)
      (auto simp: delivered_def sendDumpPayload_def worker_sender_def Let_def split: if_splits)
  then have t: "target_inv s' \<and> pending_recs s' = pending_recs s \<and> ch_Queue (wk_ch s') = ch_Queue (wk_ch s)
    \<and> (posted x (wk_world s) \<longrightarrow> posted x (wk_world s'))"
  proof (elim disjE exE conjE)
    fix r q c w assume q: "SendQuery E r (wk_ch s) (wk_world s) = Some (q, c, w)" "s' = s\<lparr>wk_ch := c, wk_world := w\<rparr>"
    have "urls_ok (wk_ch s)" using assms(3) by (simp add: target_inv_def)
    with query_target(1,2,6) [OF q(1) assms(3)] SendQuery_keeps_posted [OF q(1)] q(2) show ?thesis by simp
  qed (use assms(3) in simp)
  then show "target_inv (s'\<lparr>wk_dumper := Some d', wk_disk := dk'\<rparr>)"
    using keep(1) by (simp add: target_inv_def)
  show "pending_recs (s'\<lparr>wk_dumper := Some d', wk_disk := dk'\<rparr>) = pending_recs s"
    using t by (simp add: pending_recs_def split: option.splits)
  show "ch_Queue (wk_ch s') = ch_Queue (wk_ch s)" using t by blast
  assume a: "arrived x s" "x \<noteq> []"
  show "arrived x (s'\<lparr>wk_dumper := Some d', wk_disk := dk'\<rparr>)"
  proof (cases "posted x (wk_world s')")
    case False
    then have "stored x d (wk_disk s)" using a(1) assms(2) t by (auto simp: arrived_def)
    from keep(2) [OF this] show ?thesis
    proof (elim disjE exE conjE)
      fix b assume "holds_text x b" "delivered (worker_sender Q E) (dump_payload b) s s'"
      from delivered_posts [OF this(2) assms(3) this(1) a(2)] show ?thesis by (simp add: arrived_def)
    qed (simp add: arrived_def)
  qed (simp add: arrived_def)
qed

section \<open>The manual replay\<close>

lemma replayFailedFile_sends:
  "replayFailedFile S d n rep dk s = Some (rep', dk', s') \<Longrightarrow> s' = s \<or> (\<exists>data y. sendDumpPayload S data s = Some (y, s'))"
  by (auto simp: replayFailedFile_def Let_def split: sum.splits prod.splits option.splits) 

lemma sent_payload:
  assumes "sendDumpPayload (worker_sender Q E) data s = Some (y, s')"
  shows "s' = s \<or> (\<exists>r q c w. SendQuery E r (wk_ch s) (wk_world s) = Some (q, c, w) \<and> s' = s\<lparr>wk_ch := c, wk_world := w\<rparr>)"
  using assms by (auto simp: sendDumpPayload_def worker_sender_def Let_def split: if_splits)

definition same_place :: "'q worker \<Rightarrow> 'q worker \<Rightarrow> bool" where
  "same_place s u = (target_inv u \<and> wk_disk u = wk_disk s \<and> wk_dumper u = wk_dumper s
     \<and> pending_recs u = pending_recs s \<and> ch_Queue (wk_ch u) = ch_Queue (wk_ch s))"

lemma same_place_query:
  assumes "same_place s u" "SendQuery E r (wk_ch u) (wk_world u) = Some (q, c, w)"
  shows "same_place s (u\<lparr>wk_ch := c, wk_world := w\<rparr>)"
proof -
  have "target_inv u" using assms(1) by (simp add: same_place_def)
  from query_target(1,2,6) [OF assms(2) this] assms(1) show ?thesis by (simp add: same_place_def)
qed

lemma replayFailedTarget_target:
  assumes "replayFailedTarget Q E limit d s = Some (rep, s')" "wk_dumper s = Some d" "target_inv s"
  shows "target_inv s'" "pending_recs s' = pending_recs s" "ch_Queue (wk_ch s') = ch_Queue (wk_ch s)"
    "arrived x s \<Longrightarrow> x \<noteq> [] \<Longrightarrow> arrived x s'"
proof -
  let ?S = "worker_sender Q E" and ?dk = "wk_disk s"
  obtain dk u where r: "ReplayFailed ?S limit d ?dk s = Some (rep, dk, u)" "s' = u\<lparr>wk_disk := dk\<rparr>"
    using assms(1) by (auto simp: replayFailedTarget_def)
  define I where "I fs u = (same_place s u \<and> dumps_ok d (?dk\<lparr>dk_files := fs\<rparr>)
      \<and> (arrived x s \<and> x \<noteq> [] \<longrightarrow> stored x d (?dk\<lparr>dk_files := fs\<rparr>) \<or> posted x (wk_world u)))" for fs u
  have eqv: "dumps_ok d (?dk\<lparr>dk_files := dk_files k\<rparr>) = dumps_ok d k" "stored x d (?dk\<lparr>dk_files := dk_files k\<rparr>) = stored x d k" for k
    by (simp_all add: dumps_ok_def stored_def pending_file_def failed_file_def)
  have "I (dk_files ?dk) s"
    using assms(2,3) by (auto simp: I_def same_place_def arrived_def target_inv_def)
  moreover have "I (dk_files k') v'" if f: "replayFailedFile ?S d n rp k v = Some (rp', k', v')" "plain_name n" "I (dk_files k) v"
    for n rp k v rp' k' v'
  proof -
    have ok: "dumps_ok d k" and pl: "same_place s v" and tv: "target_inv v"
      using f(3) eqv by (auto simp: I_def same_place_def)
    have pl': "same_place s v' \<and> (posted x (wk_world v) \<longrightarrow> posted x (wk_world v'))"
      using replayFailedFile_sends [OF f(1)]
    proof (elim disjE exE)
      fix data y assume "sendDumpPayload ?S data v = Some (y, v')"
      from sent_payload [OF this] show ?thesis
      proof (elim disjE exE conjE)
        fix r q c w assume q: "SendQuery E r (wk_ch v) (wk_world v) = Some (q, c, w)" "v' = v\<lparr>wk_ch := c, wk_world := w\<rparr>"
        have "urls_ok (wk_ch v)" using tv by (simp add: target_inv_def)
        with same_place_query [OF pl q(1)] SendQuery_keeps_posted [OF q(1)] q(2) show ?thesis by auto
      qed (use pl in simp)
    qed (use pl in simp)
    from replayFailedFile_effect [OF f(1,2)] show ?thesis
    proof (elim conjE disjE exE)
      assume "dk_files k' = dk_files k"
      with f(3) pl' show ?thesis by (auto simp: I_def)
    next
      fix c assume c: "map_of (dk_files k) (path_Join [failedDir d, n]) = Some c" "delivered ?S (dump_payload c) v v'"
        and del: "dk_files k' = AList.delete (path_Join [failedDir d, n]) (dk_files k)"
      note keep = delete_failed_keeps [OF del f(2) ok]
      have "posted x (wk_world v')" if "holds_text x c" "x \<noteq> []" using delivered_posts [OF c(2) tv that] .
      then show ?thesis
        using f(3) pl' keep(1) keep(2) [of x] c(1) eqv by (auto simp: I_def failed_file_def)
    qed
  qed
  ultimately have "I (dk_files dk) u" using ReplayFailed_invariant [OF r(1), of I] by blast
  then have i: "same_place s u" "dumps_ok d dk" "arrived x s \<Longrightarrow> x \<noteq> [] \<Longrightarrow> stored x d dk \<or> posted x (wk_world u)"
    using eqv by (auto simp: I_def)
  show "target_inv s'" using i(1,2) assms(2) r(2) by (simp add: same_place_def target_inv_def)
  show "pending_recs s' = pending_recs s" "ch_Queue (wk_ch s') = ch_Queue (wk_ch s)"
    using i(1) r(2) by (simp_all add: same_place_def pending_recs_def split: option.splits)
  show "arrived x s \<Longrightarrow> x \<noteq> [] \<Longrightarrow> arrived x s'" using i r(2) assms(2) by (auto simp: arrived_def same_place_def)
qed

end
