(* ===== verification/System.thy ===== *)
theory System
  imports Target_Facts
begin

text \<open>
  The whole program as a state machine: requests, goroutines, timers, workers and the replay of
  dumps take turns. The states are those of the server; the invariant ties the journal, the
  goroutines, the tables, the queue and the dumps together.
\<close>

section \<open>What the handler decides\<close>

text \<open>
  The handler first decides what to do with a request and then does it. The decision depends on
  the request and the settings alone; \<open>handler_plan\<close> below shows that the handler is the two
  steps, one after the other.
\<close>

datatype plan = PReply http_reply | PText string string bool | POpaque string string string bool
  | PQuery string string

definition plan_body :: "http_request \<Rightarrow> string \<Rightarrow> string \<Rightarrow> 'q Server \<Rightarrow> plan" where
  "plan_body rq qs body sv =
     (let sync = wantsSyncInsert (sv_SyncInsert sv) (rq_sync rq); c = sv_Collector sv
      in if shouldOpaqueInsert (c_OpaqueInsert c) (c_BatchFormats c) (rq_ctype rq) qs body
         then (if body = [] \<and> queryFromParams qs = [] then PReply (string_reply 500 (''Empty insert'' @ [NL]))
               else POpaque qs body (outboundContentType (rq_ctype rq) (insertQueryString qs body)) sync)
         else (case ParseQuery qs body of (params, content, insrt) \<Rightarrow>
           (if insrt then
              (if content = [] then PReply (string_reply 500 (''Empty insert'' @ [NL]))
               else PText params content sync)
            else PQuery qs body)))"

definition plan_of :: "codecs \<Rightarrow> http_request \<Rightarrow> 'q Server \<Rightarrow> plan" where
  "plan_of cd rq sv = (case readRequestBody (rq_body rq) (sv_MaxRequestBytes sv) of
     Inl e \<Rightarrow> PReply (if e = ErrRequestTooLarge then string_reply 413 (''Request body too large'' @ [NL])
                     else string_reply 400 (''Request read failed'' @ [NL]))
   | Inr body \<Rightarrow>
       (let qs = auth_query (rq_auth rq) (rq_query rq)
        in if needsDecompression (rq_encoding rq) qs
           then (case decompressRequestBody cd body (rq_encoding rq) qs (sv_MaxRequestBytes sv) of
               Inl e \<Rightarrow> PReply (if e = ErrRequestTooLarge
                               then string_reply 413 (''Request body too large'' @ [NL])
                               else string_reply 400 (''Request decompression failed'' @ [NL]))
             | Inr (body, qs) \<Rightarrow> plan_body rq qs body sv)
           else plan_body rq qs body sv))"

text \<open>What a plan does: the append, and then the goroutine or the query that waits.\<close>

definition insert_by :: "'q queue_api \<Rightarrow> env \<Rightarrow> env \<Rightarrow> (journal \<Rightarrow> journal_dir \<Rightarrow> u64 jresult)
    \<Rightarrow> (u64 \<Rightarrow> spawned) \<Rightarrow> (u64 \<Rightarrow> ClickhouseRequest) \<Rightarrow> bool \<Rightarrow> 'q Server
    \<Rightarrow> (http_reply option \<times> 'q Server) option" where
  "insert_by Q E E' app g req sync sv = (case appendJournal app sv of
     (Inl e, sv) \<Rightarrow> Some (journalAppendError e, sv)
   | (Inr i, sv) \<Rightarrow>
       (if sync then map_option (\<lambda>(r, sv). (Some r, sv)) (syncSendInsert Q E E' (req i) sv)
        else Some (Some (string_reply 200 []), spawn (g i) sv)))"

definition query_request :: "string \<Rightarrow> string \<Rightarrow> ClickhouseRequest" where
  "query_request qs body = \<lparr>req_Params = qs, req_Query = [], req_Content = body, req_ContentType = [],
     req_Count = 0, req_JournalIDs = [], req_isInsert = False, req_opaque = False\<rparr>"

fun run_plan :: "'q queue_api \<Rightarrow> env \<Rightarrow> env \<Rightarrow> plan \<Rightarrow> 'q Server \<Rightarrow> (http_reply option \<times> 'q Server) option" where
  "run_plan Q E E' (PReply r) sv = Some (Some r, sv)"
| "run_plan Q E E' (PText p c sync) sv =
     insert_by Q E E' (Append p c) (SpawnPush p c) (buildSyncBatchedRequest p c) sync sv"
| "run_plan Q E E' (POpaque p c ct sync) sv =
     insert_by Q E E' (AppendOpaque p c ct) (SpawnOpaque p c ct) (buildSyncOpaqueRequest p c ct) sync sv"
| "run_plan Q E E' (PQuery qs body) sv =
     map_option (\<lambda>(q, t). (Some (writeProxiedQueryResponse (rp_status q) (rp_response q) (rp_headers q)),
                           sv\<lparr>sv_targets := t\<rparr>))
       (s_SendQuery (main_sender Q E E') (query_request qs body) (sv_targets sv))"

lemma handleBody_plan: "handleBody Q E E' rq qs body sv = run_plan Q E E' (plan_body rq qs body sv) sv"
  by (simp add: handleBody_def plan_body_def acceptOpaqueInsert_def acceptBatchedInsertSync_def insert_by_def
      query_request_def Let_def split: prod.split sum.split)

lemma handler_plan: "writeHandler cd Q E E' rq sv = run_plan Q E E' (plan_of cd rq sv) sv"
  by (simp add: writeHandler_def plan_of_def handleBody_plan Let_def split: sum.split prod.split)

fun plan_record :: "plan \<Rightarrow> journalRecord option" where
  "plan_record (PText p c sync) = Some (text_record 0 p c)"
| "plan_record (POpaque p c ct sync) = Some (opaque_record 0 p c ct)"
| "plan_record _ = None"

section \<open>The state of the whole program\<close>

abbreviation live :: "'q Server \<Rightarrow> 'q worker" where
  "live sv \<equiv> tg_live (sv_targets sv)"

definition sends :: "('q \<Rightarrow> ClickhouseRequest list) \<Rightarrow> 'q worker \<Rightarrow> ClickhouseRequest list" where
  "sends items s = items (ch_Queue (wk_ch s))"

fun spawned_id :: "spawned \<Rightarrow> u64" where
  "spawned_id (SpawnPush p c i) = i"
| "spawned_id (SpawnOpaque p c ct i) = i"

fun spawned_text :: "spawned \<Rightarrow> string" where
  "spawned_text (SpawnPush p c i) = c"
| "spawned_text (SpawnOpaque p c ct i) = c"

definition spawned_carries :: "u64 \<Rightarrow> string \<Rightarrow> spawned list \<Rightarrow> bool" where
  "spawned_carries i x gs = (\<forall>g \<in> set gs. spawned_id g = i \<longrightarrow> contains (spawned_text g) x)"

definition spawned_ids :: "spawned list \<Rightarrow> u64 multiset" where
  "spawned_ids gs = (\<Sum>g \<leftarrow> gs. mset (id_list (spawned_id g)))"

text \<open>
  The invariant: the journal, the dumps and the tables are in order, and every number that is on
  its way, in a goroutine, a table or a request, is one of the journal's, no number twice.
\<close>

definition moving :: "('q \<Rightarrow> ClickhouseRequest list) \<Rightarrow> 'q Server \<Rightarrow> u64 multiset" where
  "moving items sv = spawned_ids (sv_spawned sv) + (held_ids (sv_Collector sv) + request_ids (sends items (live sv)))"

definition system_inv :: "('q \<Rightarrow> ClickhouseRequest list) \<Rightarrow> 'q Server \<Rightarrow> bool" where
  "system_inv items sv = (target_inv (live sv) \<and> coll_ok (sv_Collector sv) \<and> sv_hasLive sv
     \<and> moving items sv \<subseteq># mset (pending_ids (live sv)))"

text \<open>
  The insert of the record \<open>k\<close> with the text \<open>x\<close>: the journal has the record and the text goes with
  its number, or the text has arrived in a dump or at ClickHouse.
\<close>

definition insert_safe :: "('q \<Rightarrow> ClickhouseRequest list) \<Rightarrow> journalRecord \<Rightarrow> string \<Rightarrow> 'q Server \<Rightarrow> bool" where
  "insert_safe items k x sv =
     (k \<in> set (pending_recs (live sv)) \<and> spawned_carries (rec_ID k) x (sv_spawned sv)
        \<and> on_its_way (rec_ID k) x (sv_Collector sv) (sends items (live sv))
      \<or> arrived x (live sv))"

section \<open>Steps\<close>

datatype sys_op = SysRequest http_request | SysSpawned nat nanos | SysTick string | SysFlushAll | SysClean
  | SysCleanTimer nanos | SysWorker | SysBackupWorker | SysReplay | SysBackupReplay | SysReplayFailed string string

definition replay_step :: "'q queue_api \<Rightarrow> env \<Rightarrow> 'q worker \<Rightarrow> 'q worker option" where
  "replay_step Q E s = (case wk_dumper s of
     None \<Rightarrow> Some s
   | Some d \<Rightarrow> (case ProcessNextDump (worker_sender Q E) d (wk_disk s) s of
       Some (res, d', dk', s') \<Rightarrow>
         (if res = Inl DPanic then None else Some (s'\<lparr>wk_dumper := Some d', wk_disk := dk'\<rparr>))
     | None \<Rightarrow> None))"

fun sys_step :: "codecs \<Rightarrow> 'q queue_api \<Rightarrow> env \<Rightarrow> env \<Rightarrow> sys_op \<Rightarrow> 'q Server \<Rightarrow> 'q Server option" where
  "sys_step cd Q E E' (SysRequest rq) sv = map_option snd (writeHandler cd Q E E' rq sv)"
| "sys_step cd Q E E' (SysSpawned i now) sv = runSpawned Q E E' now i sv"
| "sys_step cd Q E E' (SysTick k) sv =
     map_option (\<lambda>(c, t). sv\<lparr>sv_Collector := c, sv_targets := t\<rparr>)
       (tableTick (main_sender Q E E') k (sv_Collector sv) (sv_targets sv))"
| "sys_step cd Q E E' SysFlushAll sv =
     map_option (\<lambda>(n, c, t). sv\<lparr>sv_Collector := c, sv_targets := t\<rparr>)
       (FlushAll (main_sender Q E E') (sv_Collector sv) (sv_targets sv))"
| "sys_step cd Q E E' SysClean sv = Some (sv\<lparr>sv_Collector := tablesCleanHandler (sv_Collector sv)\<rparr>)"
| "sys_step cd Q E E' (SysCleanTimer now) sv = Some (sv\<lparr>sv_Collector := CleanTables now (sv_Collector sv)\<rparr>)"
| "sys_step cd Q E E' (SysReplayFailed target limit) sv = map_option snd (replayFailedHandler Q E E' target limit sv)"
| "sys_step cd Q E E' SysWorker sv = map_option (\<lambda>s. with_live (\<lambda>_. s) sv) (runStep Q E (live sv))"
| "sys_step cd Q E E' SysReplay sv = map_option (\<lambda>s. with_live (\<lambda>_. s) sv) (replay_step Q E (live sv))"
| "sys_step cd Q E E' SysBackupWorker sv = (case tg_backup (sv_targets sv) of
     None \<Rightarrow> Some sv
   | Some b \<Rightarrow> map_option (\<lambda>b. sv\<lparr>sv_targets := (sv_targets sv)\<lparr>tg_backup := Some b\<rparr>\<rparr>) (runStep Q E' b))"
| "sys_step cd Q E E' SysBackupReplay sv = (case tg_backup (sv_targets sv) of
     None \<Rightarrow> Some sv
   | Some b \<Rightarrow> map_option (\<lambda>b. sv\<lparr>sv_targets := (sv_targets sv)\<lparr>tg_backup := Some b\<rparr>\<rparr>) (replay_step Q E' b))"

text \<open>
  What a step asks for: the line of a record that is appended fits the scanner that reads the
  log, the numbers have not run out, and the requests in the queue can be read back from a dump.
\<close>

definition record_fits :: "journalRecord \<Rightarrow> 'q worker \<Rightarrow> bool" where
  "record_fits r s = (case wk_journal s of None \<Rightarrow> True
   | Some j \<Rightarrow> j_nextID j \<noteq> - 1 \<and> fits MaxScanTokenSize (marshal_line (r\<lparr>rec_ID := j_nextID j + 1\<rparr>)))"

fun sys_guard :: "codecs \<Rightarrow> ('q \<Rightarrow> ClickhouseRequest list) \<Rightarrow> sys_op \<Rightarrow> 'q Server \<Rightarrow> bool" where
  "sys_guard cd items (SysRequest rq) sv = (case plan_record (plan_of cd rq sv) of
     None \<Rightarrow> True | Some r \<Rightarrow> record_fits r (live sv))"
| "sys_guard cd items SysWorker sv = list_all dumpable (sends items (live sv))"
| "sys_guard cd items _ sv = True"

inductive sys_reach :: "codecs \<Rightarrow> 'q queue_api \<Rightarrow> env \<Rightarrow> env \<Rightarrow> ('q \<Rightarrow> ClickhouseRequest list)
    \<Rightarrow> 'q Server \<Rightarrow> 'q Server \<Rightarrow> bool"
  for cd Q E E' items s where
  here: "sys_reach cd Q E E' items s s"
| there: "sys_reach cd Q E E' items s t \<Longrightarrow> sys_guard cd items a t \<Longrightarrow> sys_step cd Q E E' a t = Some u
    \<Longrightarrow> sys_reach cd Q E E' items s u"

end
