(* ===== verification/System_Facts.thy ===== *)
theory System_Facts
  imports System
begin

text \<open>
  Every step of the program keeps the invariant and keeps every accepted insert safe: one lemma
  per kind of step, and the induction over the states that can be reached.
\<close>

section \<open>The collector's steps\<close>

text \<open>A target that differs from another in its queue alone.\<close>

definition requeued :: "'q worker \<Rightarrow> 'q worker \<Rightarrow> bool" where
  "requeued s s' = (\<exists>q n. s' = s\<lparr>wk_ch := (wk_ch s)\<lparr>ch_Queue := q, ch_wg := n\<rparr>\<rparr>)"

lemma requeued_target:
  assumes "requeued s s'"
  shows "target_inv s' = target_inv s" "pending_recs s' = pending_recs s" "arrived x s' = arrived x s"
  using assms by (auto simp: requeued_def target_inv_def pending_recs_def arrived_def urls_ok_def split: option.split)

lemma requeued_refl: "requeued s s"
  unfolding requeued_def by (intro exI [of _ "ch_Queue (wk_ch s)"] exI [of _ "ch_wg (wk_ch s)"]) simp

lemma requeued_Send: "requeued s s' \<Longrightarrow> requeued s (s_Send (worker_sender Q E) r s')"
proof -
  assume "requeued s s'"
  then obtain q n where s': "s' = s\<lparr>wk_ch := (wk_ch s)\<lparr>ch_Queue := q, ch_wg := n\<rparr>\<rparr>" by (auto simp: requeued_def)
  have "s_Send (worker_sender Q E) r s' = s\<lparr>wk_ch := (wk_ch s)\<lparr>ch_Queue := q_Put Q r q, ch_wg := n + 1\<rparr>\<rparr>"
    by (cases "wk_ch s") (simp add: s' worker_sender_def Send_def)
  then show ?thesis unfolding requeued_def by blast
qed

interpretation main: batch_queue "main_sender Q E E'"
  "\<lambda>t. fifo_api Q items \<and> requeued s (tg_live t)" "\<lambda>t. sends items (tg_live t)"
  for s
  by unfold_locales
    (auto simp: main_sender_def Let_def requeued_Send, auto simp: worker_sender_def Send_def sends_def fifo_api_def)

lemma spawned_ids_split: "i < length gs \<Longrightarrow>
  spawned_ids gs = spawned_ids (take i gs @ drop (Suc i) gs) + mset (id_list (spawned_id (gs ! i)))"
proof -
  assume i: "i < length gs"
  have "spawned_ids gs = spawned_ids (take i gs @ gs ! i # drop (Suc i) gs)"
    using id_take_nth_drop [OF i] by simp
  then show ?thesis by (simp add: spawned_ids_def ac_simps)
qed

lemma spawned_carries_split:
  "spawned_carries i x gs \<Longrightarrow> set hs \<subseteq> set gs \<Longrightarrow> spawned_carries i x hs"
  by (auto simp: spawned_carries_def)

text \<open>An operation of the collector that takes what it pushes from the goroutines.\<close>

lemma collector_keeps:
  assumes "fifo_api Q items" "system_inv items sv" "sv_spawned sv = gs"
    and "coll_step (main_sender Q E E') a (sv_Collector sv, sv_targets sv) = Some (c, t)"
    and "spawned_ids gs = spawned_ids hs + mset (cop_ids a)" "set hs \<subseteq> set gs"
    and "\<And>i x. i \<noteq> 0 \<Longrightarrow> spawned_carries i x gs \<Longrightarrow> cop_carries i x a"
    and "sv' = sv\<lparr>sv_spawned := hs, sv_Collector := c, sv_targets := t\<rparr>"
  shows "system_inv items sv'" "insert_safe items k x sv \<Longrightarrow> insert_safe items k x sv'"
proof -
  let ?t = "sv_targets sv"
  have ok: "coll_ok (sv_Collector sv)" "target_inv (live sv)" using assms(2) by (auto simp: system_inv_def)
  have fr: "fifo_api Q items \<and> requeued (live sv) (tg_live ?t)" using assms(1) requeued_refl by blast
  from main.coll_step_conserves [OF fr ok(1), of E E' a] assms(4)
  have st: "requeued (live sv) (tg_live t)" "coll_ok c"
    "held_ids c + request_ids (sends items (tg_live t)) =
     held_ids (sv_Collector sv) + request_ids (sends items (live sv)) + mset (cop_ids a)" by auto
  note same = requeued_target [OF st(1)]
  have "moving items sv' = moving items sv"
    using st(3) assms(3,5,8) by (simp add: moving_def ac_simps)
  then show "system_inv items sv'"
    using assms(2,8) st(2) same by (simp add: system_inv_def)
  assume s: "insert_safe items k x sv"
  show "insert_safe items k x sv'"
  proof (cases "arrived x (live sv)")
    case True
    with same(3) assms(8) show ?thesis by (simp add: insert_safe_def)
  next
    case False
    with s assms(3) have p: "k \<in> set (pending_recs (live sv))" "spawned_carries (rec_ID k) x gs"
      "on_its_way (rec_ID k) x (sv_Collector sv) (sends items (live sv))" by (auto simp: insert_safe_def)
    have "rec_ID k \<noteq> 0" using ok(2) p(1) pending_ids_known(3) [OF ok(2)] by (auto simp: target_inv_def)
    from main.coll_step_carries [OF fr ok(1) p(3) assms(7) [OF this p(2)] assms(4)] p same(2)
      spawned_carries_split [OF p(2) assms(6)] assms(8)
    show ?thesis by (simp add: insert_safe_def)
  qed
qed

section \<open>The worker's step\<close>

lemma submultiset_unacked:
  assumes "A + B \<subseteq># mset xs" "distinct xs"
  shows "A \<subseteq># mset (filter (\<lambda>i. i \<notin> set_mset B) xs)"
proof (rule mset_subset_eqI)
  fix y
  have le: "count A y + count B y \<le> count (mset xs) y" using mset_subset_eq_count [OF assms(1), of y] by simp
  have one: "count (mset xs) y \<le> 1" using assms(2) by (simp add: distinct_count_atmost_1)
  show "count A y \<le> count (mset (filter (\<lambda>i. i \<notin> set_mset B) xs)) y"
  proof (cases "y \<in># B")
    case True
    then have "1 \<le> count B y" by simp
    with le one show ?thesis by linarith
  next
    case False
    with le show ?thesis by (simp add: mset_filter)
  qed
qed

lemma submultiset_left: "A + B \<subseteq># (C :: 'a multiset) \<Longrightarrow> A \<subseteq># C"
  by (meson mset_subset_eq_add_left subset_mset.order_trans)

lemma worker_keeps:
  assumes "fifo_api Q items" "system_inv items sv" "list_all dumpable (sends items (live sv))"
    and "runStep Q E (live sv) = Some s"
  shows "system_inv items (with_live (\<lambda>_. s) sv)"
    "insert_safe items k x sv \<Longrightarrow> insert_safe items k x (with_live (\<lambda>_. s) sv)"
proof -
  have inv: "target_inv (live sv)" using assms(2) by (simp add: system_inv_def)
  then obtain j where j: "wk_journal (live sv) = Some j" by (auto simp: target_inv_def)
  have "system_inv items (with_live (\<lambda>_. s) sv)
    \<and> (insert_safe items k x sv \<longrightarrow> insert_safe items k x (with_live (\<lambda>_. s) sv))"
  proof (cases "sends items (live sv)")
    case Nil
    then have "s = live sv" using assms(1,4) by (auto simp: sends_def runStep_def fifo_api_def)
    with assms(2) show ?thesis
      by (simp add: with_live_def system_inv_def moving_def insert_safe_def)
  next
    case (Cons r rs)
    obtain q' where q': "items q' = rs" "runStep Q E (live sv) =
        map_option wg_Done (handleRequest E r ((live sv)\<lparr>wk_ch := (wk_ch (live sv))\<lparr>ch_Queue := q'\<rparr>\<rparr>))"
      using runStep_polled [OF assms(1), of "live sv" r rs] Cons by (auto simp: sends_def)
    let ?s = "(live sv)\<lparr>wk_ch := (wk_ch (live sv))\<lparr>ch_Queue := q'\<rparr>\<rparr>"
    have "requeued (live sv) ?s"
      unfolding requeued_def by (intro exI [of _ q'] exI [of _ "ch_wg (wk_ch (live sv))"]) simp
    note same = requeued_target [OF this]
    obtain s1 where s1: "handleRequest E r ?s = Some s1" "s = wg_Done s1"
      using assms(4) q'(2) by auto
    have rq: "requeued s1 s"
      unfolding requeued_def s1(2) wg_Done_def
      by (intro exI [of _ "ch_Queue (wk_ch s1)"] exI [of _ "ch_wg (wk_ch s1) - 1"]) simp
    note after = requeued_target [OF rq]
    let ?rest = "spawned_ids (sv_spawned sv) + (held_ids (sv_Collector sv) + request_ids rs)"
    have mv: "?rest + mset (req_JournalIDs r) \<subseteq># mset (pending_ids (live sv))"
      using assms(2) Cons by (simp add: system_inv_def moving_def request_ids_def ac_simps)
    then have ids: "set (req_JournalIDs r) \<subseteq> set (pending_ids ?s)"
      unfolding same(2) by (metis mset_subset_eqD mset_subset_eq_add_right set_mset_mset subsetI subset_mset.order_trans)
    have dp: "dumpable r" using assms(3) Cons by simp
    note h = handleRequest_target [OF s1(1) same(1) [THEN iffD2, OF inv] ids dp]
    have q1: "sends items s = rs"
      using h(3) q'(1) s1(2) by (simp add: sends_def wg_Done_def)
    have mv': "moving items (with_live (\<lambda>_. s) sv) = ?rest"
      using q1 by (simp add: moving_def with_live_def)
    have sub: "?rest \<subseteq># mset (pending_ids s1)"
      using h(4) [of x]
    proof (elim disjE conjE)
      assume "pending_recs s1 = filter (\<lambda>k. rec_ID k \<notin> set (req_JournalIDs r)) (pending_recs ?s)"
      with submultiset_unacked [OF mv pending_ids_known(1) [OF inv j]] same(2) show ?thesis
        by (simp add: filter_map comp_def)
    qed (use submultiset_left [OF mv] same(2) in simp)
    have "insert_safe items k x (with_live (\<lambda>_. s) sv)" if st: "insert_safe items k x sv"
    proof (cases "arrived x (live sv)")
      case True
      with h(2) [of x] same(3) after(3) show ?thesis by (simp add: insert_safe_def with_live_def)
    next
      case False
      with st Cons have p: "k \<in> set (pending_recs (live sv))" "spawned_carries (rec_ID k) x (sv_spawned sv)"
        "on_its_way (rec_ID k) x (sv_Collector sv) (r # rs)" by (auto simp: insert_safe_def)
      have ar: "arrived x s1" if "k \<notin> set (pending_recs s1)"
        using h(4) [of x] that p(1,3) same(2) by (auto simp: on_its_way_def carries_def)
      show ?thesis
        using ar p q1 after(2,3) by (cases "k \<in> set (pending_recs s1)")
          (auto simp: insert_safe_def with_live_def on_its_way_def)
    qed
    moreover have "system_inv items (with_live (\<lambda>_. s) sv)"
      using assms(2) h(1) after(1,2) sub mv' by (simp add: system_inv_def with_live_def)
    ultimately show ?thesis by blast
  qed
  then show "system_inv items (with_live (\<lambda>_. s) sv)"
    "insert_safe items k x sv \<Longrightarrow> insert_safe items k x (with_live (\<lambda>_. s) sv)" by blast+
qed

section \<open>The replay's step\<close>

lemma system_live:
  assumes "system_inv items sv" "target_inv s" "pending_recs s = pending_recs (live sv)"
    "ch_Queue (wk_ch s) = ch_Queue (wk_ch (live sv))" "arrived x (live sv) \<Longrightarrow> arrived x s"
  shows "system_inv items (with_live (\<lambda>_. s) sv)"
    "insert_safe items k x sv \<Longrightarrow> insert_safe items k x (with_live (\<lambda>_. s) sv)"
  using assms by (auto simp: system_inv_def insert_safe_def moving_def with_live_def sends_def)

lemma replay_step_keeps:
  assumes "system_inv items sv" "replay_step Q E (live sv) = Some s" "x \<noteq> []"
  shows "system_inv items (with_live (\<lambda>_. s) sv)"
    "insert_safe items k x sv \<Longrightarrow> insert_safe items k x (with_live (\<lambda>_. s) sv)"
proof -
  have inv: "target_inv (live sv)" using assms(1) by (simp add: system_inv_def)
  then obtain d where d: "wk_dumper (live sv) = Some d" by (auto simp: target_inv_def)
  obtain res d' dk' s' where p: "ProcessNextDump (worker_sender Q E) d (wk_disk (live sv)) (live sv) = Some (res, d', dk', s')"
    "s = s'\<lparr>wk_dumper := Some d', wk_disk := dk'\<rparr>"
    using assms(2) d by (auto simp: replay_step_def split: option.splits if_splits)
  note t = replay_target [OF p(1) d inv]
  show "system_inv items (with_live (\<lambda>_. s) sv)"
    "insert_safe items k x sv \<Longrightarrow> insert_safe items k x (with_live (\<lambda>_. s) sv)"
    using system_live [OF assms(1), of s x] t assms(3) p(2) by simp_all
qed

section \<open>The manual replay and the cleaning timer\<close>

lemma with_live_same: "with_live f sv = with_live (\<lambda>_. f (live sv)) sv"
  by (simp add: with_live_def)

lemma live_with_live [simp]: "live (with_live f sv) = f (live sv)"
  by (simp add: with_live_def)

lemma replayLive_keeps:
  assumes "system_inv items sv" "replayLive Q E limit sv = Some (rep, sv')" "x \<noteq> []"
  shows "system_inv items sv'" "insert_safe items k x sv \<Longrightarrow> insert_safe items k x sv'"
proof -
  have inv: "target_inv (live sv)" "sv_hasLive sv" using assms(1) by (simp_all add: system_inv_def)
  then obtain d where d: "wk_dumper (live sv) = Some d" by (auto simp: target_inv_def)
  with inv(2) have "replayable_live sv = Some d" by (simp add: replayable_live_def)
  with assms(2) obtain rp s where r: "replayFailedTarget Q E limit d (live sv) = Some (rp, s)" "sv' = with_live (\<lambda>_. s) sv"
    by (auto simp: replayLive_def)
  note t = replayFailedTarget_target [OF r(1) d inv(1)]
  show "system_inv items sv'" "insert_safe items k x sv \<Longrightarrow> insert_safe items k x sv'"
    using system_live [OF assms(1), of s x] t assms(3) r(2) by simp_all
qed

lemma backup_keeps:
  "system_inv items sv \<Longrightarrow> system_inv items (with_backup b sv)"
  "insert_safe items k x sv \<Longrightarrow> insert_safe items k x (with_backup b sv)"
  by (simp_all add: with_backup_def system_inv_def insert_safe_def moving_def)

lemma replayBackup_keeps:
  assumes "replayBackup Q E limit sv = Some (rep, sv')" "system_inv items sv"
  shows "system_inv items sv'" "insert_safe items k x sv \<Longrightarrow> insert_safe items k x sv'"
  using assms backup_keeps [where items = items] by (auto simp: replayBackup_def split: option.splits)

lemma replayFailedHandler_cases:
  assumes "replayFailedHandler Q E E' target limit sv = Some (rep, sv')"
  obtains "sv' = sv"
    | l r where "replayLive Q E l sv = Some (r, sv')"
    | l r where "replayBackup Q E' l sv = Some (r, sv')"
    | l r r' sv1 where "replayLive Q E l sv = Some (r, sv1)" "replayBackup Q E' l sv1 = Some (r', sv')"
proof (cases "replay_limit limit")
  case None
  with assms that(1) show ?thesis by (simp add: replayFailedHandler_def)
next
  case (Some l)
  show ?thesis
  proof (cases "target = ''all''")
    case True
    with assms Some obtain r sv1 r' where "replayLive Q E l sv = Some (r, sv1)" "replayBackup Q E' l sv1 = Some (r', sv')"
      by (auto simp: replayFailedHandler_def split: option.splits)
    then show ?thesis by (rule that(4))
  next
    case False
    with assms Some that(1-3) show ?thesis
      by (auto simp: replayFailedHandler_def Let_def split: if_splits)
  qed
qed

lemma replayFailedHandler_keeps:
  assumes "replayFailedHandler Q E E' target limit sv = Some (rep, sv')" "system_inv items sv" "x \<noteq> []"
  shows "system_inv items sv' \<and> (insert_safe items k x sv \<longrightarrow> insert_safe items k x sv')"
  using assms(1)
proof (cases rule: replayFailedHandler_cases)
  case 1
  with assms(2) show ?thesis by simp
next
  case (2 l r)
  with replayLive_keeps [OF assms(2) 2 assms(3)] show ?thesis by blast
next
  case (3 l r)
  with replayBackup_keeps [OF 3 assms(2)] show ?thesis by blast
next
  case (4 l r r' sv1)
  note l = replayLive_keeps [OF assms(2) 4(1) assms(3)]
  from l replayBackup_keeps [OF 4(2) l(1)] show ?thesis by blast
qed

lemma cleaning_keeps:
  assumes "system_inv items sv"
  shows "system_inv items (sv\<lparr>sv_Collector := CleanTables now (sv_Collector sv)\<rparr>)"
    "insert_safe items k x sv \<Longrightarrow> insert_safe items k x (sv\<lparr>sv_Collector := CleanTables now (sv_Collector sv)\<rparr>)"
proof -
  have sub: "held_ids (CleanTables now (sv_Collector sv)) \<subseteq># held_ids (sv_Collector sv)"
  proof -
    have "sum_list (map f (filter P ts)) \<subseteq># sum_list (map f ts)" for f :: "string \<times> Table \<Rightarrow> u64 multiset" and P ts
      by (induction ts) (auto intro: subset_mset.add_mono subset_mset.add_increasing)
    then show ?thesis by (simp add: held_ids_def CleanTables_def)
  qed
  then have "moving items (sv\<lparr>sv_Collector := CleanTables now (sv_Collector sv)\<rparr>) \<subseteq># moving items sv"
    by (simp add: moving_def)
  then show "system_inv items (sv\<lparr>sv_Collector := CleanTables now (sv_Collector sv)\<rparr>)"
    using assms filter_coll_ok by (auto simp: system_inv_def CleanTables_def intro: subset_mset.order_trans)
  show "insert_safe items k x sv \<Longrightarrow> insert_safe items k x (sv\<lparr>sv_Collector := CleanTables now (sv_Collector sv)\<rparr>)"
    by (auto simp: insert_safe_def on_its_way_def CleanTables_def)
qed

section \<open>The handler's step\<close>

lemma appendJournal_effect:
  assumes "appendJournal (appendRecord r) sv = (res, sv')" "system_inv items sv" "record_fits r (live sv)"
  obtains s where "sv' = with_live (\<lambda>_. s) sv" "target_inv s" "wk_ch s = wk_ch (live sv)" "\<And>x. arrived x s = arrived x (live sv)"
    "pending_recs s = pending_recs (live sv) @ (case res of Inl _ \<Rightarrow> [] | Inr i \<Rightarrow> [json_reread (r\<lparr>rec_ID := i\<rparr>)])"
    "\<And>i. res = Inr i \<Longrightarrow> 0 < i \<and> i \<notin> set (pending_ids (live sv))"
proof -
  have inv: "target_inv (live sv)" using assms(2) by (simp add: system_inv_def)
  then obtain j where j: "wk_journal (live sv) = Some j" by (auto simp: target_inv_def)
  obtain j' d' where a: "appendRecord r j (wk_jdir (live sv)) = (res, j', d')"
    "sv' = with_live (\<lambda>s. s\<lparr>wk_journal := Some j', wk_jdir := d'\<rparr>) sv"
    using assms(1) j by (auto simp: appendJournal_def split: prod.splits)
  note t = append_target [OF inv j a(1)]
  show ?thesis
    by (rule that [of "(live sv)\<lparr>wk_journal := Some j', wk_jdir := d'\<rparr>"])
      (use a(2) t assms(3) j in \<open>simp_all add: record_fits_def with_live_def\<close>)
qed

text \<open>A synchronous insert: the journal ends as it was before the append.\<close>

definition live_after :: "'q Server \<Rightarrow> 'q worker \<Rightarrow> 'q Server \<Rightarrow> bool" where
  "live_after sv s sv' = (\<exists>t. sv' = sv\<lparr>sv_targets := t\<rparr> \<and> tg_live t = s)"

lemma syncSendInsert_effect:
  assumes "syncSendInsert Q E E' req sv = Some (rep, sv')" "sv_hasLive sv" "target_inv (live sv)"
    "set (req_JournalIDs req) \<subseteq> set (pending_ids (live sv))"
  obtains s where "live_after sv s sv'" "target_inv s" "ch_Queue (wk_ch s) = ch_Queue (wk_ch (live sv))"
    "\<And>x. arrived x (live sv) \<Longrightarrow> arrived x s"
    "pending_recs s = filter (\<lambda>k. rec_ID k \<notin> set (req_JournalIDs req)) (pending_recs (live sv))"
proof -
  obtain q c w where q: "SendQuery E req (wk_ch (live sv)) (wk_world (live sv)) = Some (q, c, w)"
    using assms(1,2) by (auto simp: syncSendInsert_def worker_sender_def split: option.splits)
  let ?s1 = "(live sv)\<lparr>wk_ch := c, wk_world := w\<rparr>"
  note t = query_target [OF q assms(3)]
  show ?thesis
  proof (cases "rp_err q")
    case None
    have ids: "set (req_JournalIDs req) \<subseteq> set (pending_ids ?s1)" using t(2) assms(4) by simp
    note a = ack_target [OF t(1) ids]
    show ?thesis
      by (rule that [of "ackJournal E (req_JournalIDs req) ?s1"])
        (use assms(1,2) q None a t in \<open>auto simp: syncSendInsert_def worker_sender_def finishSyncInsert_def Let_def
          live_after_def with_live_def split: if_splits\<close>)
  next
    case (Some e)
    then have st: "400 \<le> rp_status q" using t(5) by simp
    let ?resp = "rp_response q"
    obtain res s2 where d: "ch_Dump (req_Params req) (req_Content req) ?resp (dump_kind (rp_status q)) (rp_status q) ?s1 = (res, s2)"
      by (metis surj_pair)
    note dt = dump_target [OF d t(1) st]
    have ids: "set (req_JournalIDs req) \<subseteq> set (pending_ids s2)" using t(2) dt(2) assms(4) by simp
    note a = ack_target [OF dt(1) ids]
    show ?thesis
      by (rule that [of "ackJournal E (req_JournalIDs req) s2"])
        (use assms(1,2) q Some st d a dt t in \<open>auto simp: syncSendInsert_def worker_sender_def finishSyncInsert_def Let_def
          live_after_def with_live_def split: if_splits\<close>)
  qed
qed

lemma sync_ids: "req_JournalIDs (buildSyncBatchedRequest p b i) = id_list i"
  "req_JournalIDs (buildSyncOpaqueRequest p b ct i) = id_list i"
  by (simp_all add: buildSyncBatchedRequest_def buildSyncOpaqueRequest_def id_list_def split: prod.split)

lemma spawned_snoc [simp]: "spawned_ids (gs @ [g]) = spawned_ids gs + mset (id_list (spawned_id g))"
  "spawned_carries i x (gs @ [g]) = (spawned_carries i x gs \<and> (spawned_id g = i \<longrightarrow> contains (spawned_text g) x))"
  by (auto simp: spawned_ids_def spawned_carries_def)

lemma insert_by_keeps:
  assumes "insert_by Q E E' (appendRecord r) g req sync sv = Some (rep, sv')" "system_inv items sv" "record_fits r (live sv)"
    and "\<And>i. req_JournalIDs (req i) = id_list i" "\<And>i. spawned_id (g i) = i"
  shows "system_inv items sv'" "insert_safe items k x sv \<Longrightarrow> insert_safe items k x sv'"
    "sv_spawned sv' = sv_spawned sv @ [h] \<Longrightarrow> insert_safe items (json_reread (r\<lparr>rec_ID := spawned_id h\<rparr>)) (spawned_text h) sv'"
proof -
  obtain res sv1 where a: "appendJournal (appendRecord r) sv = (res, sv1)" by (metis surj_pair)
  obtain s where s: "sv1 = with_live (\<lambda>_. s) sv" "target_inv s" "wk_ch s = wk_ch (live sv)" "\<And>x. arrived x s = arrived x (live sv)"
    "pending_recs s = pending_recs (live sv) @ (case res of Inl _ \<Rightarrow> [] | Inr i \<Rightarrow> [json_reread (r\<lparr>rec_ID := i\<rparr>)])"
    "\<And>i. res = Inr i \<Longrightarrow> 0 < i \<and> i \<notin> set (pending_ids (live sv))"
    using appendJournal_effect [OF a assms(2,3)] by metis
  have hl: "sv_hasLive sv1" "coll_ok (sv_Collector sv)" and tv: "target_inv (live sv)"
    and mv: "moving items sv \<subseteq># mset (pending_ids (live sv))"
    using assms(2) s(1) by (auto simp: system_inv_def with_live_def)
  have "system_inv items sv' \<and> (insert_safe items k x sv \<longrightarrow> insert_safe items k x sv')
    \<and> (sv_spawned sv' = sv_spawned sv @ [h] \<longrightarrow> insert_safe items (json_reread (r\<lparr>rec_ID := spawned_id h\<rparr>)) (spawned_text h) sv')"
  proof (cases res)
    case (Inl e)
    then have "sv' = sv1" using assms(1) a by (simp add: insert_by_def)
    with Inl s system_live [OF assms(2) s(2)] show ?thesis by (simp add: with_live_def)
  next
    case (Inr n)
    note n = s(6) [OF Inr]
    show ?thesis
    proof (cases sync)
      case False
      then have sv': "sv' = spawn (g n) sv1" using assms(1) a Inr by (simp add: insert_by_def)
      have e: "sv_spawned sv' = sv_spawned sv @ [g n]" "live sv' = s" "sv_Collector sv' = sv_Collector sv" "sv_hasLive sv'"
        using sv' s(1) hl(1) by (simp_all add: spawn_def with_live_def)
      have "moving items sv' = moving items sv + {#n#}"
        using e s(3) n assms(5) by (simp add: moving_def sends_def id_list_def)
      then have inv: "system_inv items sv'"
        using mv s(2,5) Inr e hl(2) by (simp add: system_inv_def)
      have "insert_safe items k x sv'" if "insert_safe items k x sv"
        using that n e s(3-5) Inr assms(5) by (auto simp: insert_safe_def sends_def)
      moreover have "insert_safe items (json_reread (r\<lparr>rec_ID := n\<rparr>)) (spawned_text (g n)) sv'"
      proof -
        have nm: "n \<notin># moving items sv" using mv n by (metis mset_subset_eqD set_mset_mset)
        then have "n \<notin># spawned_ids (sv_spawned sv)" "n \<notin># held_ids (sv_Collector sv)"
          "n \<notin># request_ids (sends items (live sv))" by (simp_all add: moving_def)
        then have "spawned_carries n y (sv_spawned sv)" "on_its_way n y (sv_Collector sv) (sends items (live sv))" for y
          using n by (auto simp: spawned_carries_def spawned_ids_def on_its_way_def carries_def held_ids_def request_ids_def
              table_request_def id_list_def split: if_splits)
        then show ?thesis
          using e s(3,5) Inr assms(5) by (simp add: insert_safe_def sends_def)
      qed
      ultimately show ?thesis using inv e(1) assms(5) by auto
    next
      case True
      then obtain rp where sy: "syncSendInsert Q E E' (req n) sv1 = Some (rp, sv')"
        using assms(1) a Inr by (auto simp: insert_by_def)
      have idn: "req_JournalIDs (req n) = [n]" using assms(4) n by (simp add: id_list_def)
      have t1: "target_inv (live sv1)" and ids: "set (req_JournalIDs (req n)) \<subseteq> set (pending_ids (live sv1))"
        using s(1,2,5) Inr idn by simp_all
      obtain s' where s': "live_after sv1 s' sv'" "target_inv s'" "ch_Queue (wk_ch s') = ch_Queue (wk_ch (live sv1))"
        "\<And>x. arrived x (live sv1) \<Longrightarrow> arrived x s'"
        "pending_recs s' = filter (\<lambda>k. rec_ID k \<notin> set (req_JournalIDs (req n))) (pending_recs (live sv1))"
        by (rule syncSendInsert_effect [OF sy hl(1) t1 ids]) (rule that)
      have p: "pending_recs s' = pending_recs (live sv)"
      proof -
        have "filter (\<lambda>k. rec_ID k \<noteq> n) (pending_recs (live sv)) = pending_recs (live sv)"
          using n by (auto simp: filter_id_conv)
        then show ?thesis using s'(5) s(1,5) Inr idn by (simp add: json_reread_def)
      qed
      have q: "ch_Queue (wk_ch s') = ch_Queue (wk_ch (live sv))" using s'(3) s(1,3) by simp
      have ar: "arrived x (live sv) \<Longrightarrow> arrived x s'" using s'(4) s(1,4) by simp
      note l = system_live [OF assms(2) s'(2) p q ar]
      obtain t where b: "sv' = sv\<lparr>sv_targets := t\<rparr>" "tg_live t = s'"
        using s'(1) s(1) by (auto simp: live_after_def with_live_def)
      from l b show ?thesis
        by (auto simp: system_inv_def insert_safe_def moving_def with_live_def)
    qed
  qed
  then show "system_inv items sv'" "insert_safe items k x sv \<Longrightarrow> insert_safe items k x sv'"
    "sv_spawned sv' = sv_spawned sv @ [h] \<Longrightarrow> insert_safe items (json_reread (r\<lparr>rec_ID := spawned_id h\<rparr>)) (spawned_text h) sv'" by blast+
qed

lemma insert_by_reply:
  assumes "insert_by Q E E' app g req sync sv = Some (rep, sv')"
  shows "sv_spawned sv' = sv_spawned sv @ [h] \<Longrightarrow> rep = Some (string_reply 200 [])"
proof -
  obtain res sv1 where a: "appendJournal app sv = (res, sv1)" by (metis surj_pair)
  have s1: "sv_spawned sv1 = sv_spawned sv"
    using a by (auto simp: appendJournal_def with_live_def Let_def split: option.splits prod.splits)
  have "sv_spawned sv2 = sv_spawned sv1" if "syncSendInsert Q E E' r sv1 = Some (x, sv2)" for r x sv2
    using that by (auto simp: syncSendInsert_def finishSyncInsert_def with_live_def Let_def
        split: option.splits if_splits prod.splits)
  then show "sv_spawned sv' = sv_spawned sv @ [h] \<Longrightarrow> rep = Some (string_reply 200 [])"
    using assms a s1 by (auto simp: insert_by_def split: sum.splits if_splits)
qed

section \<open>Every step keeps what was accepted\<close>

lemma plan_keeps:
  assumes "run_plan Q E E' p sv = Some (rep, sv')" "system_inv items sv"
    and "case plan_record p of None \<Rightarrow> True | Some r \<Rightarrow> record_fits r (live sv)"
  shows "system_inv items sv'" "insert_safe items k x sv \<Longrightarrow> insert_safe items k x sv'"
    "sv_spawned sv' = sv_spawned sv @ [h] \<Longrightarrow>
     \<exists>r. plan_record p = Some r \<and> rep = Some (string_reply 200 [])
       \<and> insert_safe items (json_reread (r\<lparr>rec_ID := spawned_id h\<rparr>)) (spawned_text h) sv'"
proof -
  have "system_inv items sv' \<and> (insert_safe items k x sv \<longrightarrow> insert_safe items k x sv')
    \<and> (sv_spawned sv' = sv_spawned sv @ [h] \<longrightarrow>
     (\<exists>r. plan_record p = Some r \<and> rep = Some (string_reply 200 [])
       \<and> insert_safe items (json_reread (r\<lparr>rec_ID := spawned_id h\<rparr>)) (spawned_text h) sv'))"
  proof (cases p)
    case (PReply r)
    with assms show ?thesis by auto
  next
    case (PText p' c sync)
    have i: "insert_by Q E E' (appendRecord (text_record 0 p' c)) (SpawnPush p' c) (buildSyncBatchedRequest p' c) sync sv = Some (rep, sv')"
      using assms(1) PText by (simp add: Append_text)
    note r = insert_by_reply [OF i]
    from insert_by_keeps [OF i assms(2)] r assms(3) PText sync_ids show ?thesis by simp
  next
    case (POpaque p' c ct sync)
    have i: "insert_by Q E E' (appendRecord (opaque_record 0 p' c ct)) (SpawnOpaque p' c ct) (buildSyncOpaqueRequest p' c ct) sync sv
        = Some (rep, sv')"
      using assms(1) POpaque by (simp add: AppendOpaque_record)
    note r = insert_by_reply [OF i]
    from insert_by_keeps [OF i assms(2)] r assms(3) POpaque sync_ids show ?thesis by simp
  next
    case (PQuery qs body)
    have inv: "target_inv (live sv)" using assms(2) by (simp add: system_inv_def)
    obtain q c w where q: "SendQuery E (query_request qs body) (wk_ch (live sv)) (wk_world (live sv)) = Some (q, c, w)"
      "sv' = with_live (\<lambda>_. (live sv)\<lparr>wk_ch := c, wk_world := w\<rparr>) sv"
      using assms(1) PQuery by (auto simp: main_sender_def worker_sender_def Let_def with_live_def)
    note t = query_target [OF q(1) inv]
    have "ch_Queue (wk_ch ((live sv)\<lparr>wk_ch := c, wk_world := w\<rparr>)) = ch_Queue (wk_ch (live sv))" using t(6) by simp
    from system_live [OF assms(2) t(1,2) this t(3)] q(2) show ?thesis by (simp add: with_live_def)
  qed
  then show "system_inv items sv'" "insert_safe items k x sv \<Longrightarrow> insert_safe items k x sv'"
    "sv_spawned sv' = sv_spawned sv @ [h] \<Longrightarrow>
     \<exists>r. plan_record p = Some r \<and> rep = Some (string_reply 200 [])
       \<and> insert_safe items (json_reread (r\<lparr>rec_ID := spawned_id h\<rparr>)) (spawned_text h) sv'" by blast+
qed

lemma sys_step_keeps:
  assumes "fifo_api Q items" "system_inv items sv" "sys_guard cd items a sv" "sys_step cd Q E E' a sv = Some sv'" "x \<noteq> []"
  shows "system_inv items sv'" "insert_safe items k x sv \<Longrightarrow> insert_safe items k x sv'"
proof -
  have "system_inv items sv' \<and> (insert_safe items k x sv \<longrightarrow> insert_safe items k x sv')"
  proof (cases a)
    case (SysRequest rq)
    with assms(4) obtain rep where "run_plan Q E E' (plan_of cd rq sv) sv = Some (rep, sv')" by (auto simp: handler_plan)
    from plan_keeps [OF this assms(2)] assms(3) SysRequest show ?thesis by simp
  next
    case (SysSpawned n now)
    show ?thesis
    proof (cases "n < length (sv_spawned sv)")
      case False
      with assms(2,4) SysSpawned show ?thesis by (simp add: runSpawned_def)
    next
      case True
      let ?g = "sv_spawned sv ! n" and ?hs = "take n (sv_spawned sv) @ drop (Suc n) (sv_spawned sv)"
      have d: "drop n (sv_spawned sv) = ?g # drop (Suc n) (sv_spawned sv)" using True by (simp add: Cons_nth_drop_Suc)
      define b where "b = (case ?g of SpawnPush p t i \<Rightarrow> CPush now p t i | SpawnOpaque p t ct i \<Rightarrow> COpaque p t ct i)"
      obtain c t where st: "coll_step (main_sender Q E E') b (sv_Collector sv, sv_targets sv) = Some (c, t)"
        "sv' = sv\<lparr>sv_spawned := ?hs, sv_Collector := c, sv_targets := t\<rparr>"
        using assms(4) SysSpawned d by (cases ?g) (auto simp: runSpawned_def b_def Let_def)
      have ids: "spawned_ids (sv_spawned sv) = spawned_ids ?hs + mset (cop_ids b)"
        using spawned_ids_split [OF True] by (cases ?g) (simp_all add: b_def)
      have gin: "?g \<in> set (sv_spawned sv)" using True by simp
      have car: "cop_carries i x b" if "spawned_carries i x (sv_spawned sv)" for i x
      proof -
        have "spawned_id ?g = i \<longrightarrow> contains (spawned_text ?g) x" using that gin by (auto simp: spawned_carries_def)
        then show ?thesis by (cases ?g) (simp_all add: b_def)
      qed
      have "set ?hs \<subseteq> set (sv_spawned sv)" by (auto dest: in_set_takeD in_set_dropD)
      from collector_keeps [OF assms(1,2) refl st(1) ids this car st(2)] show ?thesis by simp
    qed
  next
    case (SysTick n)
    then obtain c t where st: "coll_step (main_sender Q E E') (CTick n) (sv_Collector sv, sv_targets sv) = Some (c, t)"
      "sv' = sv\<lparr>sv_spawned := sv_spawned sv, sv_Collector := c, sv_targets := t\<rparr>" using assms(4) by auto
    from collector_keeps [OF assms(1,2) refl st(1) _ _ _ st(2)] show ?thesis by simp
  next
    case SysFlushAll
    then obtain c t where st: "coll_step (main_sender Q E E') CFlushAll (sv_Collector sv, sv_targets sv) = Some (c, t)"
      "sv' = sv\<lparr>sv_spawned := sv_spawned sv, sv_Collector := c, sv_targets := t\<rparr>" using assms(4) by auto
    from collector_keeps [OF assms(1,2) refl st(1) _ _ _ st(2)] show ?thesis by simp
  next
    case SysClean
    then have st: "coll_step (main_sender Q E E') CCleanEmpty (sv_Collector sv, sv_targets sv)
        = Some (tablesCleanHandler (sv_Collector sv), sv_targets sv)"
      "sv' = sv\<lparr>sv_spawned := sv_spawned sv, sv_Collector := tablesCleanHandler (sv_Collector sv), sv_targets := sv_targets sv\<rparr>"
      using assms(4) by auto
    from collector_keeps [OF assms(1,2) refl st(1) _ _ _ st(2)] show ?thesis by simp
  next
    case SysWorker
    then obtain s where s: "runStep Q E (live sv) = Some s" "sv' = with_live (\<lambda>_. s) sv" using assms(4) by auto
    from worker_keeps [OF assms(1,2) _ s(1)] assms(3) SysWorker s(2) show ?thesis by simp
  next
    case SysReplay
    then obtain s where s: "replay_step Q E (live sv) = Some s" "sv' = with_live (\<lambda>_. s) sv" using assms(4) by auto
    from replay_step_keeps [OF assms(2) s(1) assms(5)] s(2) show ?thesis by simp
  next
    case (SysCleanTimer now)
    with cleaning_keeps [OF assms(2)] assms(4) show ?thesis by auto
  next
    case (SysReplayFailed target limit)
    with assms(4) obtain rep where "replayFailedHandler Q E E' target limit sv = Some (rep, sv')" by auto
    from replayFailedHandler_keeps [OF this assms(2,5)] show ?thesis by simp
  next
    case SysBackupWorker
    with assms(2,4) show ?thesis
      by (auto simp: system_inv_def insert_safe_def moving_def split: option.splits)
  next
    case SysBackupReplay
    with assms(2,4) show ?thesis
      by (auto simp: system_inv_def insert_safe_def moving_def split: option.splits)
  qed
  then show "system_inv items sv'" "insert_safe items k x sv \<Longrightarrow> insert_safe items k x sv'" by blast+
qed

lemma sys_reach_keeps:
  assumes "sys_reach cd Q E E' items sv sv'" "fifo_api Q items" "system_inv items sv" "x \<noteq> []" "insert_safe items k x sv"
  shows "system_inv items sv' \<and> insert_safe items k x sv'"
  using assms
proof (induction rule: sys_reach.induct)
  case here
  then show ?case by simp
next
  case (there t a u)
  then have "system_inv items t" "insert_safe items k x t" by blast+
  with sys_step_keeps [OF there.prems(1) _ there.hyps(2,3) there.prems(3)] show ?case by blast
qed

text \<open>A record that is pending is handed back by the process that starts after a crash.\<close>

definition replayed_after_crash :: "journalRecord \<Rightarrow> 'q worker \<Rightarrow> bool" where
  "replayed_after_crash k s = (\<exists>j. wk_journal s = Some j \<and>
     (\<forall>now. case reopen now (j, wk_jdir s) of (j', d') \<Rightarrow> k \<in> set (fst (ReplayUnacked j' d'))))"

lemma pending_replayed:
  assumes "target_inv s" "k \<in> set (pending_recs s)"
  shows "replayed_after_crash k s"
proof -
  obtain j where j: "wk_journal s = Some j" "log_inv (j, wk_jdir s)" using assms(1) by (auto simp: target_inv_def)
  have "k \<in> set (fst (ReplayUnacked j' d'))" if "reopen now (j, wk_jdir s) = (j', d')" for now j' d'
    using reopen_inv [OF j(2), of now j] that replay_is_pending [of j' d'] assms(2) j(1)
    by (simp add: pending_recs_def del: reopen.simps)
  then show ?thesis unfolding replayed_after_crash_def by (intro exI [of _ j]) (auto simp: j(1) simp del: reopen.simps)
qed

lemma insert_safeD:
  "insert_safe items k x sv \<Longrightarrow> system_inv items sv \<Longrightarrow> replayed_after_crash k (live sv) \<or> arrived x (live sv)"
  unfolding insert_safe_def system_inv_def using pending_replayed by blast

end
