(* ===== verification/Server_Props.thy ===== *)
theory Server_Props
  imports System_Facts Collector_Props Decompress_Props
begin

text \<open>
  The properties of the HTTP handlers, with a program to try them on: the limits on requests,
  what the answers to inserts mean, and the inserts that wait for ClickHouse.
\<close>

section \<open>A program to try the properties on\<close>

definition demo_live :: "ClickhouseRequest list worker" where
  "demo_live = \<lparr>wk_ch = (demo_ch [''b''])\<lparr>ch_Queue := []\<rparr>, wk_world = demo_world, wk_dumper = Some demo_dumper,
     wk_disk = demo_disk [] [], wk_journal = Some (fst demo), wk_jdir = snd demo\<rparr>"

definition demo_server :: "ClickhouseRequest list Server" where
  "demo_server = \<lparr>sv_Collector = demo_coll, sv_targets = \<lparr>tg_live = demo_live, tg_backup = None\<rparr>,
     sv_hasLive = True, sv_hasBackup = False, sv_BackupOn = False, sv_MaxRequestBytes = 0,
     sv_SyncInsert = False, sv_spawned = []\<rparr>"

definition demo_insert :: http_request where
  "demo_insert = \<lparr>rq_body = whole (''insert into t values'' @ NL # ''(1)''), rq_query = [], rq_auth = None,
     rq_encoding = [], rq_ctype = [], rq_sync = []\<rparr>"

definition demo_params :: string where
  "demo_params = ''query=insert+into+t+values''"

lemma demo_plan: "plan_of cd demo_insert demo_server = PText demo_params ''(1)'' False"
  by code_simp

lemma demo_dumps_ok: "dumps_ok demo_dumper (demo_disk [] faults)"
  by (simp add: dumps_ok_def demo_dumper_def demo_disk_def pending_file_def failed_file_def is_digit_char_def)

lemma demo_server_inv: "system_inv (\<lambda>q. q) demo_server"
proof -
  have "journal_inv (fst demo) (snd demo) \<and> quiet (snd demo)" using demo_inv unfolding demo_def by simp
  moreover have "urls_ok (wk_ch demo_live)"
    by (simp add: urls_ok_def demo_live_def demo_ch_def AddServer_def NewClickhouse_def)
  ultimately have "target_inv demo_live"
    using demo_dumps_ok by (simp add: target_inv_def demo_live_def)
  moreover have "moving (\<lambda>q. q) demo_server = {#}"
    by (simp add: moving_def demo_server_def spawned_ids_def held_ids_def demo_coll_def NewCollector_def
        request_ids_def sends_def demo_live_def)
  moreover have "coll_ok demo_coll" by (rule demo_coll_ok)
  ultimately show ?thesis by (simp add: system_inv_def demo_server_def)
qed

lemma demo_insert_fits: "fits MaxScanTokenSize (marshal_line (text_record 1 demo_params ''(1)''))"
  by (simp add: fits_def MaxScanTokenSize_def marshal_line_def json_eval demo_params_def)

lemma demo_accepts:
  "\<exists>sv1. writeHandler demo_codecs list_queue demo_env demo_env demo_insert demo_server
      = Some (Some (string_reply 200 []), sv1) \<and> sv_spawned sv1 = [SpawnPush demo_params ''(1)'' 1]
    \<and> sv_Collector sv1 = demo_coll \<and> ch_Queue (wk_ch (live sv1)) = [] \<and> tg_backup (sv_targets sv1) = None"
proof -
  let ?W = "writeHandler demo_codecs list_queue demo_env demo_env demo_insert demo_server"
  obtain j d where jd: "demo = (j, d)" by force
  have j: "j_nextID j = 0" "\<not> backlogged j" using jd by (auto simp: demo_def backlogged_def)
  obtain j' d' where a: "Append demo_params ''(1)'' j d = (Inr 1, j', d')"
  proof -
    have "journal_inv j d" "quiet d" using demo_inv unfolding jd by simp_all
    from appendRecord_quiet [OF this j(2), of "text_record 0 demo_params ''(1)''"] j(1) that show thesis
      by (auto simp: Append_text)
  qed
  have pl: "?W = insert_by list_queue demo_env demo_env (Append demo_params ''(1)'') (SpawnPush demo_params ''(1)'')
      (buildSyncBatchedRequest demo_params ''(1)'') False demo_server"
    by (simp only: handler_plan demo_plan run_plan.simps)
  have ap: "\<exists>sv0. appendJournal (Append demo_params ''(1)'') demo_server = (Inr 1, sv0) \<and> sv_spawned sv0 = []
      \<and> sv_Collector sv0 = demo_coll \<and> ch_Queue (wk_ch (live sv0)) = [] \<and> tg_backup (sv_targets sv0) = None"
    using a by (simp add: jd appendJournal_def demo_server_def demo_live_def with_live_def)
  show ?thesis unfolding pl using ap by (auto simp: insert_by_def spawn_def)
qed

section \<open>Limits on requests\<close>

text \<open>
  C34. The limit \<open>max_request_bytes\<close>, where it is on and four times its value is an int64. A
  request with a body of more than four times the limit is answered 413 with nothing changed. A
  smaller one that does not ask for decompression is handled as it is. One that does is handled
  with a decompressed body within the limit, or it is answered, with nothing changed, 413 where
  the decompressed body was too large, and 400 for every other error. In particular, a body that
  the decoder of its Content-Encoding decodes to the end is handled exactly when what it decodes
  to is within the limit, and is answered 413 otherwise.
\<close>

theorem request_body_limits:
  fixes cd :: codecs and Q :: "'q queue_api" and rq :: http_request and sv :: "'q Server"
  defines "m \<equiv> sv_MaxRequestBytes sv" and "qs \<equiv> auth_query (rq_auth rq) (rq_query rq)"
    and "refused \<equiv> \<lambda>n msg. Some (Some (string_reply n (msg @ [NL])), sv)"
  assumes "0 < m" "4 * m \<le> int64_max" "readAll (rq_body rq) = (s, None)"
  shows "(4 * m < int (length s) \<longrightarrow> writeHandler cd Q E E' rq sv = refused 413 ''Request body too large'')
    \<and> (int (length s) \<le> 4 * m \<and> \<not> needsDecompression (rq_encoding rq) qs
        \<longrightarrow> writeHandler cd Q E E' rq sv = handleBody Q E E' rq qs s sv)
    \<and> (int (length s) \<le> 4 * m \<and> needsDecompression (rq_encoding rq) qs
        \<longrightarrow> (case decompressRequestBody cd s (rq_encoding rq) qs m of
             Inr (body, qs') \<Rightarrow> int (length body) \<le> m \<and> writeHandler cd Q E E' rq sv = handleBody Q E E' rq qs' body sv
           | Inl ErrRequestTooLarge \<Rightarrow> writeHandler cd Q E E' rq sv = refused 413 ''Request body too large''
           | Inl _ \<Rightarrow> writeHandler cd Q E E' rq sv = refused 400 ''Request decompression failed''))
    \<and> (\<forall>f r out. int (length s) \<le> 4 * m \<and> \<not> queryParamEnabled qs ''decompress''
        \<and> http_decoder cd (normalizeContentEncoding (rq_encoding rq)) = Some f \<and> f s = Inr r \<and> readAll r = (out, None)
        \<longrightarrow> writeHandler cd Q E E' rq sv = (if int (length out) \<le> m then handleBody Q E E' rq qs out sv
             else refused 413 ''Request body too large''))"
proof -
  have lim: "m < int64_max" "compressedLimit m = 4 * m"
    using assms(4,5) wrap64_id [of "m * 4"] by (auto simp: compressedLimit_def Let_def mult.commute)
  have r: "readRequestBody (rq_body rq) m = (if int (length s) \<le> 4 * m then Inr s else Inl ErrRequestTooLarge)"
    using readRequestBody_exact [OF assms(4) lim(1) assms(6)] lim(2) by simp
  have big: "writeHandler cd Q E E' rq sv = refused 413 ''Request body too large''" if "4 * m < int (length s)"
    using r that by (simp add: writeHandler_def m_def refused_def)
  have plain: "writeHandler cd Q E E' rq sv = handleBody Q E E' rq qs s sv"
    if "int (length s) \<le> 4 * m" "\<not> needsDecompression (rq_encoding rq) qs"
    using r that by (simp add: writeHandler_def m_def qs_def Let_def)
  have dec: "case decompressRequestBody cd s (rq_encoding rq) qs m of
       Inr (body, qs') \<Rightarrow> int (length body) \<le> m \<and> writeHandler cd Q E E' rq sv = handleBody Q E E' rq qs' body sv
     | Inl ErrRequestTooLarge \<Rightarrow> writeHandler cd Q E E' rq sv = refused 413 ''Request body too large''
     | Inl _ \<Rightarrow> writeHandler cd Q E E' rq sv = refused 400 ''Request decompression failed''"
    if "int (length s) \<le> 4 * m" "needsDecompression (rq_encoding rq) qs"
  proof -
    have "int (length b) \<le> m" if "decompressRequestBody cd s (rq_encoding rq) qs m = Inr (b, q)" for b q
      using decompressed_size [OF that] assms(4) by linarith
    then show ?thesis
      using r that by (auto simp: writeHandler_def m_def qs_def refused_def Let_def split: sum.split body_err.split)
  qed
  have whole_out: "writeHandler cd Q E E' rq sv = (if int (length out) \<le> m then handleBody Q E E' rq qs out sv
      else refused 413 ''Request body too large'')"
    if h: "int (length s) \<le> 4 * m" "\<not> queryParamEnabled qs ''decompress''"
      "http_decoder cd (normalizeContentEncoding (rq_encoding rq)) = Some f" "f s = Inr r" "readAll r = (out, None)" for f r out
  proof -
    have n: "needsDecompression (rq_encoding rq) qs"
      using h(3) by (auto simp: needsDecompression_def Let_def http_decoder_def split: if_splits)
    have "decompressRequestBody cd s (rq_encoding rq) qs m
        = (if int (length out) \<le> m then Inr (out, qs) else Inl ErrRequestTooLarge)"
      using decompress_decoded [OF h(3,4,5) assms(4) lim(1)] h(2)
      by (simp add: decompressRequestBody_def checkRequestSize_def)
    with dec [OF h(1) n] show ?thesis by (auto split: if_splits)
  qed
  show ?thesis
  proof (intro conjI allI impI)
    show "4 * m < int (length s) \<Longrightarrow> writeHandler cd Q E E' rq sv = refused 413 ''Request body too large''"
      by (rule big)
    show "int (length s) \<le> 4 * m \<and> \<not> needsDecompression (rq_encoding rq) qs
        \<Longrightarrow> writeHandler cd Q E E' rq sv = handleBody Q E E' rq qs s sv"
      by (elim conjE) (rule plain)
  qed ((elim conjE, rule dec, assumption+), (elim conjE, rule whole_out, assumption+))
qed

text \<open>One byte is allowed: four bytes of plain text pass, five do not, and lz4 that decodes to two does not.\<close>

theorem request_body_limits_witness:
  "let sv = demo_server\<lparr>sv_MaxRequestBytes := 1\<rparr>;
       answer = (\<lambda>rq. writeHandler demo_codecs list_queue demo_env demo_env rq sv);
       large = Some (Some (string_reply 413 (''Request body too large'' @ [NL])), sv)
   in answer (demo_insert\<lparr>rq_body := whole ''abcde''\<rparr>) = large
    \<and> answer (demo_insert\<lparr>rq_body := whole ''abcd''\<rparr>)
        = handleBody list_queue demo_env demo_env (demo_insert\<lparr>rq_body := whole ''abcd''\<rparr>) [] ''abcd'' sv
    \<and> answer (demo_insert\<lparr>rq_body := whole ''ab'', rq_encoding := ''lz4''\<rparr>) = large"
proof -
  let ?sv = "demo_server\<lparr>sv_MaxRequestBytes := 1\<rparr>"
  let ?rq = "\<lambda>b e. demo_insert\<lparr>rq_body := whole b, rq_encoding := e\<rparr>"
  have n: "\<not> needsDecompression (rq_encoding (?rq b [])) (auth_query (rq_auth (?rq b [])) (rq_query (?rq b [])))" for b
    by (simp add: demo_insert_def auth_query_def) code_simp
  have same: "demo_insert\<lparr>rq_body := whole b\<rparr> = ?rq b []" for b by (simp add: demo_insert_def)
  have 1: "writeHandler demo_codecs list_queue demo_env demo_env (?rq ''abcde'' []) ?sv
      = Some (Some (string_reply 413 (''Request body too large'' @ [NL])), ?sv)"
    using request_body_limits [of ?sv "?rq ''abcde'' []" "''abcde''" demo_codecs list_queue demo_env demo_env]
    by (simp add: int64_max_def)
  have 2: "writeHandler demo_codecs list_queue demo_env demo_env (?rq ''abcd'' []) ?sv
      = handleBody list_queue demo_env demo_env (?rq ''abcd'' []) [] ''abcd'' ?sv"
    using request_body_limits [of ?sv "?rq ''abcd'' []" "''abcd''" demo_codecs list_queue demo_env demo_env] n [of "''abcd''"]
    by (simp add: int64_max_def demo_insert_def auth_query_def)
  have d: "http_decoder demo_codecs (normalizeContentEncoding ''lz4'') = Some (\<lambda>s. Inr (whole s))"
    by (simp add: normalized_lz4 http_decoder_def demo_codecs_def)
  have q: "\<not> queryParamEnabled [] ''decompress''" by code_simp
  have h: "0 < sv_MaxRequestBytes ?sv" "4 * sv_MaxRequestBytes ?sv \<le> int64_max"
    "readAll (rq_body (?rq ''ab'' ''lz4'')) = (''ab'', None)"
    by (simp_all add: int64_max_def)
  have "writeHandler demo_codecs list_queue demo_env demo_env (?rq ''ab'' ''lz4'') ?sv
      = (if int (length ''ab'') \<le> sv_MaxRequestBytes ?sv
         then handleBody list_queue demo_env demo_env (?rq ''ab'' ''lz4'')
           (auth_query (rq_auth (?rq ''ab'' ''lz4'')) (rq_query (?rq ''ab'' ''lz4''))) ''ab'' ?sv
         else Some (Some (string_reply 413 (''Request body too large'' @ [NL])), ?sv))"
    by (rule request_body_limits [OF h, THEN conjunct2, THEN conjunct2, THEN conjunct2, rule_format,
          where f = "\<lambda>s. Inr (whole s)" and r = "whole ''ab''"])
      (use d q in \<open>simp add: demo_insert_def auth_query_def\<close>)
  then have 3: "writeHandler demo_codecs list_queue demo_env demo_env (?rq ''ab'' ''lz4'') ?sv
      = Some (Some (string_reply 413 (''Request body too large'' @ [NL])), ?sv)" by simp
  show ?thesis
    unfolding Let_def using 1 [folded same] 2 [folded same] 3 by (intro conjI)
qed

section \<open>The answer to an insert\<close>

fun plan_waits :: "plan \<Rightarrow> bool" where
  "plan_waits (PText p c sync) = sync"
| "plan_waits (POpaque p c ct sync) = sync"
| "plan_waits _ = False"

text \<open>
  C11. Take a journal of which \<open>journal_sound\<close> holds: its process opened it on a log without a
  torn last line, and since then any system call may have failed at any time (every call of the
  journal keeps this, whatever fails in it: \<open>sound_calls\<close>). Whatever fails now, an insert that does
  not wait is answered 200 only when its record stands at the end of wal.jsonl under a number of
  its own, and then the goroutine that pushes it, with that number, is started. Else no goroutine
  is started and every pending record is kept: it is answered 503 because the journal is full,
  with nothing changed; or 500, because writing failed now or earlier; or its handler panics, the
  connection is cut and the files are untouched, because an earlier compaction failed after it
  had closed the log.
\<close>

theorem insert_answered_after_journal:
  assumes "wk_journal (live sv) = Some j" "journal_sound j (wk_jdir (live sv))" "j_nextID j \<noteq> - 1"
    and "plan_record (plan_of cd rq sv) = Some r" "\<not> plan_waits (plan_of cd rq sv)"
    and "writeHandler cd Q E E' rq sv = Some (rep, sv')"
  shows "(\<exists>g. rep = Some (string_reply 200 []) \<and> sv_spawned sv' = sv_spawned sv @ [g]
        \<and> wal_lines (wk_jdir (live sv')) = wal_lines (wk_jdir (live sv)) @ [marshal_line (r\<lparr>rec_ID := spawned_id g\<rparr>)]
        \<and> spawned_id g \<notin> set (wal_ids (wal_lines (wk_jdir (live sv)))))
    \<or> rep = Some (string_reply 503 (''Journal backlog full'' @ [NL])) \<and> backlogged j \<and> sv' = sv
    \<or> rep = Some (string_reply 500 (''Journal write failed'' @ [NL])) \<and> j_walWriter j \<noteq> None
        \<and> sv_spawned sv' = sv_spawned sv \<and> sv_Collector sv' = sv_Collector sv
        \<and> prefix (pending_recs (live sv)) (pending_recs (live sv'))
    \<or> rep = None \<and> j_walWriter j = None \<and> sv_spawned sv' = sv_spawned sv \<and> sv_Collector sv' = sv_Collector sv
        \<and> wk_jdir (live sv') = wk_jdir (live sv) \<and> pending_recs (live sv') = pending_recs (live sv)"
proof -
  let ?s = "live sv"
  have "\<exists>g req. insert_by Q E E' (appendRecord r) g req False sv = Some (rep, sv') \<and> (\<forall>i. spawned_id (g i) = i)"
    using assms(4-6) unfolding handler_plan
    by (cases "plan_of cd rq sv") (auto simp: Append_text AppendOpaque_record)
  then obtain g req where i: "insert_by Q E E' (appendRecord r) g req False sv = Some (rep, sv')"
    "\<And>i. spawned_id (g i) = i" by blast
  obtain res j' d' where a: "appendRecord r j (wk_jdir ?s) = (res, j', d')" by (metis prod_cases3)
  let ?sv = "with_live (\<lambda>s. s\<lparr>wk_journal := Some j', wk_jdir := d'\<rparr>) sv"
  have e: "case res of Inl e \<Rightarrow> rep = journalAppendError e \<and> sv' = ?sv
      | Inr n \<Rightarrow> rep = Some (string_reply 200 []) \<and> sv' = spawn (g n) ?sv"
    using i(1) a assms(1) by (auto simp: insert_by_def appendJournal_def split: sum.splits)
  show ?thesis
  proof (cases "backlogged j")
    case True
    then have "res = Inl ErrJournalBacklog" "j' = j" "d' = wk_jdir ?s" using a by (auto simp: appendRecord_backlogged)
    moreover have "with_live (\<lambda>s. s\<lparr>wk_journal := Some j, wk_jdir := wk_jdir ?s\<rparr>) sv = sv"
      using assms(1) by (simp add: with_live_def)
    ultimately show ?thesis using e True by (simp add: journalAppendError_def)
  next
    case False
    show ?thesis
    proof (cases "j_walWriter j")
      case None
      with a False have "res = Inl JPanic" "j' = j\<lparr>j_nextID := j_nextID j + 1\<rparr>" "d' = wk_jdir ?s"
        by (simp_all add: writer_gone)
      with e None assms(1) show ?thesis
        by (simp add: journalAppendError_def with_live_def pending_recs_def pending_def)
    next
      case (Some w)
      from append_sound [OF assms(2) a] obtain rest where eff: "append_lines r j res rest"
        "wal_lines d' = wal_lines (wk_jdir ?s) @ rest" "j_acked j' = j_acked j" by metis
      note fresh = sound_fresh [OF assms(2,3)]
      show ?thesis
      proof (cases res)
        case (Inr n)
        with e eff fresh i(2) show ?thesis
          by (intro disjI1 exI [of _ "g n"]) (auto simp: spawn_def with_live_def append_lines_def)
      next
        case (Inl err)
        then have "err = JIOError"
          using append_no_panic [OF assms(2) Some False] a by blast
        moreover have "prefix (pending j (wk_jdir ?s)) (pending j' d')" using eff(2,3) by (simp add: pending_def)
        ultimately show ?thesis using e Inl Some assms(1)
          by (simp add: journalAppendError_def with_live_def pending_recs_def)
      qed
    qed
  qed
qed

theorem insert_answered_after_journal_witness:
  "\<exists>sv1. writeHandler demo_codecs list_queue demo_env demo_env demo_insert demo_server = Some (Some (string_reply 200 []), sv1)
     \<and> wal_lines (wk_jdir (live sv1)) = [marshal_line (text_record 1 demo_params ''(1)'')]"
proof -
  obtain sv1 where sv1: "writeHandler demo_codecs list_queue demo_env demo_env demo_insert demo_server
      = Some (Some (string_reply 200 []), sv1)" "sv_spawned sv1 = [SpawnPush demo_params ''(1)'' 1]"
    using demo_accepts by blast
  have "journal_inv (fst demo) (snd demo)" using demo_inv unfolding demo_def by simp
  then have j: "wk_journal (live demo_server) = Some (fst demo)" "journal_sound (fst demo) (wk_jdir (live demo_server))"
    "j_nextID (fst demo) \<noteq> - 1" "sv_spawned demo_server = []" "wal_lines (wk_jdir (live demo_server)) = []"
    by (simp_all add: demo_server_def demo_live_def demo_def wal_lines_def journal_inv_sound)
  have p: "plan_record (plan_of demo_codecs demo_insert demo_server) = Some (text_record 0 demo_params ''(1)'')"
    "\<not> plan_waits (plan_of demo_codecs demo_insert demo_server)" by (simp_all add: demo_plan)
  from insert_answered_after_journal [OF j(1-3) p sv1(1)] sv1 j(4,5) show ?thesis
    by (auto simp: string_reply_def)
qed

section \<open>Inserts that wait\<close>

text \<open>
  The answer to an insert that waits is that of ClickHouse: its status, body and headers.
  It is below 400 exactly when the query ended without an error, and then ClickHouse accepted
  a request with the body of this insert. Neither tables nor goroutines are touched.
\<close>

theorem sync_answer_is_clickhouse:
  assumes "syncSendInsert Q E E' req sv = Some (rep, sv')" "sv_hasLive sv" "urls_ok (wk_ch (live sv))"
  shows "\<exists>q c w. SendQuery E req (wk_ch (live sv)) (wk_world (live sv)) = Some (q, c, w)
    \<and> rep = writeProxiedQueryResponse (rp_status q) (rp_response q) (rp_headers q)
    \<and> (hr_status rep < 400) = (rp_err q = None)
    \<and> (hr_status rep < 400 \<longrightarrow> (\<exists>url ct res. (url, ct, req_Content req, res) \<in> set (w_log (wk_world (live sv'))) \<and> accepted res))
    \<and> sv_Collector sv' = sv_Collector sv \<and> sv_spawned sv' = sv_spawned sv"
proof -
  obtain q c w where q: "SendQuery E req (wk_ch (live sv)) (wk_world (live sv)) = Some (q, c, w)"
    using assms(1,2) by (auto simp: syncSendInsert_def worker_sender_def split: option.splits)
  note sp = SendQuery_post [OF q]
  have st: "(rp_status q < 400) = (rp_err q = None)" "rp_err q \<noteq> None \<Longrightarrow> rp_status q \<noteq> 0"
    using sp by (auto simp: send_post_def)
  have rep: "rep = writeProxiedQueryResponse (rp_status q) (rp_response q) (rp_headers q)"
    and rest: "sv_Collector sv' = sv_Collector sv" "sv_spawned sv' = sv_spawned sv"
    and ok: "rp_err q = None \<Longrightarrow> w_log (wk_world (live sv')) = w_log w"
    using assms(1,2) q st(2)
    by (auto simp: syncSendInsert_def finishSyncInsert_def worker_sender_def with_live_def Let_def ackJournal_def time_Now_def
        split: option.splits if_splits prod.splits)
  moreover have "hr_status rep = rp_status q" using rep by (simp add: writeProxiedQueryResponse_def Let_def)
  ultimately show ?thesis
    using q st(1) SendQuery_logged [OF q assms(3)] by (auto simp: query_logged_def)
qed

definition demo_sync :: ClickhouseRequest where
  "demo_sync = buildSyncBatchedRequest demo_params ''(1)'' 1"

lemma demo_sync_fields: "req_Params demo_sync = []" "req_ContentType demo_sync = []" "req_JournalIDs demo_sync = [1]"
  "req_Content demo_sync = ''insert into t values'' @ NL # ''(1)''"
  by code_simp+

lemma demo_sync_down: "\<exists>c w. SendQuery demo_env demo_sync ((demo_ch [''a''])\<lparr>ch_Queue := []\<rparr>) demo_world = Some (no_servers, c, w)
    \<and> \<not> posted x w"
  by (simp add: query_eval no_servers_def demo_sync_fields posted_def)

lemma demo_sync_up: "SendQuery demo_env demo_sync ((demo_ch [''b''])\<lparr>ch_Queue := []\<rparr>) demo_world \<noteq> None"
  by (simp add: query_eval demo_sync_fields)

theorem sync_answer_is_clickhouse_witness:
  "\<exists>rep sv'. syncSendInsert list_queue demo_env demo_env demo_sync demo_server = Some (rep, sv')
     \<and> (hr_status rep < 400 \<longrightarrow> posted ''(1)'' (wk_world (live sv'))) \<and> sv_spawned sv' = []"
proof -
  have u: "urls_ok (wk_ch (live demo_server))" "sv_hasLive demo_server" "sv_spawned demo_server = []"
    using demo_server_inv by (simp_all add: system_inv_def target_inv_def demo_server_def)
  have "syncSendInsert list_queue demo_env demo_env demo_sync demo_server \<noteq> None"
    using demo_sync_up by (auto simp: syncSendInsert_def worker_sender_def demo_server_def demo_live_def Let_def split: option.splits prod.splits)
  then obtain rep sv' where s: "syncSendInsert list_queue demo_env demo_env demo_sync demo_server = Some (rep, sv')" by force
  have "contains (req_Content demo_sync) ''(1)''" by (simp add: demo_sync_fields) code_simp
  with sync_answer_is_clickhouse [OF s u(2,1)] s u(3) show ?thesis
    by (fastforce simp: posted_def)
qed

text \<open>
  C33. An insert that waited is taken out of the journal whatever became of it: also when ClickHouse
  refused it or could not be reached and writing the dump failed, although the message logged
  then says that its journal entry is kept.
\<close>

theorem sync_insert_always_acked:
  assumes "syncSendInsert Q E E' req sv = Some (rep, sv')" "sv_hasLive sv" "target_inv (live sv)"
    and "set (req_JournalIDs req) \<subseteq> set (pending_ids (live sv))"
  shows "pending_recs (live sv') = filter (\<lambda>k. rec_ID k \<notin> set (req_JournalIDs req)) (pending_recs (live sv))"
proof -
  obtain s where "live_after sv s sv'"
    "pending_recs s = filter (\<lambda>k. rec_ID k \<notin> set (req_JournalIDs req)) (pending_recs (live sv))"
    by (rule syncSendInsert_effect [OF assms]) (rule that)
  then show ?thesis by (auto simp: live_after_def)
qed

text \<open>A target whose server is down and whose dump directory fails, with the insert in the journal.\<close>

definition demo_down :: "ClickhouseRequest list Server" where
  "demo_down = with_live (\<lambda>_. demo_live\<lparr>wk_ch := (demo_ch [''a''])\<lparr>ch_Queue := []\<rparr>, wk_disk := demo_disk [] [DFail]\<rparr>) demo_server"

theorem sync_insert_always_acked_witness:
  "\<exists>sv rep sv'. appendJournal (Append demo_params ''(1)'') demo_down = (Inr 1, sv)
     \<and> map rec_Content (pending_recs (live sv)) = [''(1)'']
     \<and> syncSendInsert list_queue demo_env demo_env demo_sync sv = Some (rep, sv') \<and> hr_status rep = 503
     \<and> pending_recs (live sv') = [] \<and> dk_files (wk_disk (live sv')) = [] \<and> \<not> posted ''(1)'' (wk_world (live sv'))"
proof -
  let ?s = "live demo_down"
  obtain j d where jd: "demo = (j, d)" by force
  have j: "j_nextID j = 0" "\<not> backlogged j" "pending j d = []"
    using jd by (auto simp: demo_def backlogged_def pending_def wal_lines_def unacked_recs_def)
  have s: "wk_journal ?s = Some j" "wk_jdir ?s = d" "wk_dumper ?s = Some demo_dumper" "wk_disk ?s = demo_disk [] [DFail]"
    "wk_world ?s = demo_world" "wk_ch ?s = (demo_ch [''a''])\<lparr>ch_Queue := []\<rparr>"
    by (simp_all add: demo_down_def demo_live_def jd)
  have inv: "target_inv ?s"
    using demo_inv demo_dumps_ok s
    by (simp add: target_inv_def jd urls_ok_def demo_ch_def AddServer_def NewClickhouse_def)
  obtain j' d' where a: "appendRecord (text_record 0 demo_params ''(1)'') j d = (Inr 1, j', d')"
    using appendRecord_quiet [of j d "text_record 0 demo_params ''(1)''"] demo_inv j(1,2) unfolding jd by auto
  let ?t = "?s\<lparr>wk_journal := Some j', wk_jdir := d'\<rparr>"
  let ?sv = "with_live (\<lambda>_. ?t) demo_down"
  have ap: "appendJournal (Append demo_params ''(1)'') demo_down = (Inr 1, ?sv)"
    using s a by (simp add: appendJournal_def Append_text) (simp add: with_live_def)
  have fit: "j_nextID j \<noteq> - 1" "fits MaxScanTokenSize (marshal_line (text_record 0 demo_params ''(1)''\<lparr>rec_ID := j_nextID j + 1\<rparr>))"
    using demo_insert_fits j(1) by simp_all
  have a': "appendRecord (text_record 0 demo_params ''(1)'') j (wk_jdir ?s) = (Inr 1, j', d')" using a s(2) by simp
  note t = append_target [OF inv s(1) a' fit]
  have one: "pending_recs ?t = [json_reread (text_record 1 demo_params ''(1)'')]"
    using t(3) s(1,2) j(3) by (simp add: pending_recs_def)
  have ct: "rec_Content (json_reread (text_record 1 demo_params ''(1)'')) = ''(1)''"
    by (simp add: json_eval)
  obtain c w where q: "SendQuery demo_env demo_sync (wk_ch ?t) (wk_world ?t) = Some (no_servers, c, w)" "\<not> posted ''(1)'' w"
    using demo_sync_down [of "''(1)''"] s(5,6) by auto
  let ?u = "?t\<lparr>wk_ch := c, wk_world := w\<rparr>"
  have d: "ch_Dump [] (req_Content demo_sync) [] (dump_kind 503) 503 ?u = (Inl EIO, ?u\<lparr>wk_disk := demo_disk [] []\<rparr>)"
    using s(3,4) by (simp add: ch_Dump_def Dump_def checkDir_def os_Stat_def dsys_def demo_disk_def demo_dumper_def)
  let ?rep = "writeProxiedQueryResponse 503 [] None"
  have sy: "syncSendInsert list_queue demo_env demo_env demo_sync ?sv
      = Some (?rep, with_live (\<lambda>_. ackJournal demo_env [1] (?u\<lparr>wk_disk := demo_disk [] []\<rparr>)) demo_down)"
    using q(1) d by (simp add: syncSendInsert_def finishSyncInsert_def worker_sender_def demo_sync_fields no_servers_def
        with_live_def demo_down_def demo_server_def)
  have hl: "sv_hasLive ?sv" by (simp add: with_live_def demo_down_def demo_server_def)
  have "pending_recs (live (with_live (\<lambda>_. ackJournal demo_env [1] (?u\<lparr>wk_disk := demo_disk [] []\<rparr>)) demo_down)) = []"
    using sync_insert_always_acked [OF sy hl] t(1) one by (simp add: demo_sync_fields json_reread_def text_record_def)
  moreover have "\<not> posted ''(1)'' (wk_world (ackJournal demo_env [1] (?u\<lparr>wk_disk := demo_disk [] []\<rparr>)))"
    using q(2) by (simp add: ackJournal_def time_Now_def posted_def split: prod.split)
  moreover have "hr_status ?rep = 503" by (simp add: writeProxiedQueryResponse_def Let_def)
  ultimately show ?thesis
    using ap one ct sy
    by (intro exI [of _ ?sv] exI [of _ ?rep]
        exI [of _ "with_live (\<lambda>_. ackJournal demo_env [1] (?u\<lparr>wk_disk := demo_disk [] []\<rparr>)) demo_down"] conjI)
      (simp_all add: demo_disk_def)
qed

section \<open>Waiting and not waiting\<close>

lemma sync_request_of_batch:
  assumes "[] \<notin> set (split_on (CHR ''&'') p)"
  shows "batch_request (new_table p now c) (rows_of (new_table p now c) b) (id_list i)
    = (buildSyncBatchedRequest p b i)\<lparr>req_Count := int (length (rows_of (new_table p now c) b))\<rparr>"
proof -
  have "insertParts ps x = separateParts ps x" if "[] \<notin> set ps" for ps x
    using that by (induction ps x rule: insertParts.induct) (auto simp: HasPrefix_def)
  then have sep: "separateInsertParams p = separateQuery p"
    using assms by (simp add: separateInsertParams_def separateQuery_def)
  show ?thesis
    using join_rows_of [of "new_table p now c" b]
    by (auto simp: buildSyncBatchedRequest_def sep batch_request_def table_request_def Content_rows new_table_def
        NewTable_def id_list_def row_delimiter_def split: prod.splits if_splits)
qed

lemma push_key_same:
  assumes "\<not> c_RemoveQueryID c \<or> (\<forall>q \<in> set (split_on (CHR ''&'') p). \<not> HasPrefix q ''query_id='') \<and> trim_space p = p"
  shows "push_key c p = p"
proof (cases "c_RemoveQueryID c")
  case True
  then have "filter (\<lambda>q. \<not> HasPrefix q ''query_id='') (split_on (CHR ''&'') p) = split_on (CHR ''&'') p"
    using assms by (auto simp: filter_id_conv)
  then show ?thesis
    using True assms join_split_on [of "CHR ''&''" p] by (simp add: push_key_filter)
qed (simp add: push_key_def)

text \<open>
  C32. Where batches are not larger than one insert (\<open>flush_count\<close> 0 or 1, nothing waiting under
  its key), \<open>Push\<close> hands an insert to the sender at once, and the request is the one that a waiting
  insert sends for the key under which \<open>Push\<close> files it, but for its count, which is the number of
  rows (a waiting insert has 1). That key is the parameters of the request themselves where
  remove_query_id is off, or no parameter is a query_id (and no white space surrounds them);
  otherwise a waiting insert keeps the query_id that \<open>Push\<close> strips. (The key has no empty part,
  as \<open>ParseQuery\<close> makes it of such query strings.)
\<close>

theorem sync_insert_is_batch_of_one:
  assumes "coll_ok c" "c_Count c \<le> 1" "[] \<notin> set (split_on (CHR ''&'') (push_key c p))"
    and "\<And>t. map_of (c_Tables c) (push_key c p) = Some t
          \<Longrightarrow> same_table t (new_table (push_key c p) now c) \<and> t_Rows t = []"
  shows "(\<exists>c'. Push S now p b i c s = Some (c', s_Send S ((buildSyncBatchedRequest (push_key c p) b i)
        \<lparr>req_Count := int (length (rows_of (new_table (push_key c p) now c) b))\<rparr>) s))
    \<and> (\<not> c_RemoveQueryID c \<or> (\<forall>q \<in> set (split_on (CHR ''&'') p). \<not> HasPrefix q ''query_id='') \<and> trim_space p = p
       \<longrightarrow> push_key c p = p)"
proof (rule conjI)
  let ?k = "push_key c p"
  let ?u = "new_table ?k now c"
  obtain t c1 where t: "Push S now p b i c s = map_option (\<lambda>(t, s). (c1\<lparr>c_Tables := AList.update ?k t (c_Tables c1)\<rparr>, s)) (Add S now b i t s)"
    "same_table t ?u" "t_Rows t = []" "table_ok t"
  proof (cases "map_of (c_Tables c) ?k")
    case None
    have "Push S now p b i c s = map_option (\<lambda>(t, s). (c\<lparr>c_Tables := AList.update ?k t (AList.update ?k ?u (c_Tables c))\<rparr>, s))
        (Add S now b i ?u s)"
      using assms(1) None by (simp add: Push_def addTable_def Let_def coll_ok_def)
    moreover have "same_table ?u ?u" "t_Rows ?u = []" "table_ok ?u"
      using new_table_ok [OF assms(1)] by (auto simp: same_table_def new_table_def NewTable_def split: prod.splits)
    ultimately show thesis using that [of "c\<lparr>c_Tables := AList.update ?k ?u (c_Tables c)\<rparr>" ?u] by simp
  next
    case (Some t)
    then have "(?k, t) \<in> set (c_Tables c)" by (rule map_of_SomeD)
    then have "table_ok t" using assms(1) by (auto simp: coll_ok_def)
    with Some that [of c t] assms(4) [OF Some] show thesis by (simp add: Push_def)
  qed
  have ids: "t_JournalIDs t = []" using t(3,4) by (simp add: table_ok_def)
  have "t_FlushCount t \<le> 1" "0 \<le> t_FlushCount t"
    using t(2) assms(1,2) by (auto simp: same_table_def new_table_def NewTable_def coll_ok_def split: prod.splits)
  moreover have "1 \<le> int (length (rows_of t b))"
    using rows_of_not_Nil [of t b] by (cases "rows_of t b") auto
  ultimately have "Add S now b i t s = Some (t\<lparr>t_Rows := [], t_JournalIDs := [], t_count := 0, t_lastUpdate := now\<rparr>,
     s_Send S (batch_request t (rows_of t b) (id_list i)) s)"
    using Add_flush [OF t(4), of b S now i s] t(3) ids by simp
  moreover have "batch_request t (rows_of t b) (id_list i)
      = (buildSyncBatchedRequest ?k b i)\<lparr>req_Count := int (length (rows_of ?u b))\<rparr>"
    using sync_request_of_batch [OF assms(3), of now c b i] t(2) same_table_simps [OF t(2)] by simp
  ultimately show "\<exists>c'. Push S now p b i c s = Some (c', s_Send S ((buildSyncBatchedRequest ?k b i)
        \<lparr>req_Count := int (length (rows_of ?u b))\<rparr>) s)"
    using t(1) by auto
  show "\<not> c_RemoveQueryID c \<or> (\<forall>q \<in> set (split_on (CHR ''&'') p). \<not> HasPrefix q ''query_id='') \<and> trim_space p = p
       \<longrightarrow> push_key c p = p" using push_key_same by blast
qed

text \<open>An insert with a query_id: \<open>Push\<close> sends it without, a waiting insert keeps it.\<close>

theorem sync_insert_is_batch_of_one_witness:
  "let c = NewCollector 1 1000 100 True False []; p = ''query_id=7&'' @ demo_params
   in (\<exists>c'. Push log_sender 0 p ''(1)'' 1 c [] = Some (c', [(buildSyncBatchedRequest demo_params ''(1)'' 1)\<lparr>req_Count := 1\<rparr>]))
    \<and> req_Params (buildSyncBatchedRequest demo_params ''(1)'' 1) = []
    \<and> req_Params (buildSyncBatchedRequest p ''(1)'' 1) = ''query_id=7''"
proof -
  let ?c = "NewCollector 1 1000 100 True False []" and ?p = "''query_id=7&'' @ demo_params"
  have k: "push_key ?c ?p = demo_params" by code_simp
  have i: "duration_mult millisecond 1000 = 1000000000"
    by (simp add: duration_mult_exact millisecond_def max_duration_def)
  have c: "coll_ok ?c" "c_Count ?c \<le> 1" "map_of (c_Tables ?c) x = None" for x
    using i by (simp_all add: coll_ok_def NewCollector_def)
  have e: "[] \<notin> set (split_on (CHR ''&'') (push_key ?c ?p))" unfolding k by code_simp
  have r: "length (rows_of (new_table demo_params 0 ?c) ''(1)'') = 1" by code_simp
  from sync_insert_is_batch_of_one [OF c(1,2) e, of 0 log_sender "''(1)''" 1 "[]"] c(3) [of demo_params] r
  have "\<exists>c'. Push log_sender 0 ?p ''(1)'' 1 ?c [] = Some (c', [(buildSyncBatchedRequest demo_params ''(1)'' 1)\<lparr>req_Count := 1\<rparr>])"
    unfolding k by (simp add: log_sender_def)
  moreover have "req_Params (buildSyncBatchedRequest demo_params ''(1)'' 1) = []"
    "req_Params (buildSyncBatchedRequest ?p ''(1)'' 1) = ''query_id=7''" by code_simp+
  ultimately show ?thesis unfolding Let_def by blast
qed

end
