(* ===== verification/System_Props.thy ===== *)
theory System_Props
  imports Server_Props
begin

text \<open>
  What the whole program promises for an insert it has accepted.
\<close>

section \<open>An accepted insert\<close>

text \<open>
  An insert whose goroutine was started was answered with 200, and at every state the program
  reaches from there, whatever requests, goroutines, timers, workers and replays run and in
  whatever order, however ClickHouse answers and the dump directory fails: a process that
  starts after a crash there is handed back the record of the insert, or a dump holds the text of the
  insert, or ClickHouse has accepted a request with it. (The journal's own files do not fail; its
  lines fit the scanner; no dump is pruned; the requests can be read back from dumps.)
\<close>

theorem accepted_insert_never_lost:
  assumes "fifo_api Q items" "system_inv items sv" "sys_guard cd items (SysRequest rq) sv"
    and "writeHandler cd Q E E' rq sv = Some (rep, sv1)" "sv_spawned sv1 = sv_spawned sv @ [g]" "spawned_text g \<noteq> []"
    and "sys_reach cd Q E E' items sv1 sv2"
  shows "rep = Some (string_reply 200 []) \<and> (\<exists>r. plan_record (plan_of cd rq sv) = Some r \<and>
     (replayed_after_crash (json_reread (r\<lparr>rec_ID := spawned_id g\<rparr>)) (live sv2)
      \<or> (\<exists>d. wk_dumper (live sv2) = Some d \<and> stored (spawned_text g) d (wk_disk (live sv2)))
      \<or> posted (spawned_text g) (wk_world (live sv2))))"
proof -
  have p: "run_plan Q E E' (plan_of cd rq sv) sv = Some (rep, sv1)" using assms(4) by (simp add: handler_plan)
  have fits: "case plan_record (plan_of cd rq sv) of None \<Rightarrow> True | Some r \<Rightarrow> record_fits r (live sv)"
    using assms(3) by simp
  from plan_keeps(3) [OF p assms(2) fits assms(5)] obtain r where r: "plan_record (plan_of cd rq sv) = Some r"
    "rep = Some (string_reply 200 [])" "insert_safe items (json_reread (r\<lparr>rec_ID := spawned_id g\<rparr>)) (spawned_text g) sv1"
    by blast
  have "system_inv items sv1" by (rule plan_keeps(1) [OF p assms(2) fits])
  from sys_reach_keeps [OF assms(7,1) this assms(6) r(3)] insert_safeD r show ?thesis
    unfolding arrived_def by blast
qed

theorem accepted_insert_never_lost_witness:
  "\<exists>sv1 sv2. writeHandler demo_codecs list_queue demo_env demo_env demo_insert demo_server
      = Some (Some (string_reply 200 []), sv1)
    \<and> sys_reach demo_codecs list_queue demo_env demo_env (\<lambda>q. q) sv1 sv2 \<and> sv_spawned sv2 = []
    \<and> collector_Empty (sv_Collector sv2)
    \<and> (\<exists>r. replayed_after_crash r (live sv2)
        \<or> (\<exists>d. wk_dumper (live sv2) = Some d \<and> stored ''(1)'' d (wk_disk (live sv2)))
        \<or> posted ''(1)'' (wk_world (live sv2)))"
proof -
  let ?Q = "list_queue" and ?S = "main_sender list_queue demo_env demo_env"
  let ?W = "writeHandler demo_codecs ?Q demo_env demo_env demo_insert demo_server"
  let ?g = "SpawnPush demo_params ''(1)'' 1"
  obtain sv1 where sv1: "?W = Some (Some (string_reply 200 []), sv1)" "sv_spawned sv1 = [?g]"
    using demo_accepts by blast
  have fit: "record_fits (text_record 0 demo_params ''(1)'') demo_live"
    using demo_insert_fits by (simp add: record_fits_def demo_live_def demo_def)
  have guard: "sys_guard demo_codecs (\<lambda>q. q) (SysRequest demo_insert) demo_server"
    using fit by (simp add: demo_plan) (simp add: demo_server_def)
  have inv1: "system_inv (\<lambda>q. q) sv1"
    by (rule sys_step_keeps [OF list_queue_fifo demo_server_inv guard]) (use sv1(1) in auto)
  have fr: "fifo_api ?Q (\<lambda>q. q) \<and> requeued (live sv) (tg_live (sv_targets sv))" for sv
    using list_queue_fifo requeued_refl by blast
  have c1: "coll_ok (sv_Collector sv1)" using inv1 by (simp add: system_inv_def)
  obtain c2 t2 where p: "Push ?S 0 demo_params ''(1)'' 1 (sv_Collector sv1) (sv_targets sv1) = Some (c2, t2)"
    using main.push_conserves [OF fr c1] by blast
  let ?sv2 = "sv1\<lparr>sv_spawned := [], sv_Collector := c2, sv_targets := t2\<rparr>"
  have s2: "sys_step demo_codecs ?Q demo_env demo_env (SysSpawned 0 0) sv1 = Some ?sv2"
    using p sv1(2) by (simp add: runSpawned_def Let_def)
  have inv2: "system_inv (\<lambda>q. q) ?sv2"
    by (rule sys_step_keeps [OF list_queue_fifo inv1 _ s2]) auto
  then have c2: "coll_ok c2" by (simp add: system_inv_def)
  obtain n c3 t3 where f: "FlushAll ?S c2 t2 = Some (n, c3, t3)" "collector_Empty c3"
    using main.FlushAll_sends [OF fr [of ?sv2] c2] by force
  let ?sv3 = "?sv2\<lparr>sv_Collector := c3, sv_targets := t3\<rparr>"
  have s3: "sys_step demo_codecs ?Q demo_env demo_env SysFlushAll ?sv2 = Some ?sv3" using f(1) by simp
  have "sys_reach demo_codecs ?Q demo_env demo_env (\<lambda>q. q) sv1 ?sv3"
    by (rule sys_reach.there [OF sys_reach.there [OF sys_reach.here _ s2] _ s3]) simp_all
  moreover from accepted_insert_never_lost [OF list_queue_fifo demo_server_inv guard sv1(1) _ _ this, of ?g]
  have "\<exists>r. replayed_after_crash r (live ?sv3)
        \<or> (\<exists>d. wk_dumper (live ?sv3) = Some d \<and> stored ''(1)'' d (wk_disk (live ?sv3)))
        \<or> posted ''(1)'' (wk_world (live ?sv3))"
    using sv1(2) by (auto simp: demo_server_def)
  moreover have "sv_spawned ?sv3 = []" "collector_Empty (sv_Collector ?sv3)" using f(2) by simp_all
  ultimately show ?thesis using sv1(1) by blast
qed

end
