(* ===== verification/Restart.thy ===== *)
theory Restart
  imports Server_Props
begin

text \<open>
  A process that starts where another one died: \<open>startUp\<close> reads the journal the dead process left,
  hands every pending record to the collector and compacts. The theorem \<open>startUp_effect\<close> ties the
  state of the new process to that of the old.
\<close>

section \<open>The journal at the start\<close>

lemma ReplayUnacked_quiet:
  assumes "log_inv (j, d)"
  shows "\<exists>d'. ReplayUnacked j d = (pending j d, Inr (), j, d') \<and> log_inv (j, d') \<and> pending j d' = pending j d"
proof -
  obtain d1 where d1: "flushWalLocked j d = (Inr (), j, d1)" "quiet d1" "jf_wal d1 = jf_wal d" "jf_ack d1 = jf_ack d"
    using flushWal_quiet [of j d] assms by (metis journal_invE log_inv.simps)
  moreover have "list_all (fits replayScanLimit) (wal_lines d)" "jf_wal d \<noteq> None"
    using assms by (auto simp: journal_inv_def wal_wf_def intro: fits_larger)
  moreover have "pending j (served d1) = pending j d" "journal_inv j (served d1) = journal_inv j d"
    using d1(3,4) by (simp_all add: pending_def wal_lines_def journal_inv_def acked_on_disk_def)
  ultimately show ?thesis
    using assms by (auto simp: ReplayUnacked_def journal_simps filter_is_unacked_recs pending_def wal_lines_def)
qed

section \<open>The records at the start\<close>

text \<open>The text of a record, and the operation of the collector that takes it.\<close>

definition record_text :: "journalRecord \<Rightarrow> string" where
  "record_text r = (if rec_Opaque r \<and> rec_ContentB64 r \<noteq> [] then
       (case b64_decode (rec_ContentB64 r) of Some b \<Rightarrow> b | None \<Rightarrow> rec_Content r)
     else rec_Content r)"

definition replay_op :: "nanos \<Rightarrow> journalRecord \<Rightarrow> cop" where
  "replay_op now r =
     (if rec_Opaque r then COpaque (rec_Params r) (record_text r)
        (if rec_ContentType r = [] then outboundContentType [] (insertQueryString (rec_Params r) (record_text r)) else rec_ContentType r)
        (rec_ID r)
      else CPush now (rec_Params r) (rec_Content r) (rec_ID r))"

lemma replayRecords_run: "replayRecords S now rs (c, s) = coll_run S (map (replay_op now) rs) (c, s)"
proof (induction rs arbitrary: c s)
  case (Cons r rs)
  have "ReplayJournalRecord S now r c s = coll_step S (replay_op now r) (c, s)"
    by (simp add: ReplayJournalRecord_def replay_op_def record_text_def Let_def)
  with Cons.IH show ?case by (simp split: option.split)
qed simp

lemma replay_op_ids: "rec_ID r \<noteq> 0 \<Longrightarrow> cop_ids (replay_op now r) = [rec_ID r]"
  by (simp add: replay_op_def id_list_def word_neq_0_conv)

lemma replay_op_carries: "(rec_ID r = i \<Longrightarrow> record_text r = x) \<Longrightarrow> cop_carries i x (replay_op now r)"
  by (auto simp: replay_op_def record_text_def)

context batch_queue
begin

lemma coll_run_carries:
  assumes "inv s" "coll_ok c" "on_its_way i x c (queued s)" "list_all (cop_carries i x) as"
    and "coll_run S as (c, s) = Some (c', s')"
  shows "on_its_way i x c' (queued s')"
  using assms
proof (induction as arbitrary: c s)
  case (Cons a as)
  obtain c1 s1 where 1: "coll_step S a (c, s) = Some (c1, s1)" "inv s1" "coll_ok c1"
    using coll_step_conserves [OF Cons.prems(1,2), of a] by blast
  have "on_its_way i x c1 (queued s1)"
    using coll_step_carries [OF Cons.prems(1-3) _ 1(1)] Cons.prems(4) by simp
  with Cons.IH [OF 1(2,3)] Cons.prems(4,5) 1(1) show ?case by simp
qed simp

end

section \<open>The targets at the start\<close>

lemma fold_AddServer:
  "fold (\<lambda>u. AddServer u lq) us c = c\<lparr>ch_Servers := ch_Servers c
     @ map (\<lambda>u. \<lparr>srv_URL = u, srv_LastRequest = 0, srv_Bad = False, srv_LogQueries = lq\<rparr>) us\<rparr>"
  by (induction us arbitrary: c) (simp_all add: AddServer_def)

lemma dumps_ok_Listen [simp]: "dumps_ok (startDumpReplay n d) dk = dumps_ok d dk"
  by (simp add: startDumpReplay_def Listen_init_def)

definition fresh_dumper :: "Config \<Rightarrow> string \<Rightarrow> FileDumper" where
  "fresh_dumper cnf stamp = (NewDumper (cf_DumpDir cnf) stamp)\<lparr>fd_MaxDumpFiles := cf_MaxDumpFiles cnf\<rparr>"

lemma new_target_inv:
  assumes "log_inv (j, jd)" "dumps_ok (fresh_dumper cnf (sr_stamp sr)) dk" "[] \<notin> set (cc_Servers (cf_Clickhouse cnf))"
  defines "s \<equiv> new_target (cf_Clickhouse cnf) (cf_DumpDir cnf) (cf_DumpCheckInterval cnf) cnf (Some j) jd dk sr"
  shows "target_inv s" "pending_recs s = pending j jd" "ch_Queue (wk_ch s) = sr_queue sr"
    "wk_journal s = Some j" "wk_jdir s = jd"
  using assms
  by (auto simp: new_target_def newClickhouseSender_def fold_AddServer target_inv_def urls_ok_def fresh_dumper_def
      NewClickhouse_def pending_recs_def Let_def)

section \<open>The journal a process leaves behind\<close>

text \<open>
  The two files hold a log in order, the acknowledgements are of its records, and \<open>recs\<close> are those
  without one. A crash leaves such a directory, and so does \<open>shutdownJournal\<close>.
\<close>

definition leaves :: "journal_dir \<Rightarrow> journalRecord list \<Rightarrow> bool" where
  "leaves d recs = (\<exists>ls as n. jf_wal d = Some ls \<and> jf_ack d = Some as \<and> wal_wf n ls
     \<and> {x. Some x \<in> set as} \<subseteq> set (wal_ids ls) \<and> quiet d \<and> unacked_recs {x. Some x \<in> set as} ls = recs)"

lemma target_leaves: "target_inv s \<Longrightarrow> leaves (wk_jdir s) (pending_recs s)"
  unfolding leaves_def
  by (auto simp: target_inv_def pending_recs_def pending_def wal_lines_def elim!: journal_invE)

lemma closed_leaves:
  assumes "target_inv s"
  shows "leaves (wk_jdir (shutdownJournal now s)) (pending_recs s)"
proof -
  obtain j where j: "wk_journal s = Some j" "log_inv (j, wk_jdir s)" using assms by (auto simp: target_inv_def)
  with Close_quiet [of j "wk_jdir s" now] obtain j' d' ls as n where c: "Close now j (wk_jdir s) = (Inr (), j', d')"
    "quiet d'" "jf_wal d' = Some ls" "jf_ack d' = Some as" "{x. Some x \<in> set as} = {}" "wal_wf n ls"
    "wal_recs ls = pending j (wk_jdir s)" by auto
  then show ?thesis
    using j(1) unfolding leaves_def by (auto simp: shutdownJournal_def pending_recs_def)
qed

lemma leaves_ids:
  assumes "leaves d recs"
  shows "distinct (map rec_ID recs)" "r \<in> set recs \<Longrightarrow> rec_ID r \<noteq> 0"
proof -
  obtain ls A n where d: "wal_wf n ls" "unacked_recs A ls = recs" using assms by (auto simp: leaves_def)
  then have "distinct (wal_ids ls)" "\<forall>x \<in> set (wal_ids ls). x \<noteq> 0" by (auto simp: wal_wf_def)
  with d(2) show "distinct (map rec_ID recs)" "r \<in> set recs \<Longrightarrow> rec_ID r \<noteq> 0"
    by (auto simp: unacked_recs_def wal_ids_def distinct_map_filter)
qed

section \<open>A start on a journal\<close>

lemma startUp_effect:
  assumes "fifo_api Q items" "leaves (sr_jdir sr) recs" "items (sr_queue sr) = []"
    and "cf_JournalEnabled cnf" "0 \<le> cf_FlushCount cnf" "0 < duration_mult millisecond (cf_FlushInterval cnf)"
    and "dumps_ok (fresh_dumper cnf (sr_stamp sr)) (sr_disk sr)" "[] \<notin> set (cc_Servers (cf_Clickhouse cnf))"
  shows "\<exists>sv. startUp Q E E' cnf sr = Some sv \<and> system_inv items sv \<and> sv_spawned sv = []
    \<and> pending_recs (live sv) = recs \<and> moving items sv = mset (map rec_ID recs)
    \<and> (\<forall>k \<in> set recs. insert_safe items k (record_text k) sv)"
proof -
  obtain ls as n where d: "jf_wal (sr_jdir sr) = Some ls" "jf_ack (sr_jdir sr) = Some as" "wal_wf n ls"
    "{x. Some x \<in> set as} \<subseteq> set (wal_ids ls)" "quiet (sr_jdir sr)" "unacked_recs {x. Some x \<in> set as} ls = recs"
    using assms(2) by (auto simp: leaves_def)
  have "EffectiveJournalDir cnf \<noteq> []" using assms(4) by (simp add: EffectiveJournalDir_def)
  from NewJournal_reopens [OF d(1-5) this, of "cf_JournalFsync cnf" "cf_MaxJournalPending cnf" "sr_now sr"]
  obtain j1 d1 where n: "NewJournal (EffectiveJournalDir cnf) (cf_JournalFsync cnf) (cf_MaxJournalPending cnf) (sr_now sr) (sr_jdir sr)
      = (Inr (Some j1), d1)" "log_inv (j1, d1)" "pending j1 d1 = recs"
    using d(6) by (auto simp: pending_def journal_inv_def)
  obtain d2 where r: "ReplayUnacked j1 d1 = (recs, Inr (), j1, d2)" "log_inv (j1, d2)" "pending j1 d2 = recs"
    using ReplayUnacked_quiet [OF n(2)] n(3) by auto
  let ?now = "sr_now sr"
  let ?live = "new_target (cf_Clickhouse cnf) (cf_DumpDir cnf) (cf_DumpCheckInterval cnf) cnf (Some j1) d1 (sr_disk sr) sr"
  let ?bkp = "if BackupEnabled cnf then Some (new_target (the (cf_ClickhouseBackup cnf)) (bkp_dump_dir cnf)
      (backupDumpCheckInterval cnf) cnf None d1 (sr_backup_disk sr) sr) else None"
  let ?t = "\<lparr>tg_live = ?live, tg_backup = ?bkp\<rparr>"
  let ?c = "NewCollector (cf_FlushCount cnf) (cf_FlushInterval cnf) (cf_CleanInterval cnf)
      (cf_RemoveQueryID cnf) (cf_OpaqueInsert cnf) (cf_BatchFormats cnf)"
  let ?S = "main_sender Q E E'" and ?ops = "map (replay_op ?now) recs"
  note nt = new_target_inv [OF n(2) assms(7,8)]
  have fr: "fifo_api Q items \<and> requeued ?live (tg_live ?t)" using assms(1) requeued_refl by simp
  have c0: "coll_ok ?c" using assms(5,6) by (simp add: coll_ok_def NewCollector_def)
  have e0: "held_ids ?c = {#}" "sends items ?live = []"
    using nt(3) assms(3) by (simp_all add: held_ids_def NewCollector_def sends_def)
  have ids: "rec_ID r \<noteq> 0" if "r \<in> set recs" for r
    using leaves_ids(2) [OF assms(2)] that by blast
  have cids: "concat (map cop_ids ?ops) = map rec_ID recs"
  proof -
    have "concat (map cop_ids (map (replay_op ?now) rs)) = map rec_ID rs" if "\<forall>r \<in> set rs. rec_ID r \<noteq> 0" for rs
      using that by (induction rs) (simp_all add: replay_op_ids)
    then show ?thesis using ids by blast
  qed
  obtain c2 t2 where run: "coll_run ?S ?ops (?c, ?t) = Some (c2, t2)" "requeued ?live (tg_live t2)" "coll_ok c2"
    "held_ids c2 + request_ids (sends items (tg_live t2)) = mset (map rec_ID recs)"
    using main.coll_run_conserves [OF fr c0, of E E' ?ops] e0 cids by (auto simp: request_ids_def)
  note same = requeued_target [OF run(2)]
  obtain j3 d3 where cp: "Compact ?now j1 d2 = (Inr (), j3, d3)" "log_inv (j3, d3)" "pending j3 d3 = recs"
    using journal_step_contract [OF r(2), of "JCompact ?now"] compact_quiet [of j1 d2 ?now] r(2,3)
    by (auto simp: Compact_def)
  let ?s = "(tg_live t2)\<lparr>wk_journal := Some j3, wk_jdir := d3\<rparr>"
  let ?sv = "\<lparr>sv_Collector = c2, sv_targets = t2\<lparr>tg_live := ?s\<rparr>, sv_hasLive = True, sv_hasBackup = BackupEnabled cnf,
      sv_BackupOn = BackupEnabled cnf, sv_MaxRequestBytes = cf_MaxRequestBytes cnf, sv_SyncInsert = cf_SyncInsert cnf,
      sv_spawned = []\<rparr>"
  have st: "startUp Q E E' cnf sr = Some ?sv"
    using n(1) r(1) run(1) cp(1) by (simp add: startUp_def replayRecords_run Let_def with_live_def)
  have ts: "target_inv ?s" "pending_recs ?s = recs" "sends items ?s = sends items (tg_live t2)"
    using same(1) nt(1) cp(2,3) by (simp_all add: target_inv_def pending_recs_def sends_def)
  have mv: "moving items ?sv = mset (map rec_ID recs)"
    using run(4) ts(3) by (simp add: moving_def spawned_ids_def)
  have safe: "insert_safe items k (record_text k) ?sv" if k: "k \<in> set recs" for k
  proof -
    have "r = k" if "r \<in> set recs" "rec_ID r = rec_ID k" for r
      using that k leaves_ids(1) [OF assms(2)] by (auto simp: distinct_map dest: inj_onD)
    then have "list_all (cop_carries (rec_ID k) (record_text k)) ?ops"
      using replay_op_carries [of _ "rec_ID k" "record_text k"] by (fastforce simp: list_all_iff)
    moreover have "on_its_way (rec_ID k) (record_text k) ?c (sends items (tg_live ?t))"
      using e0(2) by (simp add: on_its_way_def NewCollector_def)
    ultimately have "on_its_way (rec_ID k) (record_text k) c2 (sends items (tg_live t2))"
      using main.coll_run_carries [OF fr c0 _ _ run(1)] by blast
    with k ts(2,3) show ?thesis by (simp add: insert_safe_def spawned_carries_def)
  qed
  have "system_inv items ?sv" using ts(1,2) run(3) mv by (simp add: system_inv_def)
  with st ts(2) mv safe show ?thesis by (intro exI [of _ ?sv]) simp
qed

text \<open>A record that the journal hands over is exactly once on its way after the start.\<close>

lemma startUp_requeues:
  assumes "fifo_api Q items" "leaves (sr_jdir sr) recs" "k \<in> set recs" "items (sr_queue sr) = []"
    and "cf_JournalEnabled cnf" "0 \<le> cf_FlushCount cnf" "0 < duration_mult millisecond (cf_FlushInterval cnf)"
    and "dumps_ok (fresh_dumper cnf (sr_stamp sr)) (sr_disk sr)" "[] \<notin> set (cc_Servers (cf_Clickhouse cnf))"
  shows "\<exists>sv. startUp Q E E' cnf sr = Some sv \<and> k \<in> set (pending_recs (live sv))
    \<and> count (held_ids (sv_Collector sv) + request_ids (sends items (live sv))) (rec_ID k) = 1"
proof -
  from startUp_effect [OF assms(1,2,4-9), of E E'] obtain sv where
    sv: "startUp Q E E' cnf sr = Some sv" "sv_spawned sv = []" "pending_recs (live sv) = recs"
      "moving items sv = mset (map rec_ID recs)" by blast
  have "rec_ID k \<in> set (map rec_ID recs)" using assms(3) by simp
  then have "count (mset (map rec_ID recs)) (rec_ID k) = 1"
    using leaves_ids(1) [OF assms(2)] by (simp only: distinct_count_atmost_1 if_True)
  moreover have "held_ids (sv_Collector sv) + request_ids (sends items (live sv)) = mset (map rec_ID recs)"
    using sv(2,4) by (simp add: moving_def spawned_ids_def)
  ultimately show ?thesis using sv(1,3) assms(3) by metis
qed

end
