(* ===== verification/Restart_Props.thy ===== *)
theory Restart_Props
  imports Restart
begin

text \<open>
  What a start after a crash promises for the records of the journal.
\<close>

section \<open>A start from a journal\<close>

text \<open>
  A process that dies at any state of the invariant and is started again on the same journal
  comes up, and each record that was not yet acknowledged is then exactly once on its way: the
  numbers in its tables and its queue are those of the pending records, no number lost, none
  twice, and the invariant of the program holds again. What the dead process had in its tables,
  its queue and its goroutines plays no role.
\<close>

theorem restart_requeues_exactly_once:
  assumes "fifo_api Q items" "system_inv items old" "sr_jdir sr = wk_jdir (live old)" "items (sr_queue sr) = []"
    and "cf_JournalEnabled cnf" "0 \<le> cf_FlushCount cnf" "0 < duration_mult millisecond (cf_FlushInterval cnf)"
    and "dumps_ok (fresh_dumper cnf (sr_stamp sr)) (sr_disk sr)" "[] \<notin> set (cc_Servers (cf_Clickhouse cnf))"
  shows "\<exists>sv. startUp Q E E' cnf sr = Some sv \<and> system_inv items sv \<and> sv_spawned sv = []
    \<and> pending_recs (live sv) = pending_recs (live old)
    \<and> held_ids (sv_Collector sv) + request_ids (sends items (live sv)) = mset (map rec_ID (pending_recs (live old)))"
proof -
  have "leaves (sr_jdir sr) (pending_recs (live old))"
    using assms(2,3) target_leaves [of "live old"] by (simp add: system_inv_def)
  from startUp_effect [OF assms(1) this assms(4-9), of E E'] show ?thesis
    by (auto simp: moving_def spawned_ids_def)
qed

text \<open>The configuration and the surroundings of a start after the demo program.\<close>

definition demo_conf :: Config where
  "demo_conf = defaultConfig\<lparr>cf_JournalEnabled := True\<rparr>"

definition demo_start :: "ClickhouseRequest list Server \<Rightarrow> ClickhouseRequest list surroundings" where
  "demo_start sv = \<lparr>sr_stamp = ''20240101000000'', sr_queue = [], sr_disk = demo_disk [] [], sr_backup_disk = demo_disk [] [],
     sr_jdir = wk_jdir (live sv), sr_now = 0\<rparr>"

lemma demo_start_ok:
  "sr_jdir (demo_start sv) = wk_jdir (live sv)" "sr_queue (demo_start sv) = []" "cf_JournalEnabled demo_conf"
  "0 \<le> cf_FlushCount demo_conf" "0 < duration_mult millisecond (cf_FlushInterval demo_conf)"
  "dumps_ok (fresh_dumper demo_conf (sr_stamp (demo_start sv))) (sr_disk (demo_start sv))"
  "[] \<notin> set (cc_Servers (cf_Clickhouse demo_conf))"
proof -
  have "duration_mult millisecond 1000 = 1000 * millisecond"
    by (simp add: duration_mult_exact millisecond_def max_duration_def)
  then show "0 < duration_mult millisecond (cf_FlushInterval demo_conf)"
    by (simp add: demo_conf_def defaultConfig_def millisecond_def)
  show "dumps_ok (fresh_dumper demo_conf (sr_stamp (demo_start sv))) (sr_disk (demo_start sv))"
    by (simp add: dumps_ok_def fresh_dumper_def NewDumper_def demo_conf_def defaultConfig_def demo_start_def demo_disk_def
        pending_file_def failed_file_def is_digit_char_def)
qed (simp_all add: demo_start_def demo_conf_def defaultConfig_def)

theorem restart_requeues_exactly_once_witness:
  "\<exists>sv1 sv. writeHandler demo_codecs list_queue demo_env demo_env demo_insert demo_server
       = Some (Some (string_reply 200 []), sv1)
     \<and> startUp list_queue demo_env demo_env demo_conf (demo_start sv1) = Some sv
     \<and> pending_recs (live sv) = pending_recs (live sv1)"
proof -
  obtain sv1 where sv1: "writeHandler demo_codecs list_queue demo_env demo_env demo_insert demo_server
      = Some (Some (string_reply 200 []), sv1)"
    using demo_accepts by blast
  have "record_fits (text_record 0 demo_params ''(1)'') demo_live"
    using demo_insert_fits by (simp add: record_fits_def demo_live_def demo_def)
  then have guard: "sys_guard demo_codecs (\<lambda>q. q) (SysRequest demo_insert) demo_server"
    by (simp add: demo_plan) (simp add: demo_server_def)
  have "system_inv (\<lambda>q. q) sv1"
    by (rule sys_step_keeps [OF list_queue_fifo demo_server_inv guard]) (use sv1 in auto)
  from restart_requeues_exactly_once [OF list_queue_fifo this demo_start_ok, of demo_env demo_env] sv1
  show ?thesis by blast
qed


text \<open>The demo program dead after it accepted an insert, with the record of that insert.\<close>

definition demo_record :: journalRecord where
  "demo_record = json_reread (text_record 1 demo_params ''(1)'')"

lemma demo_dead: "\<exists>old. system_inv (\<lambda>q. q) old \<and> demo_record \<in> set (pending_recs (live old))"
proof -
  obtain j d where jd: "demo = (j, d)" by force
  have j: "j_nextID j = 0" "\<not> backlogged j" using jd by (auto simp: demo_def backlogged_def)
  let ?r = "text_record 0 demo_params ''(1)''"
  obtain j' d' where a: "appendRecord ?r j d = (Inr 1, j', d')"
  proof -
    have "journal_inv j d" "quiet d" using demo_inv unfolding jd by simp_all
    from appendRecord_quiet [OF this j(2), of ?r] j(1) that show thesis by auto
  qed
  let ?s = "demo_live\<lparr>wk_journal := Some j', wk_jdir := d'\<rparr>"
  have t: "target_inv demo_live" using demo_server_inv by (simp add: system_inv_def demo_server_def)
  have l: "wk_journal demo_live = Some j" "wk_jdir demo_live = d" by (simp_all add: demo_live_def jd)
  note ap = append_target [OF t l(1), unfolded l, OF a]
  have f: "j_nextID j \<noteq> - 1" "fits MaxScanTokenSize (marshal_line (?r\<lparr>rec_ID := j_nextID j + 1\<rparr>))"
    using j(1) demo_insert_fits by simp_all
  let ?old = "demo_server\<lparr>sv_targets := \<lparr>tg_live = ?s, tg_backup = None\<rparr>\<rparr>"
  have "moving (\<lambda>q. q) ?old = {#}"
    by (simp add: moving_def demo_server_def spawned_ids_def held_ids_def demo_coll_def NewCollector_def
        request_ids_def sends_def demo_live_def demo_ch_def)
  then have "system_inv (\<lambda>q. q) ?old"
    using ap(1) [OF f] demo_server_inv by (simp add: system_inv_def demo_server_def)
  moreover have "demo_record \<in> set (pending_recs (live ?old))"
    using ap(3) [OF f] by (simp add: demo_record_def)
  ultimately show ?thesis by blast
qed

lemma demo_record_text: "record_text demo_record = ''(1)''"
  by code_simp


end
