(* ===== verification/Shutdown.thy ===== *)
theory Shutdown
  imports Restart
begin

text \<open>
  Facts on the orderly end of the program: what is outstanding, when waiting for the workers ends,
  and that neither waiting nor \<open>SafeQuit\<close> nor the closing of the journal loses an insert.
\<close>

section \<open>Outstanding requests\<close>

text \<open>The wait group of a target counts the requests in its queue.\<close>

definition counted :: "('q \<Rightarrow> ClickhouseRequest list) \<Rightarrow> 'q worker \<Rightarrow> bool" where
  "counted items s = (ch_wg (wk_ch s) = int (length (sends items s)))"

definition both_counted :: "('q \<Rightarrow> ClickhouseRequest list) \<Rightarrow> 'q targets \<Rightarrow> bool" where
  "both_counted items t = (counted items (tg_live t) \<and> (case tg_backup t of None \<Rightarrow> True | Some b \<Rightarrow> counted items b))"

definition none_left :: "('q \<Rightarrow> ClickhouseRequest list) \<Rightarrow> 'q targets \<Rightarrow> bool" where
  "none_left items t = (sends items (tg_live t) = [] \<and> (case tg_backup t of None \<Rightarrow> True | Some b \<Rightarrow> sends items b = []))"

lemma counted_Send: "fifo_api Q items \<Longrightarrow> counted items s \<Longrightarrow> counted items (s_Send (worker_sender Q E) r s)"
  by (simp add: counted_def sends_def worker_sender_def Send_def fifo_api_def)

interpretation count: batch_queue "main_sender Q E E'"
  "\<lambda>t. fifo_api Q items \<and> both_counted items t \<and> requeued s (tg_live t)" "\<lambda>t. sends items (tg_live t)"
  for s
proof (unfold_locales, goal_cases)
  case (1 t r)
  then show ?case
    using counted_Send [of Q items] requeued_Send
    by (auto simp: main_sender_def Let_def both_counted_def split: option.splits)
next
  case (2 t r)
  then show ?case
    by (simp add: main_sender_def Let_def worker_sender_def Send_def sends_def fifo_api_def)
qed

lemma main_Empty:
  "fifo_api Q items \<Longrightarrow> s_Empty (main_sender Q E E') t = none_left items t"
  by (auto simp: main_sender_def worker_sender_def Let_def none_left_def sends_def fifo_api_def split: option.split)

section \<open>Waiting\<close>

lemma handleRequest_servers:
  assumes "handleRequest E r s = Some s'"
  shows "\<exists>ss. wk_ch s' = (wk_ch s)\<lparr>ch_Servers := ss\<rparr>"
  using assms
proof (cases rule: handleRequest_cases)
  case (sent q c w)
  with SendQuery_post [OF sent(1)] show ?thesis by (auto simp: send_post_def)
next
  case (dumped q c w s1)
  with SendQuery_post [OF dumped(1)] ch_Dump_frame [OF dumped(3)] show ?thesis by (auto simp: send_post_def)
next
  case (kept q c w e)
  with SendQuery_post [OF kept(1)] ch_Dump_frame [OF kept(3)] show ?thesis by (auto simp: send_post_def)
qed

text \<open>A turn of the worker takes one request from the queue and from the count.\<close>

lemma runStep_counts:
  assumes "fifo_api (Q :: 'q queue_api) items" "sends items s = r # rs" "counted items s" "\<And>(c :: 'q Clickhouse) w. SendQuery E r c w \<noteq> None"
  shows "\<exists>s'. runStep Q E s = Some s' \<and> sends items s' = rs \<and> counted items s'"
proof -
  obtain q' where q': "items q' = rs"
    "runStep Q E s = map_option wg_Done (handleRequest E r (s\<lparr>wk_ch := (wk_ch s)\<lparr>ch_Queue := q'\<rparr>\<rparr>))"
    using runStep_polled [OF assms(1), of s r rs] assms(2) by (auto simp: sends_def)
  let ?s = "s\<lparr>wk_ch := (wk_ch s)\<lparr>ch_Queue := q'\<rparr>\<rparr>"
  have "handleRequest E r ?s \<noteq> None" using handleRequest_returns assms(4) by blast
  then obtain s1 where s1: "handleRequest E r ?s = Some s1" by blast
  from handleRequest_servers [OF this] obtain ss where "wk_ch s1 = (wk_ch ?s)\<lparr>ch_Servers := ss\<rparr>" by blast
  with q' s1 assms(2,3) show ?thesis by (simp add: sends_def counted_def wg_Done_def)
qed

lemma waitFlush_drains:
  assumes "fifo_api (Q :: 'q queue_api) items" "counted items s" "\<And>r (c :: 'q Clickhouse) w. SendQuery E r c w \<noteq> None"
  shows "\<exists>s'. waitFlush Q E s = Some s' \<and> sends items s' = [] \<and> counted items s'"
  using assms(2)
proof (induction "length (sends items s)" arbitrary: s)
  case 0
  then have "waitFlush Q E s = Some s" by (subst waitFlush.simps) (simp add: counted_def)
  with 0 show ?case by simp
next
  case (Suc n)
  then obtain r rs where r: "sends items s = r # rs" by (cases "sends items s") auto
  obtain s1 where s1: "runStep Q E s = Some s1" "sends items s1 = rs" "counted items s1"
    using runStep_counts [OF assms(1) r Suc.prems assms(3)] by blast
  have "waitFlush Q E s = waitFlush Q E s1"
    using Suc.prems r s1(1) by (subst waitFlush.simps) (simp add: counted_def)
  with Suc.hyps(1) [of s1] Suc.hyps(2) r s1(2,3) show ?case by simp
qed

lemma waitTargets_drains:
  assumes "fifo_api (Q :: 'q queue_api) items" "both_counted items t" "\<And>r (c :: 'q Clickhouse) w. SendQuery E r c w \<noteq> None" "\<And>r (c :: 'q Clickhouse) w. SendQuery E' r c w \<noteq> None"
  shows "\<exists>t'. waitTargets Q E E' t = Some t' \<and> none_left items t'"
proof -
  have "counted items (tg_live t)" using assms(2) by (simp add: both_counted_def)
  from waitFlush_drains [OF assms(1) this assms(3)] obtain l where l: "waitFlush Q E (tg_live t) = Some l" "sends items l = []" by blast
  show ?thesis
  proof (cases "tg_backup t")
    case None
    with l show ?thesis by (simp add: waitTargets_def none_left_def)
  next
    case (Some b)
    then have "counted items b" using assms(2) by (simp add: both_counted_def)
    from waitFlush_drains [OF assms(1) this assms(4)] l Some show ?thesis by (auto simp: waitTargets_def none_left_def)
  qed
qed

section \<open>The end of the program\<close>

lemma server_now_fields:
  "server_now E sv = (env_clock E (w_ticks (wk_world (live sv))),
     with_live (\<lambda>s. s\<lparr>wk_world := (wk_world (live sv))\<lparr>w_ticks := w_ticks (wk_world (live sv)) + 1\<rparr>\<rparr>) sv)"
  by (simp add: server_now_def time_Now_def with_live_def)

text \<open>The state after the first flush, and the second reading of the clock.\<close>

lemma SafeQuit_flush:
  assumes "fifo_api Q items" "both_counted items (sv_targets sv)" "coll_ok (sv_Collector sv)"
  obtains sv1 where "collector_Empty (sv_Collector sv1)" "both_counted items (sv_targets sv1)"
    "prefix (sends items (live sv)) (sends items (live sv1))"
    "w_ticks (wk_world (live sv1)) = w_ticks (wk_world (live sv)) + 1"
    "ch_Servers (wk_ch (live sv1)) = ch_Servers (wk_ch (live sv))" "ch_DownTimeout (wk_ch (live sv1)) = ch_DownTimeout (wk_ch (live sv))"
    "SafeQuit Q E E' d sv = drainLoop Q E E' (env_clock E (w_ticks (wk_world (live sv))) + duration_mult second (if d \<le> 0 then 60 else d)) sv1"
proof -
  let ?sv = "snd (server_now E sv)"
  have f: "sv_Collector ?sv = sv_Collector sv" "sends items (live ?sv) = sends items (live sv)"
    "w_ticks (wk_world (live ?sv)) = w_ticks (wk_world (live sv)) + 1" "wk_ch (live ?sv) = wk_ch (live sv)"
    "tg_backup (sv_targets ?sv) = tg_backup (sv_targets sv)"
    by (simp_all add: server_now_fields with_live_def sends_def)
  have bc: "both_counted items (sv_targets ?sv)"
    using assms(2) f(2,4,5) by (simp add: both_counted_def counted_def)
  have fr: "fifo_api Q items \<and> both_counted items (sv_targets ?sv) \<and> requeued (live ?sv) (tg_live (sv_targets ?sv))"
    using assms(1) bc requeued_refl by blast
  obtain n c t where fl: "FlushAll (main_sender Q E E') (sv_Collector ?sv) (sv_targets ?sv) = Some (n, c, t)"
    "both_counted items t" "requeued (live ?sv) (tg_live t)" "collector_Empty c" "prefix (sends items (live ?sv)) (sends items (tg_live t))"
    using count.FlushAll_sends [OF fr, of "sv_Collector ?sv" E E'] assms(3) f(1) by auto
  show ?thesis
    by (rule that [of "?sv\<lparr>sv_Collector := c, sv_targets := t\<rparr>"])
      (use fl f in \<open>auto simp: SafeQuit_def flush_collector_def Let_def requeued_def server_now_fields\<close>)
qed

section \<open>What the end keeps\<close>

text \<open>The invariant holds again, and an insert that was safe is safe.\<close>

definition kept :: "('q \<Rightarrow> ClickhouseRequest list) \<Rightarrow> journalRecord \<Rightarrow> string \<Rightarrow> 'q Server \<Rightarrow> 'q Server \<Rightarrow> bool" where
  "kept items k x sv sv' = (system_inv items sv' \<and> (insert_safe items k x sv \<longrightarrow> insert_safe items k x sv'))"

lemma kept_refl: "system_inv items sv \<Longrightarrow> kept items k x sv sv"
  by (simp add: kept_def)

lemma kept_trans: "kept items k x sv sv1 \<Longrightarrow> kept items k x sv1 sv2 \<Longrightarrow> kept items k x sv sv2"
  by (simp add: kept_def)

lemma kept_inv: "kept items k x sv sv' \<Longrightarrow> system_inv items sv'"
  by (simp add: kept_def)

lemma with_live_twice [simp]: "with_live f (with_live g sv) = with_live (\<lambda>s. f (g s)) sv"
  by (simp add: with_live_def)

lemma with_live_id [simp]: "with_live (\<lambda>_. live sv) sv = sv"
  by (simp add: with_live_def)

text \<open>A turn of the worker takes at most one request and adds none.\<close>

lemma runStep_sends:
  assumes "fifo_api (Q :: 'q queue_api) items" "runStep Q E s = Some s'"
  shows "set (sends items s') \<subseteq> set (sends items s)"
proof (cases "sends items s")
  case Nil
  then show ?thesis using assms by (auto simp: sends_def runStep_def fifo_api_def)
next
  case (Cons r rs)
  obtain q' where q': "items q' = rs"
    "runStep Q E s = map_option wg_Done (handleRequest E r (s\<lparr>wk_ch := (wk_ch s)\<lparr>ch_Queue := q'\<rparr>\<rparr>))"
    using runStep_polled [OF assms(1), of s r rs] Cons unfolding sends_def by metis
  let ?s = "s\<lparr>wk_ch := (wk_ch s)\<lparr>ch_Queue := q'\<rparr>\<rparr>"
  obtain s1 where s1: "handleRequest E r ?s = Some s1" "s' = wg_Done s1"
    using assms(2) unfolding q'(2) by auto
  from handleRequest_servers [OF s1(1)] s1(2) q'(1) Cons show ?thesis by (auto simp: sends_def wg_Done_def)
qed

lemmas waitFlush_induct [consumes 1, case_names step] = waitFlush.raw_induct [rotated]

lemma waitFlush_keeps:
  assumes "waitFlush (Q :: 'q queue_api) E s = Some s'" "fifo_api Q items" "system_inv items sv" "live sv = s"
    and "list_all dumpable (sends items s)"
  shows "kept items k x sv (with_live (\<lambda>_. s') sv)"
  using assms
proof (induction arbitrary: sv rule: waitFlush_induct)
  case (step wf Q E s s')
  show ?case
  proof (cases "ch_wg (wk_ch s) \<le> 0")
    case True
    with step.hyps step.prems show ?thesis by (auto simp: kept_refl)
  next
    case False
    with step.hyps obtain s1 where s1: "runStep Q E s = Some s1" "wf Q E s1 = Some s'" by (auto split: option.splits)
    have k1: "kept items k x sv (with_live (\<lambda>_. s1) sv)"
      using worker_keeps [OF step.prems(1,2), unfolded step.prems(3), OF step.prems(4) s1(1)] by (simp add: kept_def)
    have "list_all dumpable (sends items s1)"
      using runStep_sends [OF step.prems(1) s1(1)] step.prems(4) by (auto simp: list_all_iff)
    from step.IH [OF s1(2) step.prems(1) kept_inv [OF k1] _ this] have "kept items k x (with_live (\<lambda>_. s1) sv) (with_live (\<lambda>_. s') sv)"
      by simp
    with k1 show ?thesis by (rule kept_trans)
  qed
qed

lemma waitTargets_keeps:
  assumes "waitTargets (Q :: 'q queue_api) E E' (sv_targets sv) = Some t" "fifo_api Q items" "system_inv items sv"
    and "list_all dumpable (sends items (live sv))"
  shows "kept items k x sv (sv\<lparr>sv_targets := t\<rparr>)"
proof -
  obtain l where l: "waitFlush Q E (live sv) = Some l"
    "t = (sv_targets sv)\<lparr>tg_live := l\<rparr> \<or> (\<exists>b. t = (sv_targets sv)\<lparr>tg_live := l, tg_backup := Some b\<rparr>)"
    using assms(1) by (auto simp: waitTargets_def split: option.splits)
  note k = waitFlush_keeps [OF l(1) assms(2,3) refl assms(4), of k x]
  from l(2) have "sv\<lparr>sv_targets := t\<rparr> = with_live (\<lambda>_. l) sv
      \<or> (\<exists>b. sv\<lparr>sv_targets := t\<rparr> = with_backup b (with_live (\<lambda>_. l) sv))"
    by (auto simp: with_live_def with_backup_def)
  with k backup_keeps [where items = items] show ?thesis by (auto simp: kept_def)
qed

lemma now_keeps: "system_inv items sv \<Longrightarrow> kept items k x sv (snd (server_now E sv))"
proof -
  assume inv: "system_inv items sv"
  let ?s = "(live sv)\<lparr>wk_world := (wk_world (live sv))\<lparr>w_ticks := w_ticks (wk_world (live sv)) + 1\<rparr>\<rparr>"
  have "target_inv ?s" "pending_recs ?s = pending_recs (live sv)" "arrived x (live sv) \<Longrightarrow> arrived x ?s"
    using inv by (auto simp: system_inv_def target_inv_def pending_recs_def arrived_def posted_def)
  from system_live [OF inv this(1,2) _ this(3)] have "kept items k x sv (with_live (\<lambda>_. ?s) sv)" by (simp add: kept_def)
  moreover have "snd (server_now E sv) = with_live (\<lambda>_. ?s) sv"
    by (simp add: server_now_fields with_live_def)
  ultimately show ?thesis by simp
qed

text \<open>The requests that are queued, and those a flush would queue, can be read back from a dump.\<close>

definition all_dumpable :: "('q \<Rightarrow> ClickhouseRequest list) \<Rightarrow> 'q Server \<Rightarrow> bool" where
  "all_dumpable items sv = (list_all dumpable (sends items (live sv))
     \<and> list_all (\<lambda>(_, t). dumpable (table_request t)) (c_Tables (sv_Collector sv)))"

lemma flush_keeps:
  assumes "flush_collector (Q :: 'q queue_api) E E' sv = Some sv'" "fifo_api Q items" "system_inv items sv" "all_dumpable items sv"
    and "x \<noteq> []"
  shows "kept items k x sv sv'" "collector_Empty (sv_Collector sv')" "list_all dumpable (sends items (live sv'))"
    "sv_spawned sv' = sv_spawned sv"
proof -
  have st: "sys_step cd Q E E' SysFlushAll sv = Some sv'" for cd using assms(1) by (simp add: flush_collector_def)
  from sys_step_keeps [OF assms(2,3) _ st assms(5)] show "kept items k x sv sv'" by (simp add: kept_def)
  have fr: "fifo_api Q items \<and> requeued (live sv) (tg_live (sv_targets sv))" using assms(2) requeued_refl by blast
  have "coll_ok (sv_Collector sv)" using assms(3) by (simp add: system_inv_def)
  from main.FlushAll_sends [OF fr this, of E E'] assms(1)
  have f: "collector_Empty (sv_Collector sv')" "sv_spawned sv' = sv_spawned sv"
    "sends items (live sv') = sends items (live sv)
      @ map (table_request \<circ> snd) (filter (\<lambda>(k, t). t_Rows t \<noteq> []) (c_Tables (sv_Collector sv)))"
    by (auto simp: flush_collector_def)
  show "collector_Empty (sv_Collector sv')" "sv_spawned sv' = sv_spawned sv" using f(1,2) by simp_all
  show "list_all dumpable (sends items (live sv'))"
    using assms(4) f(3) by (auto simp: all_dumpable_def list_all_iff)
qed

lemmas drainLoop_induct [consumes 1, case_names step] = drainLoop.raw_induct [rotated]

lemma waitFlush_sends:
  assumes "waitFlush (Q :: 'q queue_api) E s = Some s'" "fifo_api Q items"
  shows "set (sends items s') \<subseteq> set (sends items s)"
  using assms
proof (induction rule: waitFlush_induct)
  case (step wf Q E s s')
  show ?case
  proof (cases "ch_wg (wk_ch s) \<le> 0")
    case True
    with step.hyps show ?thesis by simp
  next
    case False
    with step.hyps obtain s1 where s1: "runStep Q E s = Some s1" "wf Q E s1 = Some s'" by (auto split: option.splits)
    from step.IH [OF s1(2) step.prems] runStep_sends [OF step.prems s1(1)] show ?thesis by simp
  qed
qed

lemma waitTargets_sends:
  assumes "waitTargets (Q :: 'q queue_api) E E' t = Some t'" "fifo_api Q items"
  shows "set (sends items (tg_live t')) \<subseteq> set (sends items (tg_live t))"
proof -
  obtain l where "waitFlush Q E (tg_live t) = Some l" "tg_live t' = l"
    using assms(1) by (auto simp: waitTargets_def split: option.splits)
  with waitFlush_sends [OF _ assms(2)] show ?thesis by blast
qed

lemma now_fields [simp]:
  "sv_Collector (snd (server_now E sv)) = sv_Collector sv" "sv_spawned (snd (server_now E sv)) = sv_spawned sv"
  "sends items (live (snd (server_now E sv))) = sends items (live sv)"
  by (simp_all add: server_now_fields with_live_def sends_def)

lemma drainLoop_keeps:
  assumes "drainLoop (Q :: 'q queue_api) E E' dl sv = Some sv'" "fifo_api Q items" "system_inv items sv"
    and "collector_Empty (sv_Collector sv)" "list_all dumpable (sends items (live sv))"
  shows "kept items k x sv sv' \<and> sv_spawned sv' = sv_spawned sv"
  using assms
proof (induction rule: drainLoop_induct)
  case (step loop Q E E' dl sv sv')
  let ?sv = "snd (server_now E sv)"
  note n = now_keeps [OF step.prems(2), of k x E]
  show ?case
  proof (cases "drained Q E E' sv \<or> dl < fst (server_now E sv)")
    case True
    with step.hyps have "sv' = sv \<or> sv' = ?sv" by (cases "server_now E sv") (auto split: if_splits)
    with n step.prems(2) show ?thesis by (auto simp: kept_refl)
  next
    case False
    with step.hyps step.prems(3) obtain t where t: "waitTargets Q E E' (sv_targets ?sv) = Some t"
      "loop Q E E' dl (?sv\<lparr>sv_targets := t\<rparr>) = Some sv'"
      by (cases "server_now E sv") (auto split: option.splits dest: arg_cong [where f = "\<lambda>p. sv_Collector (snd p)"])
    have w: "kept items k x ?sv (?sv\<lparr>sv_targets := t\<rparr>)"
      by (rule waitTargets_keeps [OF t(1) step.prems(1) kept_inv [OF n]]) (use step.prems(4) in simp)
    have "list_all dumpable (sends items (live (?sv\<lparr>sv_targets := t\<rparr>)))"
      using waitTargets_sends [OF t(1) step.prems(1)] step.prems(4) by (auto simp: list_all_iff)
    from step.IH [OF t(2) step.prems(1) kept_inv [OF w] _ this] step.prems(3)
    have "kept items k x (?sv\<lparr>sv_targets := t\<rparr>) sv' \<and> sv_spawned sv' = sv_spawned sv" by simp
    with n w show ?thesis by (meson kept_trans)
  qed
qed

lemma SafeQuit_keeps:
  assumes "SafeQuit (Q :: 'q queue_api) E E' d sv = Some sv'" "fifo_api Q items" "system_inv items sv" "all_dumpable items sv" "x \<noteq> []"
  shows "kept items k x sv sv' \<and> sv_spawned sv' = sv_spawned sv"
proof -
  let ?sv = "snd (server_now E sv)"
  note n = now_keeps [OF assms(3), of k x E]
  obtain sv1 dl where f: "flush_collector Q E E' ?sv = Some sv1" "drainLoop Q E E' dl sv1 = Some sv'"
    using assms(1) by (cases "server_now E sv") (auto simp: SafeQuit_def Let_def split: option.splits)
  have "all_dumpable items ?sv" using assms(4) by (simp add: all_dumpable_def)
  note k = flush_keeps [OF f(1) assms(2) kept_inv [OF n] this assms(5)]
  from drainLoop_keeps [OF f(2) assms(2) kept_inv [OF k(1)] k(2,3), of k x] n k(1) [of k] k(4) show ?thesis
    by (simp add: kept_def)
qed

section \<open>The closed journal\<close>

lemma shutDown_effect:
  assumes "shutDown (Q :: 'q queue_api) E E' cnf sv = Some sv'" "fifo_api Q items" "system_inv items sv" "all_dumpable items sv"
    and "x \<noteq> []" "insert_safe items k x sv"
  shows "arrived x (live sv') \<or> (\<exists>recs. leaves (wk_jdir (live sv')) recs \<and> k \<in> set recs)"
proof -
  obtain sv1 where q: "SafeQuit Q E E' (cf_ShutdownDrainSec cnf) sv = Some sv1"
    "sv' = with_live (shutdownJournal (fst (server_now E sv1))) (snd (server_now E sv1))"
    using assms(1) by (auto simp: shutDown_def split: option.splits prod.splits)
  let ?sv = "snd (server_now E sv1)" and ?now = "fst (server_now E sv1)"
  from SafeQuit_keeps [OF q(1) assms(2-5), of k] now_keeps [of items sv1 k x E] assms(6)
  have s: "system_inv items ?sv" "insert_safe items k x ?sv" by (auto simp: kept_def)
  have l: "live sv' = shutdownJournal ?now (live ?sv)" by (simp add: q(2))
  show ?thesis
  proof (cases "arrived x (live ?sv)")
    case True
    then have "arrived x (live sv')"
      unfolding l by (simp add: arrived_def shutdownJournal_def split: option.split prod.split)
    then show ?thesis ..
  next
    case False
    with s have "k \<in> set (pending_recs (live ?sv))" "target_inv (live ?sv)"
      by (auto simp: insert_safe_def system_inv_def)
    with closed_leaves l show ?thesis by metis
  qed
qed

section \<open>A request that the worker has taken\<close>

text \<open>A turn of the worker takes a request from the queue, and then handles it.\<close>

definition pollStep :: "'q queue_api \<Rightarrow> 'q worker \<Rightarrow> (ClickhouseRequest \<times> 'q worker) option" where
  "pollStep Q s = (case q_Poll Q 1 (ch_Queue (wk_ch s)) of
     Some (data # _, q) \<Rightarrow> Some (data, s\<lparr>wk_ch := (wk_ch s)\<lparr>ch_Queue := q\<rparr>\<rparr>)
   | _ \<Rightarrow> None)"

lemma runStep_poll:
  "pollStep Q s = Some (r, s') \<Longrightarrow> runStep Q E s = map_option wg_Done (handleRequest E r s')"
  by (auto simp: pollStep_def runStep_def split: option.splits list.splits)

lemma flush_nothing:
  assumes "collector_Empty c"
  shows "FlushAll S c s = Some (0, c, s)"
proof -
  have "flushTables S ts s = Some (0, ts, s)" if "list_all (\<lambda>(k, t). table_Empty t) ts" for ts
    using that by (induction ts) (auto simp: CheckFlush_def table_Empty_def)
  with assms show ?thesis by (simp add: FlushAll_def collector_Empty_def)
qed

lemma flush_collector_nothing: "collector_Empty (sv_Collector x) \<Longrightarrow> flush_collector Q E E' x = Some x"
  by (simp add: flush_collector_def flush_nothing)

text \<open>With nothing in tables and queues, the end does not wait for anything.\<close>

lemma SafeQuit_at_once:
  assumes "fifo_api Q items" "collector_Empty (sv_Collector sv)" "none_left items (sv_targets (snd (server_now E sv)))"
  shows "SafeQuit Q E E' d sv = Some (snd (server_now E sv))"
proof -
  let ?sv = "snd (server_now E sv)"
  have "drained Q E E' ?sv" using assms(2,3) by (simp add: drained_def main_Empty [OF assms(1)])
  then have "drainLoop Q E E' dl ?sv = Some ?sv" for dl by (subst drainLoop.simps) simp
  moreover have "flush_collector Q E E' ?sv = Some ?sv"
    by (rule flush_collector_nothing) (use assms(2) in simp)
  ultimately show ?thesis by (cases "server_now E sv") (simp add: SafeQuit_def)
qed

end
