(* ===== verification/Shutdown_Props.thy ===== *)
theory Shutdown_Props
  imports Shutdown Restart_Props
begin

text \<open>
  The orderly end of the program: what it keeps, when it ends with nothing left, when it does not
  wait, and when it never ends.
\<close>

section \<open>Nothing is lost\<close>

text \<open>
  An insert answered 200 survives an orderly end and a new start: whatever the program did in
  between, when \<open>SafeQuit\<close> and the closing of the journal have returned (and however ClickHouse and
  the dumps behaved meanwhile), a dump holds its text, or ClickHouse has accepted a request with
  it, or the next process, started on the same journal, comes up with its record and has its
  number exactly once in its tables and its queue.
\<close>

theorem insert_survives_orderly_restart:
  assumes "fifo_api (Q :: 'q queue_api) items" "system_inv items sv" "sys_guard cd items (SysRequest rq) sv"
    and "writeHandler cd Q E E' rq sv = Some (rep, sv1)" "sv_spawned sv1 = sv_spawned sv @ [g]" "spawned_text g \<noteq> []"
    and "sys_reach cd Q E E' items sv1 sv2" "all_dumpable items sv2" "shutDown Q E E' cnf sv2 = Some sv3"
    and "sr_jdir sr = wk_jdir (live sv3)" "items (sr_queue sr) = []" "cf_JournalEnabled cnf'"
    and "0 \<le> cf_FlushCount cnf'" "0 < duration_mult millisecond (cf_FlushInterval cnf')"
    and "dumps_ok (fresh_dumper cnf' (sr_stamp sr)) (sr_disk sr)" "[] \<notin> set (cc_Servers (cf_Clickhouse cnf'))"
  shows "(\<exists>d. wk_dumper (live sv3) = Some d \<and> stored (spawned_text g) d (wk_disk (live sv3)))
    \<or> posted (spawned_text g) (wk_world (live sv3))
    \<or> (\<exists>r sv4. plan_record (plan_of cd rq sv) = Some r \<and> startUp Q E E' cnf' sr = Some sv4
        \<and> json_reread (r\<lparr>rec_ID := spawned_id g\<rparr>) \<in> set (pending_recs (live sv4))
        \<and> count (held_ids (sv_Collector sv4) + request_ids (sends items (live sv4))) (spawned_id g) = 1)"
proof -
  have p: "run_plan Q E E' (plan_of cd rq sv) sv = Some (rep, sv1)" using assms(4) by (simp add: handler_plan)
  have fits: "case plan_record (plan_of cd rq sv) of None \<Rightarrow> True | Some r \<Rightarrow> record_fits r (live sv)"
    using assms(3) by simp
  obtain r where r: "plan_record (plan_of cd rq sv) = Some r"
    "insert_safe items (json_reread (r\<lparr>rec_ID := spawned_id g\<rparr>)) (spawned_text g) sv1"
    using plan_keeps(3) [OF p assms(2) fits assms(5)] by blast
  let ?k = "json_reread (r\<lparr>rec_ID := spawned_id g\<rparr>)"
  have "system_inv items sv1" by (rule plan_keeps(1) [OF p assms(2) fits])
  from sys_reach_keeps [OF assms(7,1) this assms(6) r(2)]
  have s2: "system_inv items sv2" "insert_safe items ?k (spawned_text g) sv2" by blast+
  show ?thesis
  proof (cases "arrived (spawned_text g) (live sv3)")
    case True
    then show ?thesis by (auto simp: arrived_def)
  next
    case False
    with shutDown_effect [OF assms(9,1) s2(1) assms(8,6) s2(2)] obtain recs where
      l: "leaves (sr_jdir sr) recs" "?k \<in> set recs" using assms(10) by auto
    from startUp_requeues [OF assms(1) l assms(11-16), of E E'] r(1) show ?thesis by auto
  qed
qed

theorem insert_survives_orderly_restart_witness:
  "\<exists>sv1 sv3. writeHandler demo_codecs list_queue demo_env demo_env demo_insert demo_server
       = Some (Some (string_reply 200 []), sv1)
     \<and> shutDown list_queue demo_env demo_env demo_conf sv1 = Some sv3
     \<and> ((\<exists>d. wk_dumper (live sv3) = Some d \<and> stored ''(1)'' d (wk_disk (live sv3)))
        \<or> posted ''(1)'' (wk_world (live sv3))
        \<or> (\<exists>sv4. startUp list_queue demo_env demo_env demo_conf (demo_start sv3) = Some sv4
            \<and> count (held_ids (sv_Collector sv4) + request_ids (sends (\<lambda>q. q) (live sv4))) 1 = 1))"
proof -
  let ?E = demo_env and ?g = "SpawnPush demo_params ''(1)'' 1"
  obtain sv1 where sv1: "writeHandler demo_codecs list_queue ?E ?E demo_insert demo_server = Some (Some (string_reply 200 []), sv1)"
    "sv_spawned sv1 = [?g]" "sv_Collector sv1 = demo_coll" "ch_Queue (wk_ch (live sv1)) = []" "tg_backup (sv_targets sv1) = None"
    using demo_accepts by blast
  have "record_fits (text_record 0 demo_params ''(1)'') demo_live"
    using demo_insert_fits by (simp add: record_fits_def demo_live_def demo_def)
  then have guard: "sys_guard demo_codecs (\<lambda>q. q) (SysRequest demo_insert) demo_server"
    by (simp add: demo_plan) (simp add: demo_server_def)
  have g: "sv_spawned sv1 = sv_spawned demo_server @ [?g]" "spawned_text ?g \<noteq> []"
    using sv1(2) by (simp_all add: demo_server_def)
  have e: "collector_Empty (sv_Collector sv1)" "none_left (\<lambda>q. q) (sv_targets (snd (server_now ?E sv1)))"
    "all_dumpable (\<lambda>q. q) sv1"
    using sv1(3-5) by (simp_all add: demo_coll_def NewCollector_def collector_Empty_def none_left_def all_dumpable_def sends_def
        server_now_fields with_live_def)
  have "shutDown list_queue ?E ?E demo_conf sv1 \<noteq> None"
    using SafeQuit_at_once [OF list_queue_fifo e(1,2)] by (simp add: shutDown_def split: prod.split)
  then obtain sv3 where sv3: "shutDown list_queue ?E ?E demo_conf sv1 = Some sv3" by blast
  from insert_survives_orderly_restart [OF list_queue_fifo demo_server_inv guard sv1(1) g sys_reach.here e(3) sv3
      demo_start_ok(1) _ demo_start_ok(3-)] sv1(1) sv3 demo_start_ok(2)
  show ?thesis by (auto simp: demo_plan)
qed

section \<open>When the end returns\<close>


text \<open>
  \<open>shutdown_drain_sec\<close> does not bound the end of the program: the deadline is looked at between
  rounds only, and a round waits for the workers. With a request in the queue and every server failing
  more slowly than the down time, \<open>SafeQuit\<close> never returns, and the journal is not closed.
\<close>

theorem safe_quit_can_hang:
  assumes "fifo_api Q items" "both_counted items (sv_targets sv)" "coll_ok (sv_Collector sv)" "sends items (live sv) \<noteq> []"
    and "w_ticks (wk_world (live sv)) = n"
    and "env_clock E (n + 1) \<le> env_clock E n + duration_mult second (if d \<le> 0 then 60 else d)"
    and "all_down_slow E (ch_DownTimeout (wk_ch (live sv))) (n + 2)" "stale E (wk_ch (live sv)) (n + 2)"
  shows "SafeQuit Q E E' d sv = None"
proof -
  let ?dl = "env_clock E n + duration_mult second (if d \<le> 0 then 60 else d)"
  obtain sv1 where sv1: "collector_Empty (sv_Collector sv1)" "both_counted items (sv_targets sv1)"
    "prefix (sends items (live sv)) (sends items (live sv1))" "w_ticks (wk_world (live sv1)) = n + 1"
    "ch_Servers (wk_ch (live sv1)) = ch_Servers (wk_ch (live sv))" "ch_DownTimeout (wk_ch (live sv1)) = ch_DownTimeout (wk_ch (live sv))"
    "SafeQuit Q E E' d sv = drainLoop Q E E' ?dl sv1"
    using SafeQuit_flush [OF assms(1-3), of E E' d] assms(5) by metis
  obtain r rs where r: "sends items (live sv1) = r # rs" using sv1(3) assms(4) by (cases "sends items (live sv1)") auto
  let ?sv = "snd (server_now E sv1)" and ?s = "live (snd (server_now E sv1))"
  have s: "sends items ?s = r # rs" "wk_ch ?s = wk_ch (live sv1)" "w_ticks (wk_world ?s) = n + 2" "0 < ch_wg (wk_ch ?s)"
    using r sv1(2,4) by (simp_all add: server_now_fields sends_def both_counted_def counted_def)
  obtain q' where q': "runStep Q E ?s = map_option wg_Done (handleRequest E r (?s\<lparr>wk_ch := (wk_ch ?s)\<lparr>ch_Queue := q'\<rparr>\<rparr>))"
    using runStep_polled [OF assms(1) s(1) [unfolded sends_def], of E] by blast
  have "SendQuery E r ((wk_ch ?s)\<lparr>ch_Queue := q'\<rparr>) (wk_world ?s) = None"
    using sendLoop_diverges [of E "(wk_ch ?s)\<lparr>ch_Queue := q'\<rparr>" "wk_world ?s"] assms(7,8) s(2,3) sv1(5,6)
    by (simp add: SendQuery_def stale_def)
  then have "runStep Q E ?s = None" using q' by (simp add: handleRequest_def)
  then have "waitFlush Q E ?s = None" using s(4) by (subst waitFlush.simps) simp
  then have w: "waitTargets Q E E' (sv_targets ?sv) = None" by (simp add: waitTargets_def)
  have nd: "\<not> drained Q E E' sv1" using r main_Empty [OF assms(1), of E E'] by (simp add: drained_def none_left_def)
  have nl: "\<not> ?dl < env_clock E (n + 1)" using assms(6) by simp
  have "sv_Collector ?sv = sv_Collector sv1" by (simp add: server_now_fields with_live_def)
  then have "drainLoop Q E E' ?dl sv1 = None"
    using nd nl w sv1(1,4) by (subst drainLoop.simps) (simp add: server_now_fields)
  with sv1(7) show ?thesis by simp
qed

lemma up_returns:
  assumes "\<And>n url ct body. env_post E n url ct body = HttpReply 200 b hs"
  shows "SendQuery E r c w \<noteq> None"
proof -
  have p: "rp_err (fst (server_SendQuery E r s w)) = None" for r s w
    using assms by (auto simp: server_SendQuery_def http_Post_def Let_def)
  have "sendLoop E r c w \<noteq> None" for r
  proof -
    obtain i c1 w1 where g: "GetNextServer E c w = (i, c1, w1)" by (metis prod_cases3)
    show ?thesis
    proof (cases i)
      case None
      with g show ?thesis by (subst sendLoop.simps) simp
    next
      case (Some k)
      obtain q s w2 where q: "server_SendQuery E r (ch_Servers c1 ! k) w1 = (q, s, w2)" by (metis prod_cases3)
      then have "rp_err q = None" using p [of r "ch_Servers c1 ! k" w1] by simp
      with g Some q show ?thesis by (subst sendLoop.simps) simp
    qed
  qed
  then show ?thesis by (simp add: SendQuery_def)
qed

text \<open>The demo program with a request in its queue, a world that accepts all, and one that fails slowly.\<close>

definition demo_busy :: "string \<Rightarrow> ClickhouseRequest list Server" where
  "demo_busy url = with_live (\<lambda>s. s\<lparr>wk_ch := (demo_ch [url])\<lparr>ch_DownTimeout := 5, ch_wg := 1\<rparr>\<rparr>) demo_server"

definition up_env :: env where
  "up_env = \<lparr>env_clock = (\<lambda>n. (1000 + int n) * second), env_post = (\<lambda>n url ct body. HttpReply 200 [] [])\<rparr>"

lemma demo_busy_fields: "coll_ok (sv_Collector (demo_busy url))" "both_counted (\<lambda>q. q) (sv_targets (demo_busy url))"
  "sends (\<lambda>q. q) (live (demo_busy url)) = [demo_request]" "w_ticks (wk_world (live (demo_busy url))) = 0"
  "ch_DownTimeout (wk_ch (live (demo_busy url))) = 5"
  "ch_Servers (wk_ch (live (demo_busy url))) = [\<lparr>srv_URL = url, srv_LastRequest = 0, srv_Bad = False, srv_LogQueries = False\<rparr>]"
  using demo_coll_ok(1)
  by (simp_all add: demo_busy_def demo_server_def with_live_def demo_live_def demo_world_def both_counted_def counted_def
      sends_def demo_ch_def AddServer_def NewClickhouse_def)


theorem safe_quit_can_hang_witness:
  "SafeQuit list_queue slow_env slow_env 60 (demo_busy ''a'') = None"
proof (rule safe_quit_can_hang [OF list_queue_fifo demo_busy_fields(2,1) _ demo_busy_fields(4)])
  have d: "duration_mult second 5 = 5 * second" "duration_mult second 60 = 60 * second"
    by (simp_all add: duration_mult_exact second_def max_duration_def)
  show "sends (\<lambda>q. q) (live (demo_busy ''a'')) \<noteq> []" by (simp add: demo_busy_fields)
  show "env_clock slow_env (0 + 1) \<le> env_clock slow_env 0 + duration_mult second (if (60 :: int) \<le> 0 then 60 else 60)"
    by (simp add: slow_env_def d) (simp add: second_def)
  have "Suc (2 * m) div 2 = m" "Suc (Suc (2 * m)) div 2 = Suc m" "m div 2 \<le> Suc m div 2" for m :: nat
    by (simp_all add: div_le_mono)
  then show "all_down_slow slow_env (ch_DownTimeout (wk_ch (live (demo_busy ''a'')))) (0 + 2)"
    by (simp add: all_down_slow_def d demo_busy_fields slow_env_def max_duration_def) (simp add: second_def)
  show "stale slow_env (wk_ch (live (demo_busy ''a''))) (0 + 2)" by (simp add: stale_def demo_busy_fields)
qed

text \<open>
  C20. \<open>SafeQuit\<close> does not wait for a request that the worker has taken from the queue and not finished:
  it looks at queues and tables alone, finds them empty and returns, with the count of outstanding requests at 1.
  The request was neither posted nor dumped nor acknowledged; the process then closes the journal and exits.
\<close>

theorem safe_quit_abandons_request:
  assumes "fifo_api (Q :: 'q queue_api) items" "both_counted items (sv_targets sv)" "collector_Empty (sv_Collector sv)"
    and "sends items (live sv) = [r]" "case tg_backup (sv_targets sv) of None \<Rightarrow> True | Some b \<Rightarrow> sends items b = []"
    and "pollStep Q (live sv) = Some (r', s)"
  shows "r' = r \<and> runStep Q E (live sv) = map_option wg_Done (handleRequest E r s)
    \<and> (\<exists>sv'. SafeQuit Q E E' d (with_live (\<lambda>_. s) sv) = Some sv' \<and> ch_wg (wk_ch (live sv')) = 1
        \<and> w_log (wk_world (live sv')) = w_log (wk_world (live sv)) \<and> wk_disk (live sv') = wk_disk (live sv)
        \<and> wk_jdir (live sv') = wk_jdir (live sv))"
proof -
  obtain q' where q': "q_Poll Q 1 (ch_Queue (wk_ch (live sv))) = Some ([r], q')" "items q' = []"
    using assms(1,4) unfolding fifo_api_def sends_def by blast
  then have s: "r' = r" "s = (live sv)\<lparr>wk_ch := (wk_ch (live sv))\<lparr>ch_Queue := q'\<rparr>\<rparr>"
    using assms(6) by (simp_all add: pollStep_def)
  let ?sv = "snd (server_now E (with_live (\<lambda>_. s) sv))"
  have "none_left items (sv_targets ?sv)"
    using s(2) q'(2) assms(5) by (simp add: none_left_def server_now_fields with_live_def sends_def)
  from SafeQuit_at_once [OF assms(1) _ this] assms(3)
  have "SafeQuit Q E E' d (with_live (\<lambda>_. s) sv) = Some ?sv" by (simp add: with_live_def)
  moreover have "ch_wg (wk_ch (live ?sv)) = 1"
    using assms(2,4) s(2) by (simp add: server_now_fields with_live_def both_counted_def counted_def)
  ultimately show ?thesis
    using s runStep_poll [OF assms(6)] by (simp add: server_now_fields with_live_def)
qed

theorem safe_quit_abandons_request_witness:
  "\<exists>s sv'. pollStep list_queue (live (demo_busy ''b'')) = Some (demo_request, s)
    \<and> SafeQuit list_queue up_env up_env 60 (with_live (\<lambda>_. s) (demo_busy ''b'')) = Some sv'
    \<and> ch_wg (wk_ch (live sv')) = 1 \<and> w_log (wk_world (live sv')) = []"
proof -
  have "collector_Empty (sv_Collector (demo_busy ''b''))" "tg_backup (sv_targets (demo_busy ''b'')) = None"
    "w_log (wk_world (live (demo_busy ''b''))) = []"
    by (simp_all add: demo_busy_def demo_server_def with_live_def demo_coll_def NewCollector_def collector_Empty_def
        demo_live_def demo_world_def)
  note e = this
  obtain s where s: "pollStep list_queue (live (demo_busy ''b'')) = Some (demo_request, s)"
    using demo_busy_fields(3) [of "''b''"] by (auto simp: pollStep_def list_queue_def sends_def)
  from safe_quit_abandons_request [OF list_queue_fifo demo_busy_fields(2) e(1) demo_busy_fields(3) _ s, of up_env up_env 60] e s
  show ?thesis by auto
qed

end
