(* ===== verification/Table_Threads.thy ===== *)
theory Table_Threads
  imports Collector_Props
begin

text \<open>
  One table used by many goroutines at once (collector.go): inserts under its key, its timer and the flushes.
  Each call holds the mutex of the table from its begin, but \<open>doFlush\<close> gives it back before it hands the
  batch to the sender, and takes it again afterwards; other calls run in between. A step here is what
  a goroutine does between two such points.
\<close>

section \<open>Critical sections\<close>

text \<open>
  \<open>doFlush\<close> up to \<open>t.mu.Unlock()\<close>: the batch it has cut, if any; and \<open>Add\<close> up to there or, if it does not
  flush, up to its last line. \<^term>\<open>None\<close> is a panic.
\<close>

definition flush_section :: "Table \<Rightarrow> (ClickhouseRequest option \<times> Table) option" where
  "flush_section t =
     (if t_count t = 0 then Some (None, t)
      else if t_FlushCount t < 0 then None
      else Some (Some (table_request t), t\<lparr>t_Rows := [], t_JournalIDs := [], t_count := 0\<rparr>))"

definition add_section :: "string \<Rightarrow> u64 \<Rightarrow> Table \<Rightarrow> (ClickhouseRequest option \<times> Table) option" where
  "add_section text journalID t =
     (let t = t\<lparr>t_count := t_count t + 1\<rparr>;
          t = (if 0 < journalID then t\<lparr>t_JournalIDs := t_JournalIDs t @ [journalID]\<rparr> else t);
          t = (if t_Format t = ''TabSeparated'' then t\<lparr>t_Rows := t_Rows t @ split_on NL text\<rparr>
               else t\<lparr>t_Rows := t_Rows t @ [text]\<rparr>)
      in if t_FlushCount t \<le> int (length (t_Rows t)) then flush_section t else Some (None, t))"

definition send_cut :: "'s Sender \<Rightarrow> ClickhouseRequest option \<Rightarrow> 's \<Rightarrow> 's" where
  "send_cut S r s = (case r of None \<Rightarrow> s | Some r \<Rightarrow> s_Send S r s)"

text \<open>Without interruption the sections are the operations of the collector.\<close>

lemma doFlush_sections: "doFlush S t s = map_option (\<lambda>(r, t). (t, send_cut S r s)) (flush_section t)"
  by (simp add: doFlush_def flush_section_def send_cut_def)

lemma CheckFlush_sections:
  "CheckFlush S t s = (if 0 < t_count t then map_option (\<lambda>(r, t). (True, t, send_cut S r s)) (flush_section t) else Some (False, t, s))"
  by (simp add: CheckFlush_def doFlush_sections option.map_comp comp_def split_def)

lemma Add_sections:
  "Add S now text i t s = map_option (\<lambda>(r, t). (t\<lparr>t_lastUpdate := now\<rparr>, send_cut S r s)) (add_section text i t)"
  by (simp add: Add_def add_section_def doFlush_sections Let_def option.map_comp comp_def split_def send_cut_def)

section \<open>Threads\<close>

text \<open>
  A goroutine waits for the mutex, holds a batch that it has to send, or has sent it (\<open>Add\<close> then takes the
  mutex again and stores the time, \<open>CheckFlush\<close> takes it and gives it back).
\<close>

datatype table_call = CallAdd string u64 | CallCheckFlush

datatype thread = Waiting table_call | Sending ClickhouseRequest bool | Stamping | Finished

inductive thread_step :: "'s Sender \<Rightarrow> Table \<times> 's \<times> thread list \<Rightarrow> Table \<times> 's \<times> thread list \<Rightarrow> bool"
  for S where
  add: "i < length ts \<Longrightarrow> ts ! i = Waiting (CallAdd x k) \<Longrightarrow> add_section x k t = Some (None, t') \<Longrightarrow>
    thread_step S (t, s, ts) (t'\<lparr>t_lastUpdate := now\<rparr>, s, ts[i := Finished])"
| add_cut: "i < length ts \<Longrightarrow> ts ! i = Waiting (CallAdd x k) \<Longrightarrow> add_section x k t = Some (Some r, t') \<Longrightarrow>
    thread_step S (t, s, ts) (t', s, ts[i := Sending r True])"
| flush: "i < length ts \<Longrightarrow> ts ! i = Waiting CallCheckFlush \<Longrightarrow> flush_section t = Some (None, t') \<Longrightarrow>
    thread_step S (t, s, ts) (t', s, ts[i := Finished])"
| flush_cut: "i < length ts \<Longrightarrow> ts ! i = Waiting CallCheckFlush \<Longrightarrow> flush_section t = Some (Some r, t') \<Longrightarrow>
    thread_step S (t, s, ts) (t', s, ts[i := Sending r False])"
| send: "i < length ts \<Longrightarrow> ts ! i = Sending r b \<Longrightarrow>
    thread_step S (t, s, ts) (t, s_Send S r s, ts[i := if b then Stamping else Finished])"
| stamp: "i < length ts \<Longrightarrow> ts ! i = Stamping \<Longrightarrow>
    thread_step S (t, s, ts) (t\<lparr>t_lastUpdate := now\<rparr>, s, ts[i := Finished])"

abbreviation thread_steps :: "'s Sender \<Rightarrow> Table \<times> 's \<times> thread list \<Rightarrow> Table \<times> 's \<times> thread list \<Rightarrow> bool" where
  "thread_steps S \<equiv> (thread_step S)\<^sup>*\<^sup>*"

text \<open>The inserts that have not entered, and the batches that were cut and not yet sent.\<close>

fun adds_waiting :: "thread \<Rightarrow> (string \<times> u64) list" where
  "adds_waiting (Waiting (CallAdd x k)) = [(x, k)]"
| "adds_waiting _ = []"

fun in_flight :: "thread \<Rightarrow> ClickhouseRequest list" where
  "in_flight (Sending r b) = [r]"
| "in_flight _ = []"

definition of_threads :: "(thread \<Rightarrow> 'a list) \<Rightarrow> thread list \<Rightarrow> 'a multiset" where
  "of_threads f ts = mset (concat (map f ts))"

lemma of_threads_update:
  "i < length ts \<Longrightarrow> of_threads f (ts[i := x]) + mset (f (ts ! i)) = of_threads f ts + mset (f x)"
proof (induction ts arbitrary: i)
  case (Cons y ts)
  then show ?case by (cases i) (simp_all add: of_threads_def ac_simps)
qed simp

section \<open>The order of the sections\<close>

text \<open>
  The batches \<open>bs\<close> with their numbers \<open>idss\<close> were cut, in this order, out of the rows the table had at first
  and those of the inserts \<open>xs\<close>, in the order in which these entered; the rest is in the table.
\<close>

definition same_kind :: "Table \<Rightarrow> Table \<Rightarrow> bool" where
  "same_kind t0 t = (t_Format t = t_Format t0 \<and> t_Query t = t_Query t0 \<and> t_Params t = t_Params t0
     \<and> t_FlushCount t = t_FlushCount t0)"

definition cuts :: "Table \<Rightarrow> Table \<Rightarrow> (string \<times> u64) list \<Rightarrow> string list list \<Rightarrow> u64 list list \<Rightarrow> bool" where
  "cuts t0 t xs bs idss = (table_ok t \<and> 0 \<le> t_FlushCount t \<and> same_kind t0 t \<and> length idss = length bs
     \<and> concat bs @ t_Rows t = t_Rows t0 @ concat (map (\<lambda>x. rows_of t0 (fst x)) xs)
     \<and> concat idss @ t_JournalIDs t = t_JournalIDs t0 @ concat (map (\<lambda>x. id_list (snd x)) xs))"

lemma same_kind_eqs:
  assumes "same_kind t0 t"
  shows "rows_of t x = rows_of t0 x" "table_request t = batch_request t0 (t_Rows t) (t_JournalIDs t)"
    "batch_request t b ids = batch_request t0 b ids"
  using assms by (simp_all add: same_kind_def rows_of_def batch_request_def table_request_def Content_def)

lemma flush_section_cases:
  assumes "table_ok t" "0 \<le> t_FlushCount t" "flush_section t = Some (r, t')"
  shows "r = None \<and> t' = t \<or> r = Some (table_request t) \<and> t' = t\<lparr>t_Rows := [], t_JournalIDs := [], t_count := 0\<rparr>"
  using assms by (auto simp: flush_section_def split: if_splits)

lemma add_section_cases:
  assumes "table_ok t" "0 \<le> t_FlushCount t" "add_section x k t = Some (r, t')"
  shows "r = None \<and> t' = t\<lparr>t_Rows := t_Rows t @ rows_of t x, t_JournalIDs := t_JournalIDs t @ id_list k, t_count := t_count t + 1\<rparr>
    \<or> r = Some (batch_request t (t_Rows t @ rows_of t x) (t_JournalIDs t @ id_list k))
      \<and> t' = t\<lparr>t_Rows := [], t_JournalIDs := [], t_count := 0\<rparr>"
proof -
  have "t_count t + 1 \<noteq> 0" using assms(1) by (simp add: table_ok_def)
  with assms(2,3) show ?thesis
    by (cases t) (auto simp: add_section_def flush_section_def rows_of_def id_list_def batch_request_def table_request_def
        Content_def Let_def split: if_splits)
qed

lemma cuts_stamp [simp]: "cuts t0 (t\<lparr>t_lastUpdate := now\<rparr>) xs bs idss = cuts t0 t xs bs idss"
  by (simp add: cuts_def same_kind_def table_ok_def)

lemma cuts_cut:
  assumes "cuts t0 t xs bs idss" "t' = t\<lparr>t_Rows := [], t_JournalIDs := [], t_count := 0\<rparr>"
  shows "cuts t0 t' (xs @ ys) (bs @ [t_Rows t @ concat (map (\<lambda>x. rows_of t0 (fst x)) ys)])
    (idss @ [t_JournalIDs t @ concat (map (\<lambda>x. id_list (snd x)) ys)])"
  using assms by (simp add: cuts_def same_kind_def table_ok_def flip: append_assoc)

lemma cuts_flush:
  assumes "cuts t0 t xs bs idss" "flush_section t = Some (r, t')"
  shows "r = None \<and> t' = t \<or> (\<exists>b ids. r = Some (batch_request t0 b ids) \<and> cuts t0 t' xs (bs @ [b]) (idss @ [ids]))"
proof -
  have k: "table_ok t" "0 \<le> t_FlushCount t" "same_kind t0 t" using assms(1) by (simp_all add: cuts_def)
  from flush_section_cases [OF k(1,2) assms(2)] show ?thesis
    using cuts_cut [OF assms(1), of t' "[]"] same_kind_eqs(2) [OF k(3)] by auto
qed

lemma cuts_add:
  assumes "cuts t0 t xs bs idss" "add_section x k t = Some (r, t')"
  shows "r = None \<and> cuts t0 t' (xs @ [(x, k)]) bs idss
    \<or> (\<exists>b ids. r = Some (batch_request t0 b ids) \<and> cuts t0 t' (xs @ [(x, k)]) (bs @ [b]) (idss @ [ids]))"
proof -
  have k: "table_ok t" "0 \<le> t_FlushCount t" "same_kind t0 t" using assms(1) by (simp_all add: cuts_def)
  note e = same_kind_eqs [OF k(3)]
  from add_section_cases [OF k(1,2) assms(2)] show ?thesis
  proof (elim disjE conjE)
    assume r: "r = None" and t': "t' = t\<lparr>t_Rows := t_Rows t @ rows_of t x, t_JournalIDs := t_JournalIDs t @ id_list k, t_count := t_count t + 1\<rparr>"
    have "cuts t0 t' (xs @ [(x, k)]) bs idss"
      using assms(1) e(1) unfolding t' by (simp add: cuts_def same_kind_def table_ok_def flip: append_assoc)
    with r show ?thesis by blast
  next
    assume r: "r = Some (batch_request t (t_Rows t @ rows_of t x) (t_JournalIDs t @ id_list k))"
      and t': "t' = t\<lparr>t_Rows := [], t_JournalIDs := [], t_count := 0\<rparr>"
    from cuts_cut [OF assms(1) t', of "[(x, k)]"] r e show ?thesis by auto
  qed
qed

context batch_queue
begin

definition shared_inv :: "Table \<times> 's \<times> thread list \<Rightarrow> Table \<times> 's \<times> thread list \<Rightarrow> bool" where
  "shared_inv st0 st = (case (st0, st) of ((t0, s0, ts0), (t, s, ts)) \<Rightarrow> inv s \<and> (\<exists>xs bs idss. cuts t0 t xs bs idss
     \<and> mset xs + of_threads adds_waiting ts = of_threads adds_waiting ts0
     \<and> mset (queued s) + of_threads in_flight ts
       = mset (queued s0) + of_threads in_flight ts0 + mset (map2 (batch_request t0) bs idss)))"

lemma shared_update:
  assumes "inv s'" "cuts t0 t' (xs @ ys) (bs @ cs) (idss @ ids)" "length idss = length bs" "i < length ts"
    and "mset xs + of_threads adds_waiting ts = of_threads adds_waiting ts0"
    and "mset (queued s) + of_threads in_flight ts
       = mset (queued s0) + of_threads in_flight ts0 + mset (map2 (batch_request t0) bs idss)"
    and "mset (adds_waiting (ts ! i)) = mset ys + mset (adds_waiting u)"
    and "mset (queued s') + mset (in_flight u) = mset (queued s) + mset (in_flight (ts ! i)) + mset (map2 (batch_request t0) cs ids)"
  shows "shared_inv (t0, s0, ts0) (t', s', ts[i := u])"
proof -
  note up = of_threads_update [OF assms(4), of adds_waiting u] of_threads_update [OF assms(4), of in_flight u]
  have "mset (xs @ ys) + of_threads adds_waiting (ts[i := u]) + mset (adds_waiting (ts ! i))
      = of_threads adds_waiting ts0 + (mset ys + mset (adds_waiting u))"
    using up(1) assms(5) by (simp add: ac_simps)
  then have a: "mset (xs @ ys) + of_threads adds_waiting (ts[i := u]) = of_threads adds_waiting ts0"
    unfolding assms(7) by (rule add_right_imp_eq)
  have "mset (queued s') + of_threads in_flight (ts[i := u]) + mset (in_flight (ts ! i))
      = mset (queued s') + mset (in_flight u) + of_threads in_flight ts"
    using up(2) by (simp add: ac_simps)
  also have "\<dots> = mset (queued s) + of_threads in_flight ts + mset (map2 (batch_request t0) cs ids) + mset (in_flight (ts ! i))"
    unfolding assms(8) by (simp add: ac_simps)
  finally have "mset (queued s') + of_threads in_flight (ts[i := u])
      = mset (queued s) + of_threads in_flight ts + mset (map2 (batch_request t0) cs ids)"
    by (rule add_right_imp_eq)
  then have b: "mset (queued s') + of_threads in_flight (ts[i := u])
      = mset (queued s0) + of_threads in_flight ts0 + mset (map2 (batch_request t0) (bs @ cs) (idss @ ids))"
    unfolding assms(6) using assms(3) by (simp add: ac_simps)
  show ?thesis
    unfolding shared_inv_def using assms(1,2) a b by blast
qed

lemma thread_step_inv:
  assumes "thread_step S st st'" "shared_inv (t0, s0, ts0) st"
  shows "shared_inv (t0, s0, ts0) st'"
proof -
  obtain t s ts where st: "st = (t, s, ts)" by (cases st)
  obtain xs bs idss where c: "inv s" "cuts t0 t xs bs idss" "mset xs + of_threads adds_waiting ts = of_threads adds_waiting ts0"
    "mset (queued s) + of_threads in_flight ts
       = mset (queued s0) + of_threads in_flight ts0 + mset (map2 (batch_request t0) bs idss)"
    using assms(2) unfolding shared_inv_def st by auto
  have l: "length idss = length bs" using c(2) by (simp add: cuts_def)
  from assms(1) [unfolded st] show ?thesis
  proof cases
    case (add i x k t' now)
    from cuts_add [OF c(2) add(4)] have "cuts t0 (t'\<lparr>t_lastUpdate := now\<rparr>) (xs @ [(x, k)]) (bs @ []) (idss @ [])" by simp
    from shared_update [OF c(1) this l add(2) c(3,4), of Finished] add(1,3) show ?thesis by simp
  next
    case (add_cut i x k r t')
    from cuts_add [OF c(2) add_cut(4)] obtain b ids where
      r: "r = batch_request t0 b ids" "cuts t0 t' (xs @ [(x, k)]) (bs @ [b]) (idss @ [ids])" by auto
    from shared_update [OF c(1) r(2) l add_cut(2) c(3,4), of "Sending r True"] add_cut(1,3) r(1) show ?thesis by simp
  next
    case (flush i t')
    from cuts_flush [OF c(2) flush(4)] c(2) have "cuts t0 t' (xs @ []) (bs @ []) (idss @ [])" by auto
    from shared_update [OF c(1) this l flush(2) c(3,4), of Finished] flush(1,3) show ?thesis by simp
  next
    case (flush_cut i r t')
    from cuts_flush [OF c(2) flush_cut(4)] obtain b ids where
      r: "r = batch_request t0 b ids" "cuts t0 t' (xs @ []) (bs @ [b]) (idss @ [ids])" by auto
    from shared_update [OF c(1) r(2) l flush_cut(2) c(3,4), of "Sending r False"] flush_cut(1,3) r(1) show ?thesis by simp
  next
    case (send i r b)
    have "cuts t0 t (xs @ []) (bs @ []) (idss @ [])" using c(2) by simp
    from shared_update [OF inv_Send [OF c(1)] this l send(2) c(3,4), of "if b then Stamping else Finished" r] send(1,3) queued_Send [OF c(1)]
    show ?thesis by (cases b) simp_all
  next
    case (stamp i now)
    have "cuts t0 (t\<lparr>t_lastUpdate := now\<rparr>) (xs @ []) (bs @ []) (idss @ [])" using c(2) by simp
    from shared_update [OF c(1) this l stamp(2) c(3,4), of Finished] stamp(1,3) show ?thesis by simp
  qed
qed

lemma thread_steps_inv:
  assumes "thread_steps S (t0, s0, ts0) st" "table_ok t0" "0 \<le> t_FlushCount t0" "inv s0"
  shows "shared_inv (t0, s0, ts0) st"
  using assms(1)
proof (induction rule: rtranclp_induct)
  case base
  have "cuts t0 t0 [] [] []" using assms(2,3) by (simp add: cuts_def same_kind_def)
  then show ?case unfolding shared_inv_def using assms(4) by auto
qed (rule thread_step_inv)

end

fun call_adds :: "table_call \<Rightarrow> (string \<times> u64) list" where
  "call_adds (CallAdd x k) = [(x, k)]"
| "call_adds CallCheckFlush = []"

lemma waiting_threads [simp]:
  "of_threads in_flight (map Waiting calls) = {#}"
  "of_threads adds_waiting (map Waiting calls) = mset (concat (map call_adds calls))"
proof -
  show "of_threads in_flight (map Waiting calls) = {#}" by (induction calls) (simp_all add: of_threads_def)
  have "adds_waiting (Waiting c) = call_adds c" for c by (cases c) simp_all
  then show "of_threads adds_waiting (map Waiting calls) = mset (concat (map call_adds calls))"
    by (simp add: of_threads_def comp_def)
qed

lemma section_runs:
  assumes "0 \<le> t_FlushCount t"
  shows "flush_section t \<noteq> None" "add_section x k t \<noteq> None"
  using assms by (cases "0 < k"; cases "t_Format t = ''TabSeparated''"; simp add: add_section_def flush_section_def Let_def)+

lemma thread_can_step:
  assumes "table_ok t" "0 \<le> t_FlushCount t" "i < length ts" "ts ! i \<noteq> Finished"
  shows "\<exists>st. thread_step S (t, s, ts) st"
proof (cases "ts ! i")
  case (Waiting call)
  show ?thesis
  proof (cases call)
    case (CallAdd x k)
    then have w: "ts ! i = Waiting (CallAdd x k)" using Waiting by simp
    obtain r t' where r: "add_section x k t = Some (r, t')"
      using section_runs [OF assms(2)] by (metis not_None_eq surj_pair)
    then show ?thesis
      using thread_step.add [OF assms(3) w, of t t' S s] thread_step.add_cut [OF assms(3) w, of t _ t' S s] by (cases r) auto
  next
    case CallCheckFlush
    then have w: "ts ! i = Waiting CallCheckFlush" using Waiting by simp
    obtain r t' where r: "flush_section t = Some (r, t')"
      using section_runs [OF assms(2)] by (metis not_None_eq surj_pair)
    then show ?thesis
      using thread_step.flush [OF assms(3) w, of t t' S s] thread_step.flush_cut [OF assms(3) w, of t _ t' S s] by (cases r) auto
  qed
next
  case (Sending r b)
  from thread_step.send [OF assms(3) this, of S t s] show ?thesis by (rule exI)
next
  case Stamping
  from thread_step.stamp [OF assms(3) this, of S t s] show ?thesis by blast
next
  case Finished
  with assms(4) show ?thesis by simp
qed

section \<open>The property\<close>

text \<open>
  C16. Any number of inserts and flushes of one table, in any interleaving: there is an order \<open>xs\<close> of
  the inserts that have entered, such that the batches cut so far and the rows in the table are,
  one after the other, the rows the table had at first and those of these inserts, none lost and none twice, and
  likewise their journal numbers; and the queue has gained exactly these batches but for those still held by a
  goroutine (in whatever order: batches can overtake each other). A goroutine that is not finished can go on.
\<close>

theorem table_threads_lose_nothing:
  assumes "fifo_api Q items" "table_ok t0" "0 \<le> t_FlushCount t0"
    and "thread_steps (clickhouse_sender Q E) (t0, (c0, w0), map Waiting calls) (t, (c, w), ts)"
  shows "\<exists>xs bs idss. mset xs + of_threads adds_waiting ts = mset (concat (map call_adds calls)) \<and> length idss = length bs
    \<and> concat bs @ t_Rows t = t_Rows t0 @ concat (map (\<lambda>x. rows_of t0 (fst x)) xs)
    \<and> concat idss @ t_JournalIDs t = t_JournalIDs t0 @ concat (map (\<lambda>x. id_list (snd x)) xs)
    \<and> mset (items (ch_Queue c)) + of_threads in_flight ts
      = mset (items (ch_Queue c0)) + mset (map2 (batch_request t0) bs idss)
    \<and> ((\<exists>i < length ts. ts ! i \<noteq> Finished) \<longrightarrow> (\<exists>st. thread_step (clickhouse_sender Q E) (t, (c, w), ts) st))"
proof -
  from ch.thread_steps_inv [OF assms(4,2,3,1)] obtain xs bs idss where
    c: "cuts t0 t xs bs idss" and a: "mset xs + of_threads adds_waiting ts = mset (concat (map call_adds calls))"
    and q: "mset (items (ch_Queue c)) + of_threads in_flight ts = mset (items (ch_Queue c0)) + mset (map2 (batch_request t0) bs idss)"
    unfolding ch.shared_inv_def by auto
  have k: "table_ok t" "0 \<le> t_FlushCount t" "length idss = length bs"
    "concat bs @ t_Rows t = t_Rows t0 @ concat (map (\<lambda>x. rows_of t0 (fst x)) xs)"
    "concat idss @ t_JournalIDs t = t_JournalIDs t0 @ concat (map (\<lambda>x. id_list (snd x)) xs)"
    using c by (simp_all add: cuts_def)
  have "(\<exists>i < length ts. ts ! i \<noteq> Finished) \<longrightarrow> (\<exists>st. thread_step (clickhouse_sender Q E) (t, (c, w), ts) st)"
  proof
    assume "\<exists>i < length ts. ts ! i \<noteq> Finished"
    then obtain i where "i < length ts" "ts ! i \<noteq> Finished" by blast
    then show "\<exists>st. thread_step (clickhouse_sender Q E) (t, (c, w), ts) st" by (rule thread_can_step [OF k(1,2)])
  qed
  then show ?thesis
    by (intro exI [of _ xs] exI [of _ bs] exI [of _ idss] conjI a q k(3-5)) simp
qed

text \<open>Two inserts fill a table with a limit of one row; the batch that was cut second is queued first.\<close>

definition demo_table :: Table where
  "demo_table = NewTable ''k'' 1 1000"

definition demo_cut :: "string \<Rightarrow> u64 \<Rightarrow> ClickhouseRequest" where
  "demo_cut x k = batch_request demo_table [x] [k]"

lemma demo_section:
  "0 < k \<Longrightarrow> add_section x k demo_table = Some (Some (demo_cut x k), demo_table)"
  by (simp add: add_section_def flush_section_def demo_table_def NewTable_def demo_cut_def batch_request_def
      table_request_def Content_def)

lemma demo_threads:
  assumes "0 < k" "0 < l"
  shows "thread_steps S (demo_table, s, map Waiting [CallAdd x k, CallAdd y l])
    (demo_table, s_Send S (demo_cut x k) (s_Send S (demo_cut y l) s), [Stamping, Stamping])"
proof -
  let ?A = "Sending (demo_cut x k) True" and ?B = "Sending (demo_cut y l) True"
  have 1: "thread_step S (demo_table, s, map Waiting [CallAdd x k, CallAdd y l]) (demo_table, s, [?A, Waiting (CallAdd y l)])"
    using thread_step.add_cut [of 0 "map Waiting [CallAdd x k, CallAdd y l]" x k demo_table "demo_cut x k" demo_table S s]
      demo_section [OF assms(1)] by simp
  have 2: "thread_step S (demo_table, s, [?A, Waiting (CallAdd y l)]) (demo_table, s, [?A, ?B])"
    using thread_step.add_cut [of 1 "[?A, Waiting (CallAdd y l)]" y l demo_table "demo_cut y l" demo_table S s]
      demo_section [OF assms(2)] by simp
  have 3: "thread_step S (demo_table, s, [?A, ?B]) (demo_table, s_Send S (demo_cut y l) s, [?A, Stamping])"
    using thread_step.send [of 1 "[?A, ?B]" "demo_cut y l" True S demo_table s] by simp
  have 4: "thread_step S (demo_table, s', [?A, Stamping]) (demo_table, s_Send S (demo_cut x k) s', [Stamping, Stamping])" for s'
    using thread_step.send [of 0 "[?A, Stamping]" "demo_cut x k" True S demo_table s'] by simp
  from 1 2 3 4 show ?thesis by (meson rtranclp.rtrancl_into_rtrancl rtranclp.rtrancl_refl)
qed

theorem table_threads_lose_nothing_witness:
  "\<exists>t c w xs bs idss. thread_steps (clickhouse_sender list_queue demo_env)
       (demo_table, (NewClickhouse [] 0 0, demo_world), map Waiting [CallAdd ''a'' 1, CallAdd ''b'' 2]) (t, (c, w), [Stamping, Stamping])
     \<and> map req_JournalIDs (ch_Queue c) = [[2], [1]] \<and> t_Rows t = []
     \<and> mset xs = mset [(''a'', 1 :: u64), (''b'', 2)] \<and> concat bs = concat (map (\<lambda>x. rows_of demo_table (fst x)) xs)
     \<and> mset (ch_Queue c) = mset (map2 (batch_request demo_table) bs idss)"
proof -
  let ?S = "clickhouse_sender list_queue demo_env" and ?s = "(NewClickhouse [] 0 0, demo_world) :: ClickhouseRequest list Clickhouse \<times> world"
  have "(0 :: u64) < 1" "(0 :: u64) < 2" by simp_all
  note run = demo_threads [OF this, of ?S ?s "''a''" "''b''"]
  obtain c w where cw: "s_Send ?S (demo_cut ''a'' 1) (s_Send ?S (demo_cut ''b'' 2) ?s) = (c, w)" by force
  then have q: "ch_Queue c = [demo_cut ''b'' 2, demo_cut ''a'' 1]"
    by (auto simp: clickhouse_sender_def Send_def list_queue_def NewClickhouse_def)
  have t: "table_ok demo_table" "0 \<le> t_FlushCount demo_table" "t_Rows demo_table = []"
    by (simp_all add: demo_table_def NewTable_def table_ok_def)
  from table_threads_lose_nothing [OF list_queue_fifo t(1,2) run [unfolded cw]] obtain xs bs idss where
    "mset xs + of_threads adds_waiting [Stamping, Stamping] = mset (concat (map call_adds [CallAdd ''a'' 1, CallAdd ''b'' 2]))"
    "concat bs @ t_Rows demo_table = t_Rows demo_table @ concat (map (\<lambda>x. rows_of demo_table (fst x)) xs)"
    "mset (ch_Queue c) + of_threads in_flight [Stamping, Stamping] = mset (ch_Queue (fst ?s)) + mset (map2 (batch_request demo_table) bs idss)"
    by auto
  then have "mset xs = mset [(''a'', 1 :: u64), (''b'', 2)]" "concat bs = concat (map (\<lambda>x. rows_of demo_table (fst x)) xs)"
    "mset (ch_Queue c) = mset (map2 (batch_request demo_table) bs idss)"
    using t(3) by (simp_all add: of_threads_def NewClickhouse_def)
  moreover have "map req_JournalIDs (ch_Queue c) = [[2], [1]]"
    by (simp add: q demo_cut_def batch_request_def table_request_def)
  ultimately show ?thesis using run [unfolded cw] t(3)
    by (intro exI [of _ demo_table] exI [of _ c] exI [of _ w] exI [of _ xs] exI [of _ bs] exI [of _ idss] conjI)
qed

end
