(* ===== verification/Turns.thy ===== *)
theory Turns
  imports System_Facts Table_Threads
begin

text \<open>
  The program with its goroutines interleaved more finely than in \<open>System\<close>: a turn of the worker, an insert that
  waits for ClickHouse and the hand-over of a batch to the queue are cut where their mutexes are
  free, and any other step may come in between.
\<close>

section \<open>Turns\<close>

text \<open>
  What a goroutine is about to do. \<open>Cut\<close>: it has cut batches out of tables (\<open>doFlush\<close>, or an opaque insert) and
  hands them to the sender. The worker (\<open>Run\<close>) has taken a request from the queue, has the
  answer of ClickHouse, has to acknowledge, or has to tell the wait group. An insert that waits
  (sync_insert.go) has its record in the journal, or has the answer.
\<close>

datatype turn = Cut "ClickhouseRequest list"
  | Taken ClickhouseRequest | Answered ClickhouseRequest query_reply | Stored ClickhouseRequest | Leaving
  | SyncAppended ClickhouseRequest | SyncAnswered ClickhouseRequest string int "headers option" "send_err option"
  | Over

fun is_worker :: "turn \<Rightarrow> bool" where
  "is_worker (Taken r) = True"
| "is_worker (Answered r q) = True"
| "is_worker (Stored r) = True"
| "is_worker Leaving = True"
| "is_worker _ = False"

text \<open>The next step of a turn; \<^term>\<open>None\<close> when a query never returns.\<close>

fun turn_next :: "'q queue_api \<Rightarrow> env \<Rightarrow> env \<Rightarrow> turn \<Rightarrow> 'q Server \<Rightarrow> (turn \<times> 'q Server) option" where
  "turn_next Q E E' (Cut []) sv = Some (Over, sv)"
| "turn_next Q E E' (Cut (r # rs)) sv =
     Some (Cut rs, sv\<lparr>sv_targets := s_Send (main_sender Q E E') r (sv_targets sv)\<rparr>)"
| "turn_next Q E E' (Taken r) sv =
     (case SendQuery E r (wk_ch (live sv)) (wk_world (live sv)) of
        None \<Rightarrow> None
      | Some (q, c, w) \<Rightarrow> Some (Answered r q, with_live (\<lambda>s. s\<lparr>wk_ch := c, wk_world := w\<rparr>) sv))"
| "turn_next Q E E' (Answered r q) sv =
     (case rp_err q of
        None \<Rightarrow> Some (Stored r, sv)
      | Some _ \<Rightarrow>
          (case ch_Dump (req_Params r) (req_Content r) (rp_response q) (dump_kind (rp_status q)) (rp_status q) (live sv) of
             (Inl _, s) \<Rightarrow> Some (Leaving, with_live (\<lambda>_. s) sv)
           | (Inr _, s) \<Rightarrow> Some (Stored r, with_live (\<lambda>_. s) sv)))"
| "turn_next Q E E' (Stored r) sv = Some (Leaving, with_live (ackJournal E (req_JournalIDs r)) sv)"
| "turn_next Q E E' Leaving sv = Some (Over, with_live wg_Done sv)"
| "turn_next Q E E' (SyncAppended r) sv =
     (if \<not> sv_hasLive sv then Some (Over, sv)
      else (case SendQuery E r (wk_ch (live sv)) (wk_world (live sv)) of
          None \<Rightarrow> None
        | Some (q, c, w) \<Rightarrow>
            (let sv = with_live (\<lambda>s. s\<lparr>wk_ch := c, wk_world := w\<rparr>) sv in
             case rp_err q of
               None \<Rightarrow>
                 Some (SyncAnswered r (rp_response q) (rp_status q) (rp_headers q) None,
                   if sv_BackupOn sv \<and> sv_hasBackup sv
                   then sv\<lparr>sv_targets := (sv_targets sv)\<lparr>tg_backup :=
                          map_option (s_Send (worker_sender Q E') r) (tg_backup (sv_targets sv))\<rparr>\<rparr>
                   else sv)
             | Some e \<Rightarrow>
                 (let (status, resp) = (if rp_status q = 0
                        then (502, if rp_response q = [] then err_text e @ [NL] else rp_response q)
                        else (rp_status q, rp_response q))
                  in Some (SyncAnswered r resp status (rp_headers q) (Some e), sv)))))"
| "turn_next Q E E' (SyncAnswered r resp status hs e) sv = Some (Over, snd (finishSyncInsert E r resp status hs e sv))"
| "turn_next Q E E' Over sv = None"

text \<open>The collector's operations with a sender that only collects what it is given.\<close>

definition cutter :: "ClickhouseRequest list Sender" where
  "cutter = \<lparr>s_Send = (\<lambda>r rs. rs @ [r]), s_SendQuery = (\<lambda>r rs. None), s_Len = (\<lambda>rs. int (length rs)), s_Empty = (\<lambda>rs. rs = [])\<rparr>"

fun spawned_op :: "nanos \<Rightarrow> spawned \<Rightarrow> cop" where
  "spawned_op now (SpawnPush p t i) = CPush now p t i"
| "spawned_op now (SpawnOpaque p t ct i) = COpaque p t ct i"

fun collect :: "sys_op \<Rightarrow> 'q Server \<Rightarrow> ('q Server \<times> ClickhouseRequest list) option" where
  "collect (SysSpawned i now) sv = (case drop i (sv_spawned sv) of
     [] \<Rightarrow> None
   | g # gs \<Rightarrow> map_option (\<lambda>(c, rs). (sv\<lparr>sv_spawned := take i (sv_spawned sv) @ gs, sv_Collector := c\<rparr>, rs))
       (coll_step cutter (spawned_op now g) (sv_Collector sv, [])))"
| "collect (SysTick k) sv = map_option (\<lambda>(c, rs). (sv\<lparr>sv_Collector := c\<rparr>, rs)) (coll_step cutter (CTick k) (sv_Collector sv, []))"
| "collect SysFlushAll sv = map_option (\<lambda>(c, rs). (sv\<lparr>sv_Collector := c\<rparr>, rs)) (coll_step cutter CFlushAll (sv_Collector sv, []))"
| "collect _ sv = None"

text \<open>The first half of an insert that waits: its record goes into the journal.\<close>

fun waits :: "plan \<Rightarrow> bool" where
  "waits (PText p c sync) = sync"
| "waits (POpaque p c ct sync) = sync"
| "waits _ = False"

fun sync_append :: "plan \<Rightarrow> 'q Server \<Rightarrow> (turn \<times> 'q Server) option" where
  "sync_append (PText p c True) sv = (case appendJournal (Append p c) sv of
     (Inl e, sv) \<Rightarrow> Some (Over, sv)
   | (Inr i, sv) \<Rightarrow> Some (SyncAppended (buildSyncBatchedRequest p c i), sv))"
| "sync_append (POpaque p c ct True) sv = (case appendJournal (AppendOpaque p c ct) sv of
     (Inl e, sv) \<Rightarrow> Some (Over, sv)
   | (Inr i, sv) \<Rightarrow> Some (SyncAppended (buildSyncOpaqueRequest p c ct i), sv))"
| "sync_append _ sv = None"

section \<open>Steps\<close>

text \<open>
  The operations that are not cut: requests that do not wait, the cleanings, the replays of
  dumps (they hold the dumper's mutex all the time), and the backup worker, which shares nothing
  with the live target.
\<close>

fun uncut :: "codecs \<Rightarrow> sys_op \<Rightarrow> 'q Server \<Rightarrow> bool" where
  "uncut cd (SysRequest rq) sv = (\<not> waits (plan_of cd rq sv))"
| "uncut cd (SysSpawned i now) sv = False"
| "uncut cd (SysTick k) sv = False"
| "uncut cd SysFlushAll sv = False"
| "uncut cd SysWorker sv = False"
| "uncut cd _ sv = True"

inductive turn_step :: "codecs \<Rightarrow> 'q queue_api \<Rightarrow> env \<Rightarrow> env \<Rightarrow> ('q \<Rightarrow> ClickhouseRequest list)
    \<Rightarrow> 'q Server \<times> turn list \<Rightarrow> 'q Server \<times> turn list \<Rightarrow> bool"
  for cd Q E E' items where
  uncut: "uncut cd a sv \<Longrightarrow> sys_guard cd items a sv \<Longrightarrow> sys_step cd Q E E' a sv = Some sv' \<Longrightarrow>
    turn_step cd Q E E' items (sv, ts) (sv', ts)"
| sync: "sys_guard cd items (SysRequest rq) sv \<Longrightarrow> sync_append (plan_of cd rq sv) sv = Some (t, sv') \<Longrightarrow>
    turn_step cd Q E E' items (sv, ts) (sv', ts @ [t])"
| collect: "collect a sv = Some (sv', rs) \<Longrightarrow>
    turn_step cd Q E E' items (sv, ts) (sv', ts @ [Cut rs])"
| poll: "list_all (\<lambda>t. \<not> is_worker t) ts \<Longrightarrow> q_Poll Q 1 (ch_Queue (wk_ch (live sv))) = Some (r # rs, q) \<Longrightarrow> dumpable r \<Longrightarrow>
    turn_step cd Q E E' items (sv, ts) (with_live (\<lambda>s. s\<lparr>wk_ch := (wk_ch s)\<lparr>ch_Queue := q\<rparr>\<rparr>) sv, ts @ [Taken r])"
| turn: "turn_next Q E E' t sv = Some (t', sv') \<Longrightarrow>
    turn_step cd Q E E' items (sv, us @ t # vs) (sv', us @ t' # vs)"

abbreviation turn_reach :: "codecs \<Rightarrow> 'q queue_api \<Rightarrow> env \<Rightarrow> env \<Rightarrow> ('q \<Rightarrow> ClickhouseRequest list)
    \<Rightarrow> 'q Server \<times> turn list \<Rightarrow> 'q Server \<times> turn list \<Rightarrow> bool" where
  "turn_reach cd Q E E' items \<equiv> (turn_step cd Q E E' items)\<^sup>*\<^sup>*"

section \<open>The invariant\<close>

fun held :: "turn \<Rightarrow> ClickhouseRequest list" where
  "held (Cut rs) = rs"
| "held (Taken r) = [r]"
| "held (Answered r q) = [r]"
| "held (Stored r) = [r]"
| "held (SyncAppended r) = [r]"
| "held (SyncAnswered r resp status hs e) = [r]"
| "held _ = []"

fun sync_numbers :: "turn \<Rightarrow> u64 list" where
  "sync_numbers (SyncAppended r) = req_JournalIDs r"
| "sync_numbers (SyncAnswered r resp status hs e) = req_JournalIDs r"
| "sync_numbers _ = []"

definition with_held :: "('q \<Rightarrow> ClickhouseRequest list) \<Rightarrow> turn list \<Rightarrow> 'q \<Rightarrow> ClickhouseRequest list" where
  "with_held items ts q = concat (map held ts) @ items q"

definition request_arrived :: "ClickhouseRequest \<Rightarrow> 'q worker \<Rightarrow> bool" where
  "request_arrived r s = (\<forall>x. x \<noteq> [] \<longrightarrow> contains (req_Content r) x \<longrightarrow> arrived x s)"

fun turn_ok :: "'q worker \<Rightarrow> turn \<Rightarrow> bool" where
  "turn_ok s (Taken r) = dumpable r"
| "turn_ok s (Answered r q) = (dumpable r \<and> (if rp_err q = None then request_arrived r s else 400 \<le> rp_status q))"
| "turn_ok s (Stored r) = request_arrived r s"
| "turn_ok s (SyncAnswered r resp status hs e) = (e \<noteq> None \<longrightarrow> 400 \<le> status)"
| "turn_ok s _ = True"

definition turns_inv :: "('q \<Rightarrow> ClickhouseRequest list) \<Rightarrow> 'q Server \<times> turn list \<Rightarrow> bool" where
  "turns_inv items = (\<lambda>(sv, ts). system_inv (with_held items ts) sv \<and> (\<forall>t \<in> set ts. turn_ok (live sv) t))"

definition turns_safe :: "('q \<Rightarrow> ClickhouseRequest list) \<Rightarrow> journalRecord \<Rightarrow> string \<Rightarrow> 'q Server \<times> turn list \<Rightarrow> bool" where
  "turns_safe items k x = (\<lambda>(sv, ts). arrived x (live sv)
     \<or> insert_safe (with_held items ts) k x sv \<and> (\<forall>t \<in> set ts. rec_ID k \<notin> set (sync_numbers t)))"

end
