(* ===== verification/Turns_Facts.thy ===== *)
theory Turns_Facts
  imports Turns
begin

text \<open>
  Every step of the interleaved program keeps its invariant and every accepted insert; and the turns that
  are not interrupted are the steps of \<open>System\<close>.
\<close>

interpretation cutting: batch_queue cutter "\<lambda>_. True" "\<lambda>rs. rs"
  by unfold_locales (simp_all add: cutter_def)

lemma on_its_way_append: "on_its_way i x c (rs @ rs') = (on_its_way i x c rs \<and> (\<forall>r \<in> set rs'. carries i x r))"
  by (auto simp: on_its_way_def)

lemma sends_with_held: "sends (with_held items ts) s = concat (map held ts) @ sends items s"
  by (simp add: sends_def with_held_def)

lemma with_held_none [simp]: "with_held items [] = items"
  by (rule ext) (simp add: with_held_def)

lemma moving_held: "moving (with_held items ts) sv = moving items sv + request_ids (concat (map held ts))"
  by (simp add: moving_def sends_with_held request_ids_app ac_simps)

lemma system_inv_held:
  "system_inv (with_held items ts) sv = (target_inv (live sv) \<and> coll_ok (sv_Collector sv) \<and> sv_hasLive sv
     \<and> moving items sv + request_ids (concat (map held ts)) \<subseteq># mset (pending_ids (live sv)))"
  by (simp add: system_inv_def moving_held)

lemma insert_safe_held:
  "turns_safe items k x (sv, ts) = (arrived x (live sv)
     \<or> k \<in> set (pending_recs (live sv)) \<and> spawned_carries (rec_ID k) x (sv_spawned sv)
        \<and> on_its_way (rec_ID k) x (sv_Collector sv) (sends items (live sv))
        \<and> (\<forall>t \<in> set ts. (\<forall>r \<in> set (held t). carries (rec_ID k) x r) \<and> rec_ID k \<notin> set (sync_numbers t)))"
  by (auto simp: turns_safe_def insert_safe_def sends_with_held on_its_way_append on_its_way_def)

text \<open>What arrives stays: a record that is nowhere is as good as none.\<close>

lemma turn_ok_mono:
  "(\<And>x. x \<noteq> [] \<Longrightarrow> arrived x s \<Longrightarrow> arrived x s') \<Longrightarrow> turn_ok s t \<Longrightarrow> turn_ok s' t"
  by (cases t) (auto simp: request_arrived_def split: if_splits)

lemma not_pending_zero: "target_inv s \<Longrightarrow> k \<in> set (pending_recs s) \<Longrightarrow> rec_ID k \<noteq> 0"
  using pending_ids_known(3) by (fastforce simp: target_inv_def)

section \<open>A turn\<close>

text \<open>
  A step of a turn that passes some of what it holds to the queue and acknowledges some.
\<close>

definition turn_effect :: "('q \<Rightarrow> ClickhouseRequest list) \<Rightarrow> 'q worker \<Rightarrow> turn \<Rightarrow> turn \<Rightarrow> 'q worker
    \<Rightarrow> ClickhouseRequest list \<Rightarrow> u64 list \<Rightarrow> bool" where
  "turn_effect items s0 t t' s news gone = (target_inv s
     \<and> sends items s = sends items s0 @ news
     \<and> pending_recs s = filter (\<lambda>k. rec_ID k \<notin> set gone) (pending_recs s0)
     \<and> request_ids (held t') + request_ids news + mset gone \<subseteq># request_ids (held t)
     \<and> set (held t') \<union> set news \<subseteq> set (held t) \<and> set (sync_numbers t') \<subseteq> set (sync_numbers t)
     \<and> (\<forall>x. x \<noteq> [] \<longrightarrow> arrived x s0 \<longrightarrow> arrived x s) \<and> turn_ok s t'
     \<and> (\<forall>i x. i \<in> set gone \<longrightarrow> i \<notin> set (sync_numbers t) \<longrightarrow> x \<noteq> [] \<longrightarrow> (\<forall>r \<in> set (held t). carries i x r) \<longrightarrow> arrived x s))"

lemma turn_keeps:
  assumes "turns_inv items (sv, us @ t # vs)" "live_after sv s sv'" "turn_effect items (live sv) t t' s news gone" "x \<noteq> []"
  shows "turns_inv items (sv', us @ t' # vs)"
    "turns_safe items k x (sv, us @ t # vs) \<Longrightarrow> turns_safe items k x (sv', us @ t' # vs)"
proof -
  obtain tg where sv': "sv' = sv\<lparr>sv_targets := tg\<rparr>" "tg_live tg = s" using assms(2) by (auto simp: live_after_def)
  have e: "target_inv s" "sends items s = sends items (live sv) @ news"
    "pending_recs s = filter (\<lambda>k. rec_ID k \<notin> set gone) (pending_recs (live sv))"
    "request_ids (held t') + request_ids news + mset gone \<subseteq># request_ids (held t)"
    "set (held t') \<union> set news \<subseteq> set (held t)" "set (sync_numbers t') \<subseteq> set (sync_numbers t)"
    "\<And>x. x \<noteq> [] \<Longrightarrow> arrived x (live sv) \<Longrightarrow> arrived x s" "turn_ok s t'"
    "\<And>i x. i \<in> set gone \<Longrightarrow> i \<notin> set (sync_numbers t) \<Longrightarrow> x \<noteq> [] \<Longrightarrow> (\<forall>r \<in> set (held t). carries i x r) \<Longrightarrow> arrived x s"
    using assms(3) unfolding turn_effect_def by blast+
  have inv: "target_inv (live sv)" "system_inv (with_held items (us @ t # vs)) sv" "\<forall>t \<in> set (us @ t # vs). turn_ok (live sv) t"
    using assms(1) by (auto simp: turns_inv_def system_inv_def)
  obtain j where j: "wk_journal (live sv) = Some j" using inv(1) by (auto simp: target_inv_def)
  let ?others = "moving items sv + request_ids (concat (map held us)) + request_ids (concat (map held vs))"
  have mv: "?others + request_ids (held t) \<subseteq># mset (pending_ids (live sv))"
    using inv(2) by (simp add: system_inv_held request_ids_app ac_simps)
  have "?others + (request_ids (held t') + request_ids news + mset gone) \<subseteq># mset (pending_ids (live sv))"
    using subset_mset.order_trans [OF subset_mset.add_left_mono [OF e(4)] mv] .
  then have "(?others + request_ids (held t') + request_ids news) + mset gone \<subseteq># mset (pending_ids (live sv))"
    by (simp add: ac_simps)
  from submultiset_unacked [OF this pending_ids_known(1) [OF inv(1) j]] e(3)
  have "?others + request_ids (held t') + request_ids news \<subseteq># mset (pending_ids s)"
    by (simp add: filter_map comp_def)
  then have "system_inv (with_held items (us @ t' # vs)) sv'"
    using inv(2) e(1,2) sv' by (simp add: system_inv_held moving_def request_ids_app ac_simps)
  moreover have "turn_ok s u" if "u \<in> set (us @ t' # vs)" for u
    using that inv(3) e(8) turn_ok_mono [where t = u, OF e(7)] by auto
  ultimately show "turns_inv items (sv', us @ t' # vs)" using sv' by (auto simp: turns_inv_def)
  assume st: "turns_safe items k x (sv, us @ t # vs)"
  show "turns_safe items k x (sv', us @ t' # vs)"
  proof (cases "arrived x (live sv)")
    case True
    with e(7) assms(4) sv' show ?thesis by (simp add: insert_safe_held)
  next
    case False
    with st have p: "k \<in> set (pending_recs (live sv))" "spawned_carries (rec_ID k) x (sv_spawned sv)"
      "on_its_way (rec_ID k) x (sv_Collector sv) (sends items (live sv))"
      "\<forall>u \<in> set (us @ t # vs). (\<forall>r \<in> set (held u). carries (rec_ID k) x r) \<and> rec_ID k \<notin> set (sync_numbers u)"
      unfolding insert_safe_held by blast+
    show ?thesis
    proof (cases "rec_ID k \<in> set gone")
      case True
      with e(9) [OF True] p(4) assms(4) sv' show ?thesis by (simp add: insert_safe_held)
    next
      case False
      have "\<forall>r \<in> set news. carries (rec_ID k) x r" "\<forall>r \<in> set (held t'). carries (rec_ID k) x r"
        "rec_ID k \<notin> set (sync_numbers t')" using p(4) e(5,6) by auto
      with False p e(2,3) sv' show ?thesis by (simp add: insert_safe_held on_its_way_append)
    qed
  qed
qed

text \<open>Each step of a turn has such an effect.\<close>

lemma live_after_update [simp]: "live_after sv s (sv\<lparr>sv_targets := t\<rparr>) = (tg_live t = s)"
proof
  assume "live_after sv s (sv\<lparr>sv_targets := t\<rparr>)"
  then obtain u where u: "sv\<lparr>sv_targets := t\<rparr> = sv\<lparr>sv_targets := u\<rparr>" "tg_live u = s" by (auto simp: live_after_def)
  from arg_cong [OF u(1), of sv_targets] u(2) show "tg_live t = s" by simp
qed (auto simp: live_after_def)

lemma live_after_with_live: "live_after sv (f (live sv)) (with_live f sv)"
  by (auto simp: live_after_def with_live_def)

lemma query_turn:
  assumes "SendQuery E r (wk_ch s) (wk_world s) = Some (q, c, w)" "target_inv s"
  defines "s' \<equiv> s\<lparr>wk_ch := c, wk_world := w\<rparr>"
  shows "target_inv s'" "sends items s' = sends items s" "pending_recs s' = pending_recs s"
    "arrived x s \<Longrightarrow> arrived x s'" "rp_err q = None \<Longrightarrow> request_arrived r s'" "rp_err q \<noteq> None \<Longrightarrow> 400 \<le> rp_status q"
  using query_target [OF assms(1,2)] by (auto simp: s'_def sends_def request_arrived_def)

lemma taken_effect:
  assumes "turn_next Q E E' (Taken r) sv = Some (t', sv')" "target_inv (live sv)" "turn_ok (live sv) (Taken r)"
  shows "\<exists>s. live_after sv s sv' \<and> turn_effect items (live sv) (Taken r) t' s [] []"
proof -
  obtain q c w where q: "SendQuery E r (wk_ch (live sv)) (wk_world (live sv)) = Some (q, c, w)"
    "t' = Answered r q" "sv' = with_live (\<lambda>s. s\<lparr>wk_ch := c, wk_world := w\<rparr>) sv"
    using assms(1) by (auto split: option.splits)
  note t = query_turn [OF q(1) assms(2)]
  from t assms(3) q(2) have "turn_effect items (live sv) (Taken r) t' ((live sv)\<lparr>wk_ch := c, wk_world := w\<rparr>) [] []"
    by (simp add: turn_effect_def request_ids_def)
  with live_after_with_live q(3) show ?thesis by blast
qed

lemma answered_effect:
  assumes "turn_next Q E E' (Answered r q) sv = Some (t', sv')" "target_inv (live sv)" "turn_ok (live sv) (Answered r q)"
  shows "\<exists>s. live_after sv s sv' \<and> turn_effect items (live sv) (Answered r q) t' s [] []"
proof (cases "rp_err q")
  case None
  with assms(1) have e: "t' = Stored r" "sv' = with_live (\<lambda>s. s) sv" by (simp_all add: with_live_def)
  with None assms(2,3) have "turn_effect items (live sv) (Answered r q) t' (live sv) [] []"
    by (simp add: turn_effect_def request_ids_def)
  with e(2) live_after_with_live [of sv "\<lambda>s. s"] show ?thesis by blast
next
  case (Some e)
  obtain res s where d: "ch_Dump (req_Params r) (req_Content r) (rp_response q) (dump_kind (rp_status q)) (rp_status q) (live sv) = (res, s)"
    by (metis surj_pair)
  have dp: "dumpable r" "400 \<le> rp_status q" using assms(3) Some by simp_all
  note t = dump_target [OF d assms(2) dp(2)]
  have sv': "sv' = with_live (\<lambda>_. s) sv" "t' = (case res of Inl _ \<Rightarrow> Leaving | Inr _ \<Rightarrow> Stored r)"
    using assms(1) Some d by (auto split: sum.splits)
  have "turn_effect items (live sv) (Answered r q) t' s [] []"
    using t dp sv'(2) by (auto simp: turn_effect_def sends_def request_ids_def request_arrived_def split: sum.split)
  with sv'(1) show ?thesis by (auto simp: live_after_def with_live_def)
qed

lemma stored_effect:
  assumes "target_inv (live sv)" "turn_ok (live sv) (Stored r)" "set (req_JournalIDs r) \<subseteq> set (pending_ids (live sv))"
  shows "turn_effect items (live sv) (Stored r) Leaving (ackJournal E (req_JournalIDs r) (live sv)) [] (req_JournalIDs r)"
proof -
  note t = ack_target [OF assms(1,3)]
  have "sends items (ackJournal E (req_JournalIDs r) (live sv)) = sends items (live sv)"
    by (simp add: sends_def ackJournal_def split: option.split prod.split)
  with t assms(2) show ?thesis
    by (auto simp: turn_effect_def request_ids_def request_arrived_def carries_def)
qed

lemma sync_query_effect:
  assumes "turn_next Q E E' (SyncAppended r) sv = Some (t', sv')" "target_inv (live sv)" "sv_hasLive sv"
  shows "\<exists>s. live_after sv s sv' \<and> turn_effect items (live sv) (SyncAppended r) t' s [] []"
proof -
  obtain q c w where q: "SendQuery E r (wk_ch (live sv)) (wk_world (live sv)) = Some (q, c, w)"
    using assms(1,3) by (auto split: option.splits)
  let ?s = "(live sv)\<lparr>wk_ch := c, wk_world := w\<rparr>"
  note t = query_turn [OF q assms(2)]
  have after: "live_after sv ?s sv'"
    using assms(1,3) q by (auto simp: Let_def with_live_def split: option.splits if_splits)
  obtain resp st hs e where t': "t' = SyncAnswered r resp st hs e" "e \<noteq> None \<Longrightarrow> 400 \<le> st"
    using assms(1,3) q t(6) by (cases "rp_err q") (auto simp: Let_def split: if_splits)
  have "turn_effect items (live sv) (SyncAppended r) t' ?s [] []"
    using t(1-4) t'(1,2) by (auto simp: turn_effect_def request_ids_def)
  with after show ?thesis by blast
qed

lemma sync_finish_effect:
  assumes "turn_next Q E E' (SyncAnswered r resp st hs e) sv = Some (t', sv')" "target_inv (live sv)" "sv_hasLive sv"
    "turn_ok (live sv) (SyncAnswered r resp st hs e)" "set (req_JournalIDs r) \<subseteq> set (pending_ids (live sv))"
  shows "\<exists>s. live_after sv s sv' \<and> turn_effect items (live sv) (SyncAnswered r resp st hs e) t' s [] (req_JournalIDs r)"
proof -
  define s1 where "s1 = (if e \<noteq> None then snd (ch_Dump (req_Params r) (req_Content r) resp (dump_kind st) st (live sv)) else live sv)"
  have s1: "target_inv s1" "pending_recs s1 = pending_recs (live sv)" "wk_ch s1 = wk_ch (live sv)"
    "\<And>x. arrived x (live sv) \<Longrightarrow> arrived x s1"
  proof -
    obtain res s where d: "ch_Dump (req_Params r) (req_Content r) resp (dump_kind st) st (live sv) = (res, s)"
      by (metis surj_pair)
    from dump_target [OF d assms(2)] assms(2,4) d
    show "target_inv s1" "pending_recs s1 = pending_recs (live sv)" "wk_ch s1 = wk_ch (live sv)"
      "\<And>x. arrived x (live sv) \<Longrightarrow> arrived x s1"
      by (auto simp: s1_def)
  qed
  let ?s = "ackJournal E (req_JournalIDs r) s1"
  have ids: "set (req_JournalIDs r) \<subseteq> set (pending_ids s1)" using assms(5) s1(2) by simp
  note t = ack_target [OF s1(1) ids]
  have "sends items ?s = sends items (live sv)"
    using s1(3) by (simp add: sends_def ackJournal_def split: option.split prod.split)
  moreover have "t' = Over" "live_after sv ?s sv'"
    using assms(1,3) by (auto simp: finishSyncInsert_def Let_def with_live_def s1_def split: if_splits)
  ultimately show ?thesis
    using t s1 by (intro exI [of _ ?s]) (auto simp: turn_effect_def request_ids_def)
qed

lemma turn_next_keeps:
  assumes put: "\<And>q r. items (q_Put Q r q) = items q @ [r]"
    and st: "turn_next Q E E' t sv = Some (t', sv')" and i: "turns_inv items (sv, us @ t # vs)" and "x \<noteq> []"
  shows "turns_inv items (sv', us @ t' # vs)"
    "turns_safe items k x (sv, us @ t # vs) \<Longrightarrow> turns_safe items k x (sv', us @ t' # vs)"
proof -
  have inv: "target_inv (live sv)" "turn_ok (live sv) t" "sv_hasLive sv"
    and sub: "request_ids (held t) \<subseteq># mset (pending_ids (live sv))"
    using i by (auto simp: turns_inv_def system_inv_held request_ids_app
        intro: subset_mset.order_trans [rotated])
  have ids: "r \<in> set (held t) \<Longrightarrow> set (req_JournalIDs r) \<subseteq> set (pending_ids (live sv))" for r
    using set_mset_mono [OF sub] by (auto simp: request_ids_def)
  have "\<exists>s news gone. live_after sv s sv' \<and> turn_effect items (live sv) t t' s news gone"
  proof (cases t)
    case (Cut rs)
    show ?thesis
    proof (cases rs)
      case Nil
      with Cut st inv have "t' = Over" "sv' = with_live (\<lambda>s. s) sv" "turn_effect items (live sv) t t' (live sv) [] []"
        by (simp_all add: turn_effect_def request_ids_def with_live_def)
      with live_after_with_live [of sv "\<lambda>s. s"] show ?thesis by blast
    next
      case (Cons r rs')
      let ?s = "s_Send (worker_sender Q E) r (live sv)"
      have rq: "requeued (live sv) ?s" by (rule requeued_Send [OF requeued_refl])
      have "turn_effect items (live sv) t (Cut rs') ?s [r] []"
        using Cut Cons inv(1) put requeued_target [OF rq]
        by (auto simp: turn_effect_def request_ids_def sends_def worker_sender_def Send_def)
      moreover have "t' = Cut rs'" "live_after sv ?s sv'"
        using st Cut Cons by (auto simp: main_sender_def Let_def)
      ultimately show ?thesis by blast
    qed
  next
    case (Taken r)
    with taken_effect inv st show ?thesis by blast
  next
    case (Answered r q)
    with answered_effect inv st show ?thesis by blast
  next
    case (Stored r)
    with stored_effect [OF inv(1)] inv(2) ids st live_after_with_live show ?thesis by fastforce
  next
    case Leaving
    have rq: "requeued (live sv) (wg_Done (live sv))"
      unfolding requeued_def wg_Done_def
      by (intro exI [of _ "ch_Queue (wk_ch (live sv))"] exI [of _ "ch_wg (wk_ch (live sv)) - 1"]) simp
    have "turn_effect items (live sv) t Over (wg_Done (live sv)) [] []"
      using Leaving inv requeued_target [OF rq] by (simp add: turn_effect_def request_ids_def sends_def wg_Done_def)
    with Leaving st live_after_with_live show ?thesis by fastforce
  next
    case (SyncAppended r)
    with sync_query_effect inv st show ?thesis by blast
  next
    case (SyncAnswered r resp status hs e)
    with sync_finish_effect inv st ids show ?thesis by fastforce
  next
    case Over
    with st show ?thesis by simp
  qed
  then obtain s news gone where "live_after sv s sv'" "turn_effect items (live sv) t t' s news gone" by blast
  from turn_keeps [OF i this assms(4)]
  show "turns_inv items (sv', us @ t' # vs)"
    "turns_safe items k x (sv, us @ t # vs) \<Longrightarrow> turns_safe items k x (sv', us @ t' # vs)" by blast+
qed

section \<open>The other steps\<close>

lemma arrived_kept:
  assumes "\<And>k. insert_safe items k x sv \<Longrightarrow> insert_safe items k x sv'" "target_inv (live sv')" "arrived x (live sv)"
  shows "arrived x (live sv')"
proof -
  have "insert_safe items (text_record 0 [] []) x sv'" using assms(1,3) by (simp add: insert_safe_def)
  moreover have "text_record 0 [] [] \<notin> set (pending_recs (live sv'))"
    using not_pending_zero [OF assms(2)] by (fastforce simp: text_record_def)
  ultimately show ?thesis by (simp add: insert_safe_def)
qed

text \<open>A step of the whole that leaves the turns alone.\<close>

lemma same_turns_keep:
  assumes "turns_inv items (sv, ts)" "system_inv (with_held items ts) sv'"
    and "\<And>k x. x \<noteq> [] \<Longrightarrow> insert_safe (with_held items ts) k x sv \<Longrightarrow> insert_safe (with_held items ts) k x sv'" "x \<noteq> []"
  shows "turns_inv items (sv', ts)" "turns_safe items k x (sv, ts) \<Longrightarrow> turns_safe items k x (sv', ts)"
proof -
  have "target_inv (live sv')" using assms(2) by (simp add: system_inv_def)
  from arrived_kept [OF assms(3) this]
  have ar: "arrived x (live sv')" if "x \<noteq> []" "arrived x (live sv)" for x using that by blast
  have "turn_ok (live sv') t" if "t \<in> set ts" for t
    using assms(1) that turn_ok_mono [where t = t, OF ar] by (auto simp: turns_inv_def)
  with assms(2) show "turns_inv items (sv', ts)" by (simp add: turns_inv_def)
  show "turns_safe items k x (sv, ts) \<Longrightarrow> turns_safe items k x (sv', ts)"
    using ar assms(3,4) by (auto simp: turns_safe_def)
qed

lemma clean_handler_keeps:
  assumes "system_inv items sv"
  shows "system_inv items (sv\<lparr>sv_Collector := tablesCleanHandler (sv_Collector sv)\<rparr>)"
    "insert_safe items k x sv \<Longrightarrow> insert_safe items k x (sv\<lparr>sv_Collector := tablesCleanHandler (sv_Collector sv)\<rparr>)"
proof -
  let ?c = "sv_Collector sv"
  have st: "coll_step cutter CCleanEmpty (?c, []) = Some (tablesCleanHandler ?c, [])" by simp
  have ok: "coll_ok ?c" using assms by (simp add: system_inv_def)
  from cutting.coll_step_conserves [OF TrueI ok, of CCleanEmpty "[]"] st
  show "system_inv items (sv\<lparr>sv_Collector := tablesCleanHandler ?c\<rparr>)"
    using assms by (simp add: system_inv_def moving_def)
  have "on_its_way i x ?c rs \<Longrightarrow> on_its_way i x (tablesCleanHandler ?c) rs" for i rs
    by (auto simp: on_its_way_def tablesCleanHandler_def)
  then show "insert_safe items k x sv \<Longrightarrow> insert_safe items k x (sv\<lparr>sv_Collector := tablesCleanHandler ?c\<rparr>)"
    by (auto simp: insert_safe_def)
qed

lemma guard_items: "uncut cd a sv \<Longrightarrow> sys_guard cd items a sv = sys_guard cd items' a sv"
  by (cases a) simp_all

lemma uncut_keeps:
  assumes "system_inv items sv" "uncut cd a sv" "sys_guard cd items a sv" "sys_step cd Q E E' a sv = Some sv'" "x \<noteq> []"
  shows "system_inv items sv'" "insert_safe items k x sv \<Longrightarrow> insert_safe items k x sv'"
proof -
  have "system_inv items sv' \<and> (insert_safe items k x sv \<longrightarrow> insert_safe items k x sv')"
  proof (cases a)
    case (SysRequest rq)
    with assms(4) obtain rep where "run_plan Q E E' (plan_of cd rq sv) sv = Some (rep, sv')" by (auto simp: handler_plan)
    from plan_keeps [OF this assms(1)] assms(3) SysRequest show ?thesis by simp
  next
    case SysClean
    with clean_handler_keeps [OF assms(1)] assms(4) show ?thesis by auto
  next
    case SysReplay
    then obtain s where s: "replay_step Q E (live sv) = Some s" "sv' = with_live (\<lambda>_. s) sv" using assms(4) by auto
    from replay_step_keeps [OF assms(1) s(1) assms(5)] s(2) show ?thesis by simp
  next
    case (SysCleanTimer now)
    with cleaning_keeps [OF assms(1)] assms(4) show ?thesis by auto
  next
    case (SysReplayFailed target limit)
    with assms(4) obtain rep where "replayFailedHandler Q E E' target limit sv = Some (rep, sv')" by auto
    from replayFailedHandler_keeps [OF this assms(1,5)] show ?thesis by simp
  next
    case SysBackupWorker
    with assms(1,4) show ?thesis
      by (auto simp: system_inv_def insert_safe_def moving_def split: option.splits)
  next
    case SysBackupReplay
    with assms(1,4) show ?thesis
      by (auto simp: system_inv_def insert_safe_def moving_def split: option.splits)
  qed (use assms(2) in simp_all)
  then show "system_inv items sv'" "insert_safe items k x sv \<Longrightarrow> insert_safe items k x sv'" by blast+
qed

text \<open>A collecting step: what leaves the tables is in the new turn.\<close>

lemma collected_keeps:
  assumes "turns_inv items (sv, ts)" "sv_spawned sv = gs"
    and "coll_step cutter a (sv_Collector sv, []) = Some (c, rs)"
    and "spawned_ids gs = spawned_ids hs + mset (cop_ids a)" "set hs \<subseteq> set gs"
    and "\<And>i x. i \<noteq> 0 \<Longrightarrow> spawned_carries i x gs \<Longrightarrow> cop_carries i x a"
    and "sv' = sv\<lparr>sv_spawned := hs, sv_Collector := c\<rparr>"
  shows "turns_inv items (sv', ts @ [Cut rs])" "turns_safe items k x (sv, ts) \<Longrightarrow> turns_safe items k x (sv', ts @ [Cut rs])"
proof -
  have ok: "coll_ok (sv_Collector sv)" "target_inv (live sv)" using assms(1) by (auto simp: turns_inv_def system_inv_def)
  from cutting.coll_step_conserves [OF TrueI ok(1), of a "[]"] assms(3)
  have st: "coll_ok c" "held_ids c + request_ids rs = held_ids (sv_Collector sv) + mset (cop_ids a)"
    by (auto simp: request_ids_def)
  have "moving items sv' + request_ids rs = moving items sv"
    using st(2) assms(2,4,7) by (simp add: moving_def ac_simps)
  then have "moving items sv' + request_ids (concat (map held (ts @ [Cut rs]))) = moving items sv + request_ids (concat (map held ts))"
    by (simp add: request_ids_app ac_simps)
  then show "turns_inv items (sv', ts @ [Cut rs])"
    using assms(1,7) st(1) by (auto simp: turns_inv_def system_inv_held)
  assume s: "turns_safe items k x (sv, ts)"
  show "turns_safe items k x (sv', ts @ [Cut rs])"
  proof (cases "arrived x (live sv)")
    case True
    with assms(7) show ?thesis by (simp add: insert_safe_held)
  next
    case False
    with s assms(2) have p: "k \<in> set (pending_recs (live sv))" "spawned_carries (rec_ID k) x gs"
      "on_its_way (rec_ID k) x (sv_Collector sv) (sends items (live sv))"
      "\<forall>t \<in> set ts. (\<forall>r \<in> set (held t). carries (rec_ID k) x r) \<and> rec_ID k \<notin> set (sync_numbers t)"
      unfolding insert_safe_held by blast+
    have n0: "rec_ID k \<noteq> 0" using not_pending_zero [OF ok(2) p(1)] .
    have "on_its_way (rec_ID k) x (sv_Collector sv) []" using p(3) by (simp add: on_its_way_def)
    from cutting.coll_step_carries [OF TrueI ok(1) this assms(6) [OF n0 p(2)] assms(3)]
    have "on_its_way (rec_ID k) x c rs" .
    with p spawned_carries_split [OF p(2) assms(5)] assms(7) show ?thesis
      by (auto simp: insert_safe_held on_its_way_def)
  qed
qed

lemma collect_keeps:
  assumes "turns_inv items (sv, ts)" "collect a sv = Some (sv', rs)"
  shows "turns_inv items (sv', ts @ [Cut rs])" "turns_safe items k x (sv, ts) \<Longrightarrow> turns_safe items k x (sv', ts @ [Cut rs])"
proof -
  have "turns_inv items (sv', ts @ [Cut rs]) \<and> (turns_safe items k x (sv, ts) \<longrightarrow> turns_safe items k x (sv', ts @ [Cut rs]))"
  proof (cases a)
    case (SysSpawned n now)
    then have n: "n < length (sv_spawned sv)" using assms(2) by (cases "n < length (sv_spawned sv)") auto
    let ?g = "sv_spawned sv ! n" and ?hs = "take n (sv_spawned sv) @ drop (Suc n) (sv_spawned sv)"
    have d: "drop n (sv_spawned sv) = ?g # drop (Suc n) (sv_spawned sv)" using n by (simp add: Cons_nth_drop_Suc)
    obtain c where st: "coll_step cutter (spawned_op now ?g) (sv_Collector sv, []) = Some (c, rs)"
      "sv' = sv\<lparr>sv_spawned := ?hs, sv_Collector := c\<rparr>"
      using assms(2) SysSpawned d by auto
    have ids: "spawned_ids (sv_spawned sv) = spawned_ids ?hs + mset (cop_ids (spawned_op now ?g))"
      using spawned_ids_split [OF n] by (cases ?g) simp_all
    have gin: "?g \<in> set (sv_spawned sv)" using n by simp
    have car: "cop_carries i x (spawned_op now ?g)" if "spawned_carries i x (sv_spawned sv)" for i x
    proof -
      have "spawned_id ?g = i \<longrightarrow> contains (spawned_text ?g) x" using that gin by (auto simp: spawned_carries_def)
      then show ?thesis by (cases ?g) simp_all
    qed
    have "set ?hs \<subseteq> set (sv_spawned sv)" by (auto dest: in_set_takeD in_set_dropD)
    from collected_keeps [OF assms(1) refl st(1) ids this car st(2)] show ?thesis by simp
  next
    case (SysTick n)
    then obtain c where st: "coll_step cutter (CTick n) (sv_Collector sv, []) = Some (c, rs)"
      "sv' = sv\<lparr>sv_spawned := sv_spawned sv, sv_Collector := c\<rparr>" using assms(2) by auto
    from collected_keeps [OF assms(1) refl st(1) _ _ _ st(2)] show ?thesis by simp
  next
    case SysFlushAll
    then obtain c where st: "coll_step cutter CFlushAll (sv_Collector sv, []) = Some (c, rs)"
      "sv' = sv\<lparr>sv_spawned := sv_spawned sv, sv_Collector := c\<rparr>" using assms(2) by auto
    from collected_keeps [OF assms(1) refl st(1) _ _ _ st(2)] show ?thesis by simp
  qed (use assms(2) in simp_all)
  then show "turns_inv items (sv', ts @ [Cut rs])"
    "turns_safe items k x (sv, ts) \<Longrightarrow> turns_safe items k x (sv', ts @ [Cut rs])" by blast+
qed

lemma poll_keeps:
  assumes "items (ch_Queue (wk_ch (live sv))) = r # items q" "dumpable r" "turns_inv items (sv, ts)"
  defines "sv' \<equiv> with_live (\<lambda>s. s\<lparr>wk_ch := (wk_ch s)\<lparr>ch_Queue := q\<rparr>\<rparr>) sv"
  shows "turns_inv items (sv', ts @ [Taken r])" "turns_safe items k x (sv, ts) \<Longrightarrow> turns_safe items k x (sv', ts @ [Taken r])"
proof -
  have "requeued (live sv) (live sv')"
    unfolding requeued_def sv'_def
    by (intro exI [of _ q] exI [of _ "ch_wg (wk_ch (live sv))"]) simp
  note same = requeued_target [OF this]
  have sd: "sends items (live sv) = r # sends items (live sv')" using assms(1) by (simp add: sends_def sv'_def)
  have fs: "sv_spawned sv' = sv_spawned sv" "sv_Collector sv' = sv_Collector sv" "sv_hasLive sv' = sv_hasLive sv"
    by (simp_all add: sv'_def with_live_def)
  have ids: "moving items sv + request_ids rs = moving items sv' + request_ids (rs @ [r])" for rs
    using sd fs by (simp add: moving_def request_ids_def ac_simps)
  have "turn_ok (live sv') t" if "t \<in> set ts" for t
  proof -
    have "turn_ok (live sv) t" using assms(3) that by (simp add: turns_inv_def)
    with turn_ok_mono [where t = t and s = "live sv"] same(3) show ?thesis by blast
  qed
  then show "turns_inv items (sv', ts @ [Taken r])"
    using assms(2,3) same fs ids by (auto simp: turns_inv_def system_inv_held)
  show "turns_safe items k x (sv, ts) \<Longrightarrow> turns_safe items k x (sv', ts @ [Taken r])"
    using sd fs same by (auto simp: insert_safe_held on_its_way_def)
qed

lemma sync_append_cases:
  assumes "sync_append p sv = Some (t, sv')"
  obtains r req res where "plan_record p = Some r" "appendJournal (appendRecord r) sv = (res, sv')"
    "\<And>i. req_JournalIDs (req i) = id_list i" "t = (case res of Inl _ \<Rightarrow> Over | Inr i \<Rightarrow> SyncAppended (req i))"
proof (cases p)
  case (PText p' c sync)
  then have "sync" using assms by (cases sync) auto
  with assms PText show ?thesis
    by (intro that [of "text_record 0 p' c" "fst (appendJournal (appendRecord (text_record 0 p' c)) sv)" "buildSyncBatchedRequest p' c"])
      (auto simp: Append_text sync_ids split: prod.splits sum.splits)
next
  case (POpaque p' c ct sync)
  then have "sync" using assms by (cases sync) auto
  with assms POpaque show ?thesis
    by (intro that [of "opaque_record 0 p' c ct" "fst (appendJournal (appendRecord (opaque_record 0 p' c ct)) sv)" "buildSyncOpaqueRequest p' c ct"])
      (auto simp: AppendOpaque_record sync_ids split: prod.splits sum.splits)
qed (use assms in auto)

lemma sync_append_keeps:
  assumes "sync_append (plan_of cd rq sv) sv = Some (t, sv')" "sys_guard cd items (SysRequest rq) sv" "turns_inv items (sv, ts)"
  shows "turns_inv items (sv', ts @ [t])" "turns_safe items k x (sv, ts) \<Longrightarrow> turns_safe items k x (sv', ts @ [t])"
proof -
  obtain r req res where a: "plan_record (plan_of cd rq sv) = Some r" "appendJournal (appendRecord r) sv = (res, sv')"
    "\<And>i. req_JournalIDs (req i) = id_list i" "t = (case res of Inl _ \<Rightarrow> Over | Inr i \<Rightarrow> SyncAppended (req i))"
    using sync_append_cases [OF assms(1)] by metis
  have inv: "system_inv (with_held items ts) sv" "\<forall>t \<in> set ts. turn_ok (live sv) t" using assms(3) by (auto simp: turns_inv_def)
  have fits: "record_fits r (live sv)" using assms(2) a(1) by simp
  obtain s where s: "sv' = with_live (\<lambda>_. s) sv" "target_inv s" "wk_ch s = wk_ch (live sv)" "\<And>x. arrived x s = arrived x (live sv)"
    "pending_recs s = pending_recs (live sv) @ (case res of Inl _ \<Rightarrow> [] | Inr i \<Rightarrow> [json_reread (r\<lparr>rec_ID := i\<rparr>)])"
    "\<And>i. res = Inr i \<Longrightarrow> 0 < i \<and> i \<notin> set (pending_ids (live sv))"
    using appendJournal_effect [OF a(2) inv(1) fits] by metis
  have fs: "sv_spawned sv' = sv_spawned sv" "sv_Collector sv' = sv_Collector sv" "sv_hasLive sv' = sv_hasLive sv" "live sv' = s"
    "sends items s = sends items (live sv)" "moving items sv' = moving items sv"
    using s(1,3) by (simp_all add: with_live_def sends_def moving_def)
  have ok: "turn_ok s u" if "u \<in> set ts" for u
    using inv(2) that turn_ok_mono [where t = u and s = "live sv" and s' = s] s(4) by blast
  have mv: "moving items sv + request_ids (concat (map held ts)) \<subseteq># mset (pending_ids (live sv))"
    and hl: "coll_ok (sv_Collector sv)" "sv_hasLive sv" using inv(1) by (auto simp: system_inv_held)
  show "turns_inv items (sv', ts @ [t])"
  proof (cases res)
    case (Inl e)
    with a(4) mv hl ok s(2,5) fs show ?thesis by (simp add: turns_inv_def system_inv_held request_ids_app request_ids_def)
  next
    case (Inr n)
    have "moving items sv + request_ids (concat (map held ts)) + {#n#} \<subseteq># mset (pending_ids (live sv)) + {#n#}"
      using mv by simp
    moreover have "request_ids (concat (map held (ts @ [t]))) = request_ids (concat (map held ts)) + {#n#}"
      using a(3,4) Inr s(6) [OF Inr] by (simp add: id_list_def)
    ultimately show ?thesis
      using Inr a(4) hl ok s(2,5) fs by (simp add: turns_inv_def system_inv_held add.assoc)
  qed
  assume st: "turns_safe items k x (sv, ts)"
  show "turns_safe items k x (sv', ts @ [t])"
  proof (cases "arrived x (live sv)")
    case True
    with s(4) fs show ?thesis by (simp add: insert_safe_held)
  next
    case False
    with st have p: "k \<in> set (pending_recs (live sv))" "spawned_carries (rec_ID k) x (sv_spawned sv)"
      "on_its_way (rec_ID k) x (sv_Collector sv) (sends items (live sv))"
      "\<forall>t \<in> set ts. (\<forall>r \<in> set (held t). carries (rec_ID k) x r) \<and> rec_ID k \<notin> set (sync_numbers t)"
      unfolding insert_safe_held by blast+
    have "(\<forall>r \<in> set (held t). rec_ID k \<notin> set (req_JournalIDs r)) \<and> rec_ID k \<notin> set (sync_numbers t)"
    proof (cases res)
      case (Inr n)
      have "rec_ID k \<noteq> n" using s(6) [OF Inr] p(1) by auto
      with a(3,4) Inr show ?thesis by (simp add: id_list_def)
    qed (use a(4) in simp)
    with p s(5) fs show ?thesis by (auto simp: insert_safe_held carries_def split: sum.splits)
  qed
qed

lemma turn_step_keeps:
  assumes "turn_step cd Q E E' items a b" "fifo_api Q items" "turns_inv items a" "x \<noteq> []"
  shows "turns_inv items b \<and> (turns_safe items k x a \<longrightarrow> turns_safe items k x b)"
  using assms(1)
proof cases
  case (uncut a' sv sv' ts)
  have inv: "system_inv (with_held items ts) sv" using assms(3) uncut by (simp add: turns_inv_def)
  have g: "sys_guard cd (with_held items ts) a' sv" using uncut guard_items by metis
  have i: "turns_inv items (sv, ts)" using assms(3) uncut by simp
  have s: "insert_safe (with_held items ts) k x sv \<Longrightarrow> insert_safe (with_held items ts) k x sv'" if "x \<noteq> []" for k x
    by (rule uncut_keeps(2) [OF inv uncut(3) g uncut(5) that])
  from same_turns_keep [OF i uncut_keeps(1) [OF inv uncut(3) g uncut(5) assms(4)] s assms(4)] uncut show ?thesis by simp
next
  case (sync rq sv t sv' ts)
  from sync_append_keeps [OF sync(4,3), of ts] assms(3) sync show ?thesis by blast
next
  case (collect a' sv sv' rs ts)
  from collect_keeps [OF _ collect(3)] assms(3) collect show ?thesis by blast
next
  case (poll ts sv r rs q)
  have "items (ch_Queue (wk_ch (live sv))) = r # items q"
  proof (cases "items (ch_Queue (wk_ch (live sv)))")
    case Nil
    with assms(2) have "q_Poll Q 1 (ch_Queue (wk_ch (live sv))) = None" unfolding fifo_api_def by blast
    with poll show ?thesis by simp
  next
    case (Cons r' rs')
    with assms(2) obtain q' where "q_Poll Q 1 (ch_Queue (wk_ch (live sv))) = Some ([r'], q')" "items q' = rs'"
      unfolding fifo_api_def by blast
    with poll Cons show ?thesis by simp
  qed
  from poll_keeps [OF this poll(5)] assms(3) poll show ?thesis by blast
next
  case (turn t sv t' sv' us vs)
  have "items (q_Put Q r q) = items q @ [r]" for r q using assms(2) by (simp add: fifo_api_def)
  from turn_next_keeps [OF this turn(3)] assms(3,4) turn show ?thesis by blast
qed

lemma turn_reach_keeps:
  assumes "turn_reach cd Q E E' items a b" "fifo_api Q items" "turns_inv items a" "x \<noteq> []" "turns_safe items k x a"
  shows "turns_inv items b \<and> turns_safe items k x b"
  using assms
proof (induction rule: rtranclp_induct)
  case (step b c)
  with turn_step_keeps [OF step.hyps(2)] show ?case by blast
qed simp

section \<open>Uninterrupted turns are the steps of the whole program\<close>

text \<open>The collector with any sender, and with the one that only collects.\<close>

abbreviation sent :: "'s Sender \<Rightarrow> ClickhouseRequest list \<Rightarrow> 's \<Rightarrow> 's" where
  "sent S rs s \<equiv> fold (s_Send S) rs s"

lemma send_cutter: "send_cut S r (sent S rs s) = sent S (send_cut cutter r rs) s"
  by (simp add: send_cut_def cutter_def split: option.split)

lemma Add_cutter:
  "Add S now x i t (sent S rs s) = map_option (\<lambda>(t, rs). (t, sent S rs s)) (Add cutter now x i t rs)"
  by (simp add: Add_sections send_cutter option.map_comp comp_def split_def)

lemma CheckFlush_cutter:
  "CheckFlush S t (sent S rs s) = map_option (\<lambda>(b, t, rs). (b, t, sent S rs s)) (CheckFlush cutter t rs)"
  by (simp add: CheckFlush_sections send_cutter option.map_comp comp_def split_def)

lemma flushTables_cutter:
  "flushTables S ts (sent S rs s) = map_option (\<lambda>(n, ts, rs). (n, ts, sent S rs s)) (flushTables cutter ts rs)"
proof (induction ts arbitrary: rs)
  case (Cons kt ts)
  obtain k t where kt: "kt = (k, t)" by fastforce
  show ?case
  proof (cases "CheckFlush cutter t rs")
    case (Some y)
    obtain b t' rs' where y: "y = (b, t', rs')" by (cases y) auto
    show ?thesis using Some Cons.IH [of rs'] by (cases "flushTables cutter ts rs'") (auto simp: kt y CheckFlush_cutter)
  qed (simp add: kt CheckFlush_cutter)
qed simp

lemma coll_step_cutter:
  "coll_step S a (c, sent S rs s) = map_option (\<lambda>(c, rs). (c, sent S rs s)) (coll_step cutter a (c, rs))"
proof (cases a)
  case (CPush now p x i)
  then show ?thesis
    by (auto simp: Push_def Add_cutter option.map_comp comp_def split_def Let_def split: option.split)
next
  case (COpaque p x ct i)
  then show ?thesis by (simp add: PushOpaque_def cutter_def)
next
  case (CTick k)
  then show ?thesis
    by (simp add: tableTick_def CheckFlush_cutter option.map_comp comp_def split_def split: option.split)
next
  case CFlushAll
  then show ?thesis by (simp add: FlushAll_def flushTables_cutter option.map_comp comp_def split_def)
qed simp

lemma coll_step_cut: 
  assumes "coll_step S a (c, s) = Some (c', s')"
  obtains rs where "coll_step cutter a (c, []) = Some (c', rs)" "s' = sent S rs s"
  using assms coll_step_cutter [of S a c "[]" s] by (cases "coll_step cutter a (c, [])") auto

text \<open>The batches of a turn that is not interrupted.\<close>

lemma cut_turns:
  "turn_reach cd Q E E' items (sv, us @ [Cut rs])
     (sv\<lparr>sv_targets := sent (main_sender Q E E') rs (sv_targets sv)\<rparr>, us @ [Over])"
proof (induction rs arbitrary: sv)
  case Nil
  have "turn_step cd Q E E' items (sv, us @ [Cut []]) (sv, us @ [Over])"
    using turn_step.turn [of Q E E' "Cut []" sv Over sv cd items us "[]"] by simp
  then show ?case by simp
next
  case (Cons r rs)
  let ?S = "main_sender Q E E'" let ?sv = "sv\<lparr>sv_targets := s_Send ?S r (sv_targets sv)\<rparr>"
  have "turn_step cd Q E E' items (sv, us @ [Cut (r # rs)]) (?sv, us @ [Cut rs])"
    using turn_step.turn [of Q E E' "Cut (r # rs)" sv "Cut rs" ?sv cd items us "[]"] by simp
  from converse_rtranclp_into_rtranclp [of "turn_step cd Q E E' items", OF this] Cons.IH [of ?sv] show ?case by simp
qed

lemma turn_snoc:
  "turn_next Q E E' t sv = Some (t', sv') \<Longrightarrow> turn_step cd Q E E' items (sv, us @ [t]) (sv', us @ [t'])"
  using turn_step.turn [of Q E E' t sv t' sv' cd items us "[]"] by simp

lemma collect_turns:
  assumes "sys_step cd Q E E' a sv = Some sv'" "a = SysSpawned n now \<or> a = SysTick k \<or> a = SysFlushAll"
  shows "turn_reach cd Q E E' items (sv, us) (sv', us) \<or> turn_reach cd Q E E' items (sv, us) (sv', us @ [Over])"
proof -
  let ?S = "main_sender Q E E'"
  have "sv' = sv \<or> (\<exists>sv1 rs. collect a sv = Some (sv1, rs) \<and> sv' = sv1\<lparr>sv_targets := sent ?S rs (sv_targets sv1)\<rparr>)"
    using assms(2)
  proof (elim disjE)
    assume a: "a = SysSpawned n now"
    show ?thesis
    proof (cases "drop n (sv_spawned sv)")
      case Nil
      with a assms(1) show ?thesis by (simp add: runSpawned_def)
    next
      case (Cons g gs)
      obtain c t where st: "coll_step ?S (spawned_op now g) (sv_Collector sv, sv_targets sv) = Some (c, t)"
        "sv' = sv\<lparr>sv_spawned := take n (sv_spawned sv) @ gs, sv_Collector := c, sv_targets := t\<rparr>"
        using assms(1) a Cons by (cases g) (auto simp: runSpawned_def Let_def)
      obtain rs where "coll_step cutter (spawned_op now g) (sv_Collector sv, []) = Some (c, rs)" "t = sent ?S rs (sv_targets sv)"
        by (rule coll_step_cut [OF st(1)])
      then have "collect a sv = Some (sv\<lparr>sv_spawned := take n (sv_spawned sv) @ gs, sv_Collector := c\<rparr>, rs)
        \<and> sv' = sv\<lparr>sv_spawned := take n (sv_spawned sv) @ gs, sv_Collector := c\<rparr>\<lparr>sv_targets := sent ?S rs (sv_targets sv)\<rparr>"
        using a Cons st(2) by simp
      then show ?thesis by fastforce
    qed
  next
    assume a: "a = SysTick k"
    obtain c t where st: "coll_step ?S (CTick k) (sv_Collector sv, sv_targets sv) = Some (c, t)"
      "sv' = sv\<lparr>sv_Collector := c, sv_targets := t\<rparr>" using assms(1) a by auto
    obtain rs where "coll_step cutter (CTick k) (sv_Collector sv, []) = Some (c, rs)" "t = sent ?S rs (sv_targets sv)"
      by (rule coll_step_cut [OF st(1)])
    then have "collect a sv = Some (sv\<lparr>sv_Collector := c\<rparr>, rs)
      \<and> sv' = sv\<lparr>sv_Collector := c\<rparr>\<lparr>sv_targets := sent ?S rs (sv_targets sv)\<rparr>"
      using a st(2) by (simp del: coll_step.simps)
    then show ?thesis by fastforce
  next
    assume a: "a = SysFlushAll"
    obtain c t where st: "coll_step ?S CFlushAll (sv_Collector sv, sv_targets sv) = Some (c, t)"
      "sv' = sv\<lparr>sv_Collector := c, sv_targets := t\<rparr>" using assms(1) a by auto
    obtain rs where "coll_step cutter CFlushAll (sv_Collector sv, []) = Some (c, rs)" "t = sent ?S rs (sv_targets sv)"
      by (rule coll_step_cut [OF st(1)])
    then have "collect a sv = Some (sv\<lparr>sv_Collector := c\<rparr>, rs)
      \<and> sv' = sv\<lparr>sv_Collector := c\<rparr>\<lparr>sv_targets := sent ?S rs (sv_targets sv)\<rparr>"
      using a st(2) by (simp del: coll_step.simps)
    then show ?thesis by fastforce
  qed
  then show ?thesis
  proof (elim disjE exE conjE)
    fix sv1 rs
    assume c: "collect a sv = Some (sv1, rs)" "sv' = sv1\<lparr>sv_targets := sent ?S rs (sv_targets sv1)\<rparr>"
    from converse_rtranclp_into_rtranclp [of "turn_step cd Q E E' items", OF turn_step.collect [OF c(1)] cut_turns] c(2)
    show ?thesis by blast
  qed simp
qed

lemma worker_turns:
  assumes "runStep Q E (live sv) = Some s" "list_all dumpable (sends items (live sv))" "fifo_api Q items"
    "list_all (\<lambda>t. \<not> is_worker t) us"
  shows "turn_reach cd Q E E' items (sv, us) (with_live (\<lambda>_. s) sv, us) \<or> turn_reach cd Q E E' items (sv, us) (with_live (\<lambda>_. s) sv, us @ [Over])"
proof (cases "sends items (live sv)")
  case Nil
  then have "s = live sv" using assms(1,3) by (auto simp: sends_def runStep_def fifo_api_def)
  then show ?thesis by (simp add: with_live_def)
next
  case (Cons r rs)
  obtain q' where q': "q_Poll Q 1 (ch_Queue (wk_ch (live sv))) = Some ([r], q')"
    using Cons assms(3) unfolding fifo_api_def sends_def by blast
  let ?f = "\<lambda>s. s\<lparr>wk_ch := (wk_ch s)\<lparr>ch_Queue := q'\<rparr>\<rparr>" let ?sv = "with_live ?f sv"
  obtain s1 where h: "handleRequest E r (?f (live sv)) = Some s1" "s = wg_Done s1"
    using assms(1) q' by (auto simp: runStep_def)
  have t0: "turn_step cd Q E E' items (sv, us) (?sv, us @ [Taken r])"
    using turn_step.poll [OF assms(4) q'] assms(2) Cons by simp
  obtain q c w where q: "SendQuery E r (wk_ch (?f (live sv))) (wk_world (live sv)) = Some (q, c, w)"
    using h(1) by (auto simp: handleRequest_def split: option.splits)
  let ?s2 = "(?f (live sv))\<lparr>wk_ch := c, wk_world := w\<rparr>"
  have t1: "turn_step cd Q E E' items (?sv, us @ [Taken r]) (with_live (\<lambda>_. ?s2) sv, us @ [Answered r q])"
    by (rule turn_snoc) (use q in \<open>simp add: with_live_def\<close>)
  have t4: "turn_step cd Q E E' items (with_live (\<lambda>_. s1) sv, us @ [Leaving]) (with_live (\<lambda>_. s) sv, us @ [Over])"
    by (rule turn_snoc) (use h(2) in \<open>simp add: with_live_def\<close>)
  have t3: "turn_step cd Q E E' items (with_live (\<lambda>_. u) sv, us @ [Stored r])
      (with_live (\<lambda>_. ackJournal E (req_JournalIDs r) u) sv, us @ [Leaving])" for u
    by (rule turn_snoc) (simp add: with_live_def)
  have "turn_reach cd Q E E' items (with_live (\<lambda>_. ?s2) sv, us @ [Answered r q]) (with_live (\<lambda>_. s1) sv, us @ [Leaving])"
  proof (cases "rp_err q")
    case None
    have "turn_step cd Q E E' items (with_live (\<lambda>_. ?s2) sv, us @ [Answered r q]) (with_live (\<lambda>_. ?s2) sv, us @ [Stored r])"
      by (rule turn_snoc) (use None in simp)
    moreover have "s1 = ackJournal E (req_JournalIDs r) ?s2" using h(1) q None by (simp add: handleRequest_def Let_def)
    ultimately show ?thesis using t3 [of ?s2] by (meson converse_rtranclp_into_rtranclp r_into_rtranclp)
  next
    case (Some e)
    obtain res u where d: "ch_Dump (req_Params r) (req_Content r) (rp_response q) (dump_kind (rp_status q)) (rp_status q) ?s2 = (res, u)"
      by (metis surj_pair)
    show ?thesis
    proof (cases res)
      case (Inl x)
      have "turn_step cd Q E E' items (with_live (\<lambda>_. ?s2) sv, us @ [Answered r q]) (with_live (\<lambda>_. u) sv, us @ [Leaving])"
        by (rule turn_snoc) (use Some d Inl in \<open>simp add: with_live_def\<close>)
      moreover have "s1 = u" using h(1) q Some d Inl by (simp add: handleRequest_def Let_def)
      ultimately show ?thesis by blast
    next
      case (Inr x)
      have "turn_step cd Q E E' items (with_live (\<lambda>_. ?s2) sv, us @ [Answered r q]) (with_live (\<lambda>_. u) sv, us @ [Stored r])"
        by (rule turn_snoc) (use Some d Inr in \<open>simp add: with_live_def\<close>)
      moreover have "s1 = ackJournal E (req_JournalIDs r) u" using h(1) q Some d Inr by (simp add: handleRequest_def Let_def)
      ultimately show ?thesis using t3 [of u] by (meson converse_rtranclp_into_rtranclp r_into_rtranclp)
    qed
  qed
  with t0 t1 t4 show ?thesis
    by (meson converse_rtranclp_into_rtranclp rtranclp.rtrancl_into_rtrancl)
qed

lemma sync_turns:
  assumes "run_plan Q E E' (plan_of cd rq sv) sv = Some (rep, sv')" "waits (plan_of cd rq sv)"
    "sys_guard cd items (SysRequest rq) sv"
  shows "turn_reach cd Q E E' items (sv, us) (sv', us @ [Over])"
proof -
  obtain app g req where p: "run_plan Q E E' (plan_of cd rq sv) sv = insert_by Q E E' app g req True sv"
    "sync_append (plan_of cd rq sv) sv = (case appendJournal app sv of (Inl e, sv) \<Rightarrow> Some (Over, sv)
       | (Inr i, sv) \<Rightarrow> Some (SyncAppended (req i), sv))"
    using assms(2) by (cases "plan_of cd rq sv") auto
  obtain res sv1 where a: "appendJournal app sv = (res, sv1)" by (metis surj_pair)
  show ?thesis
  proof (cases res)
    case (Inl e)
    then have "sync_append (plan_of cd rq sv) sv = Some (Over, sv')" using p a assms(1) by (simp add: insert_by_def)
    from turn_step.sync [OF assms(3) this] show ?thesis by blast
  next
    case (Inr i)
    have t0: "turn_step cd Q E E' items (sv, us) (sv1, us @ [SyncAppended (req i)])"
      by (rule turn_step.sync [OF assms(3)]) (use p(2) a Inr in simp)
    obtain rp where s: "syncSendInsert Q E E' (req i) sv1 = Some (rp, sv')"
      using assms(1) p(1) a Inr by (auto simp: insert_by_def)
    show ?thesis
    proof (cases "sv_hasLive sv1")
      case False
      then have "turn_step cd Q E E' items (sv1, us @ [SyncAppended (req i)]) (sv', us @ [Over])"
        using s by (intro turn_snoc) (simp add: syncSendInsert_def)
      with t0 show ?thesis by (meson converse_rtranclp_into_rtranclp r_into_rtranclp)
    next
      case True
      obtain q c w where q: "SendQuery E (req i) (wk_ch (live sv1)) (wk_world (live sv1)) = Some (q, c, w)"
        using s True by (auto simp: syncSendInsert_def worker_sender_def split: option.splits)
      obtain t sv2 where t: "turn_next Q E E' (SyncAppended (req i)) sv1 = Some (t, sv2)" "turn_next Q E E' t sv2 = Some (Over, sv')"
        using s True q
        by (cases "rp_err q") (auto simp: syncSendInsert_def worker_sender_def Let_def with_live_def split: if_splits)
      from turn_snoc [OF t(1)] turn_snoc [OF t(2)] t0 show ?thesis
        by (meson converse_rtranclp_into_rtranclp r_into_rtranclp)
    qed
  qed
qed

lemma sys_step_turns:
  assumes "sys_step cd Q E E' a sv = Some sv'" "sys_guard cd items a sv" "fifo_api Q items"
    and "list_all (\<lambda>t. \<not> is_worker t) us"
  shows "turn_reach cd Q E E' items (sv, us) (sv', us) \<or> turn_reach cd Q E E' items (sv, us) (sv', us @ [Over])"
proof (cases "uncut cd a sv")
  case True
  from turn_step.uncut [OF this assms(2,1)] show ?thesis by blast
next
  case False
  then consider (req) rq where "a = SysRequest rq" "waits (plan_of cd rq sv)" | (wk) "a = SysWorker"
    | (coll) n now k where "a = SysSpawned n now \<or> a = SysTick k \<or> a = SysFlushAll"
    by (cases a) auto
  then show ?thesis
  proof cases
    case req
    then obtain rep where "run_plan Q E E' (plan_of cd rq sv) sv = Some (rep, sv')"
      using assms(1) by (auto simp: handler_plan)
    from sync_turns [OF this req(2)] assms(2) req(1) show ?thesis by blast
  next
    case wk
    then obtain s where "runStep Q E (live sv) = Some s" "sv' = with_live (\<lambda>_. s) sv" using assms(1) by auto
    with worker_turns [OF this(1) _ assms(3,4)] assms(2) wk show ?thesis by simp
  next
    case coll
    from collect_turns [OF assms(1) coll] show ?thesis .
  qed
qed

section \<open>An insert that was just accepted\<close>

lemma sync_numbers_held: "set (sync_numbers t) \<subseteq> set_mset (request_ids (held t))"
  by (cases t) (auto simp: request_ids_def)

lemma accepted_not_sync:
  assumes "turns_inv items (sv, ts)" "sv_spawned sv = gs @ [g]"
    and "insert_safe (with_held items ts) (json_reread (r\<lparr>rec_ID := spawned_id g\<rparr>)) x sv"
  shows "turns_safe items (json_reread (r\<lparr>rec_ID := spawned_id g\<rparr>)) x (sv, ts)"
proof (cases "arrived x (live sv)")
  case True
  then show ?thesis by (simp add: turns_safe_def)
next
  case False
  let ?k = "json_reread (r\<lparr>rec_ID := spawned_id g\<rparr>)" and ?i = "spawned_id g"
  have inv: "target_inv (live sv)" "moving items sv + request_ids (concat (map held ts)) \<subseteq># mset (pending_ids (live sv))"
    using assms(1) by (auto simp: turns_inv_def system_inv_held)
  obtain j where "wk_journal (live sv) = Some j" using inv(1) by (auto simp: target_inv_def)
  then have one: "count (mset (pending_ids (live sv))) ?i \<le> 1"
    using pending_ids_known(1) [OF inv(1)] by (simp add: distinct_count_atmost_1)
  have "?k \<in> set (pending_recs (live sv))" using False assms(3) by (simp add: insert_safe_def)
  then have "?i \<noteq> 0" using not_pending_zero [OF inv(1)] by (fastforce simp: json_reread_def)
  then have "?i \<in># moving items sv" using assms(2) by (simp add: moving_def id_list_def word_gt_0)
  then have "1 \<le> count (moving items sv) ?i" by simp
  with one mset_subset_eq_count [OF inv(2), of ?i] have "count (request_ids (concat (map held ts))) ?i = 0" unfolding plus_multiset.rep_eq by linarith
  then have "?i \<notin> set (sync_numbers t)" if "t \<in> set ts" for t
    using sync_numbers_held [of t] that by (auto simp: request_ids_def not_in_iff [symmetric])
  with assms(3) show ?thesis by (auto simp: turns_safe_def json_reread_def)
qed

lemma turns_safeD:
  "turns_inv items (sv, ts) \<and> turns_safe items k x (sv, ts) \<Longrightarrow> replayed_after_crash k (live sv) \<or> arrived x (live sv)"
  unfolding turns_inv_def turns_safe_def using insert_safeD by fastforce

end
