(* ===== verification/Turns_Props.thy ===== *)
theory Turns_Props
  imports Turns_Facts System_Props
begin

text \<open>
  What holds however the goroutines of the program interleave.
\<close>

text \<open>
  C1. An insert whose goroutine was started was answered with 200, also while turns are half done, and at
  every state reached from there by any order of requests, timers, cleanings, replays and steps of turns -
  also while a batch is between a table and the queue, while the worker has a request that is no longer in
  the queue, waits for ClickHouse or has yet to acknowledge, and while inserts wait for their answer -
  and however ClickHouse answers and the dump directory fails: a process that
  starts after a crash there is handed back the record of the insert, or a dump holds the text of the
  insert, or ClickHouse has accepted a request with it. (The journal's own files do not fail; its
  lines fit the scanner; no dump is pruned; the requests can be read back from dumps.)
\<close>

theorem accepted_insert_never_lost_interleaved:
  assumes "fifo_api Q items" "turns_inv items (sv, ts)" "sys_guard cd items (SysRequest rq) sv"
    and "writeHandler cd Q E E' rq sv = Some (rep, sv1)" "sv_spawned sv1 = sv_spawned sv @ [g]" "spawned_text g \<noteq> []"
    and "turn_reach cd Q E E' items (sv1, ts) (sv2, ts2)"
  shows "rep = Some (string_reply 200 []) \<and> (\<exists>r. plan_record (plan_of cd rq sv) = Some r \<and>
     (replayed_after_crash (json_reread (r\<lparr>rec_ID := spawned_id g\<rparr>)) (live sv2)
      \<or> (\<exists>d. wk_dumper (live sv2) = Some d \<and> stored (spawned_text g) d (wk_disk (live sv2)))
      \<or> posted (spawned_text g) (wk_world (live sv2))))"
proof -
  let ?items = "with_held items ts"
  have inv: "system_inv ?items sv" using assms(2) by (simp add: turns_inv_def)
  have p: "run_plan Q E E' (plan_of cd rq sv) sv = Some (rep, sv1)" using assms(4) by (simp add: handler_plan)
  have fits: "case plan_record (plan_of cd rq sv) of None \<Rightarrow> True | Some r \<Rightarrow> record_fits r (live sv)"
    using assms(3) by simp
  note keeps = plan_keeps [OF p inv fits]
  from keeps(3) [OF assms(5)] obtain r where r: "plan_record (plan_of cd rq sv) = Some r"
    "rep = Some (string_reply 200 [])" "insert_safe ?items (json_reread (r\<lparr>rec_ID := spawned_id g\<rparr>)) (spawned_text g) sv1"
    by blast
  have "turns_inv items (sv1, ts)"
    using same_turns_keep(1) [OF assms(2) keeps(1) keeps(2) assms(6)] .
  moreover from this have "turns_safe items (json_reread (r\<lparr>rec_ID := spawned_id g\<rparr>)) (spawned_text g) (sv1, ts)"
    using accepted_not_sync [OF _ assms(5) r(3)] by simp
  ultimately have "turns_inv items (sv2, ts2) \<and> turns_safe items (json_reread (r\<lparr>rec_ID := spawned_id g\<rparr>)) (spawned_text g) (sv2, ts2)"
    by (rule turn_reach_keeps [OF assms(7,1) _ assms(6)])
  from turns_safeD [OF this] r(1,2) show ?thesis unfolding arrived_def by blast
qed

theorem accepted_insert_never_lost_interleaved_witness:
  "\<exists>sv1 sv2 rs rs'. writeHandler demo_codecs list_queue demo_env demo_env demo_insert demo_server
      = Some (Some (string_reply 200 []), sv1)
    \<and> turn_reach demo_codecs list_queue demo_env demo_env (\<lambda>q. q) (sv1, []) (sv2, [Cut rs, Cut rs'])
    \<and> sv_spawned sv2 = [] \<and> held_ids (sv_Collector sv2) = {#} \<and> sends (\<lambda>q. q) (live sv2) = []
    \<and> request_ids rs + request_ids rs' = {#1#}
    \<and> (\<exists>r. replayed_after_crash r (live sv2)
        \<or> (\<exists>d. wk_dumper (live sv2) = Some d \<and> stored ''(1)'' d (wk_disk (live sv2)))
        \<or> posted ''(1)'' (wk_world (live sv2)))"
proof -
  let ?Q = "list_queue" and ?step = "turn_step demo_codecs list_queue demo_env demo_env (\<lambda>q. q)"
  let ?W = "writeHandler demo_codecs ?Q demo_env demo_env demo_insert demo_server"
  let ?g = "SpawnPush demo_params ''(1)'' 1"
  obtain sv1 where sv1: "?W = Some (Some (string_reply 200 []), sv1)" "sv_spawned sv1 = [?g]"
    "sv_Collector sv1 = demo_coll" "ch_Queue (wk_ch (live sv1)) = []"
    using demo_accepts by blast
  have fit: "record_fits (text_record 0 demo_params ''(1)'') demo_live"
    using demo_insert_fits by (simp add: record_fits_def demo_live_def demo_def)
  have guard: "sys_guard demo_codecs (\<lambda>q. q) (SysRequest demo_insert) demo_server"
    using fit by (simp add: demo_plan) (simp add: demo_server_def)
  have inv0: "turns_inv (\<lambda>q. q) (demo_server, [])" using demo_server_inv by (simp add: turns_inv_def)
  have c1: "coll_ok (sv_Collector sv1)" unfolding sv1(3) by (rule demo_coll_ok)
  have h1: "held_ids (sv_Collector sv1) = {#}" "sends (\<lambda>q. q) (live sv1) = []"
    using sv1(3,4) by (simp_all add: sends_def held_ids_def demo_coll_def NewCollector_def)
  obtain c2 rs where p: "Push cutter 0 demo_params ''(1)'' 1 (sv_Collector sv1) [] = Some (c2, rs)"
    "coll_ok c2" "held_ids c2 + request_ids rs = {#1#}"
    using cutting.push_conserves [OF TrueI c1, of 0 demo_params "''(1)''" 1 "[]"] h1 by (auto simp: request_ids_def id_list_def)
  let ?sv2 = "sv1\<lparr>sv_spawned := [], sv_Collector := c2\<rparr>"
  have s2: "?step (sv1, []) (?sv2, [Cut rs])"
    using turn_step.collect [of "SysSpawned 0 0" sv1 ?sv2 rs _ _ _ _ _ "[]"] p(1) sv1(2) by simp
  obtain c3 rs' where f: "coll_step cutter CFlushAll (c2, []) = Some (c3, rs')" "held_ids c3 = {#}" "request_ids rs' = held_ids c2"
    using cutting.FlushAll_sends [OF TrueI p(2), of "[]"] cutting.coll_step_conserves [OF TrueI p(2), of CFlushAll "[]"]
    by (auto simp: request_ids_def)
  let ?sv3 = "?sv2\<lparr>sv_Collector := c3\<rparr>"
  have s3: "?step (?sv2, [Cut rs]) (?sv3, [Cut rs, Cut rs'])"
    using turn_step.collect [of SysFlushAll ?sv2 ?sv3 rs' _ _ _ _ _ "[Cut rs]"] f(1) by (simp del: coll_step.simps)
  have r: "?step\<^sup>*\<^sup>* (sv1, []) (?sv3, [Cut rs, Cut rs'])"
    using s2 s3 by (meson converse_rtranclp_into_rtranclp r_into_rtranclp)
  from accepted_insert_never_lost_interleaved [OF list_queue_fifo inv0 guard sv1(1) _ _ r, of ?g]
  have "\<exists>r. replayed_after_crash r (live ?sv3)
        \<or> (\<exists>d. wk_dumper (live ?sv3) = Some d \<and> stored ''(1)'' d (wk_disk (live ?sv3)))
        \<or> posted ''(1)'' (wk_world (live ?sv3))"
    using sv1(2) by (auto simp: demo_server_def)
  moreover have "sv_spawned ?sv3 = []" "held_ids (sv_Collector ?sv3) = {#}" "sends (\<lambda>q. q) (live ?sv3) = []"
    "request_ids rs + request_ids rs' = {#1#}"
    using f p(3) h1(2) by (simp_all add: add.commute)
  ultimately show ?thesis using sv1(1) r by blast
qed



end
