(* ===== verification/Process_End.thy ===== *)
theory Process_End
  imports Turns_Facts Shutdown
begin

text \<open>
  How the process ends (server.go, main.go). A signal wakes a goroutine that shuts the HTTP server down, drains
  (\<open>SafeQuit\<close>), closes the journal and exits. But the shutdown of the server also lets \<open>srv.Start\<close> return in
  the main goroutine, which leaves \<open>runServer\<close>, runs its deferred \<open>journal.Close\<close>, and exits with 0 in \<open>main\<close>. The two
  race, and the program's other goroutines run on until one of them exits.
\<close>

section \<open>The two goroutines\<close>

text \<open>
  \<open>Stopping\<close>: the signal has come and \<open>srv.Shutdown\<close> was called. \<open>Draining by_signal code deadline\<close>: a goroutine is in
  \<open>SafeQuit\<close> and will exit with \<open>code\<close>, the one of the signal or, when \<open>srv.Start\<close> failed, the main one.
\<close>

datatype ending = Serving | Stopping | Draining bool int nanos | Exited int

text \<open>Main has left \<open>srv.Start\<close>, or is about to.\<close>

fun main_leaves :: "ending \<Rightarrow> bool" where
  "main_leaves Stopping = True"
| "main_leaves (Draining by_signal code deadline) = by_signal"
| "main_leaves e = False"

definition drain_deadline :: "int \<Rightarrow> nanos \<Rightarrow> nanos" where
  "drain_deadline drainSec now = now + duration_mult second (if drainSec \<le> 0 then 60 else drainSec)"

text \<open>The journal is closed, and the process ends.\<close>

definition close_journal :: "env \<Rightarrow> 'q Server \<Rightarrow> 'q Server" where
  "close_journal E sv = (case server_now E sv of (now, sv) \<Rightarrow> with_live (shutdownJournal now) sv)"

text \<open>
  The steps. Requests that are still being answered, timers, workers, and \<open>SafeQuit\<close> itself as it flushes and waits are steps of
  \<open>work\<close>; \<open>SafeQuit\<close> returns when all is drained or the deadline has passed. \<open>srv.Shutdown\<close> succeeds (0), or its context has
  ended (1), five seconds after the start of the program. When \<open>srv.Start\<close> has failed a signal can still come, and then
  either of two drains may be the one that exits (\<open>late_signal\<close>: it is the one of the signal).
\<close>

inductive end_step :: "codecs \<Rightarrow> 'q queue_api \<Rightarrow> env \<Rightarrow> env \<Rightarrow> ('q \<Rightarrow> ClickhouseRequest list) \<Rightarrow> Config
    \<Rightarrow> ending \<times> 'q Server \<times> turn list \<Rightarrow> ending \<times> 'q Server \<times> turn list \<Rightarrow> bool"
  for cd Q E E' items cnf where
  work: "turn_step cd Q E E' items x y \<Longrightarrow> (\<And>code. e \<noteq> Exited code) \<Longrightarrow> end_step cd Q E E' items cnf (e, x) (e, y)"
| signal: "end_step cd Q E E' items cnf (Serving, x) (Stopping, x)"
| http_down: "server_now E sv = (now, sv') \<Longrightarrow> code \<in> {0, 1} \<Longrightarrow>
    end_step cd Q E E' items cnf (Stopping, sv, ts) (Draining True code (drain_deadline (cf_ShutdownDrainSec cnf) now), sv', ts)"
| start_fails: "server_now E sv = (now, sv') \<Longrightarrow>
    end_step cd Q E E' items cnf (Serving, sv, ts) (Draining False 1 (drain_deadline (cf_ShutdownDrainSec cnf) now), sv', ts)"
| late_signal: "server_now E sv = (now, sv') \<Longrightarrow> code' \<in> {0, 1} \<Longrightarrow>
    end_step cd Q E E' items cnf (Draining False code deadline, sv, ts) (Draining False code' (drain_deadline (cf_ShutdownDrainSec cnf) now), sv', ts)"
| drain_ends: "server_now E sv = (now, sv') \<Longrightarrow> drained Q E E' sv \<or> deadline < now \<Longrightarrow>
    end_step cd Q E E' items cnf (Draining b code deadline, sv, ts) (Exited code, close_journal E sv', ts)"
| main_returns: "main_leaves e \<Longrightarrow> end_step cd Q E E' items cnf (e, sv, ts) (Exited 0, close_journal E sv, ts)"

inductive_cases exited_stays: "end_step cd Q E E' items cnf (Exited code, x) y"

abbreviation end_reach :: "codecs \<Rightarrow> 'q queue_api \<Rightarrow> env \<Rightarrow> env \<Rightarrow> ('q \<Rightarrow> ClickhouseRequest list) \<Rightarrow> Config
    \<Rightarrow> ending \<times> 'q Server \<times> turn list \<Rightarrow> ending \<times> 'q Server \<times> turn list \<Rightarrow> bool" where
  "end_reach cd Q E E' items cnf \<equiv> (end_step cd Q E E' items cnf)\<^sup>*\<^sup>*"

section \<open>What is left at the end\<close>

text \<open>
  Until the exit the program keeps its invariant and the insert; after it the insert has arrived or its
  record is in the files of the journal.
\<close>

fun end_safe :: "('q \<Rightarrow> ClickhouseRequest list) \<Rightarrow> journalRecord \<Rightarrow> string \<Rightarrow> ending \<times> 'q Server \<times> turn list \<Rightarrow> bool" where
  "end_safe items k x (Exited code, sv, ts) =
     (arrived x (live sv) \<or> (\<exists>recs. leaves (wk_jdir (live sv)) recs \<and> k \<in> set recs))"
| "end_safe items k x (e, st) = (turns_inv items st \<and> turns_safe items k x st)"

lemma end_safe_running: "(\<And>code. e \<noteq> Exited code) \<Longrightarrow> end_safe items k x (e, st) = (turns_inv items st \<and> turns_safe items k x st)"
  by (cases e; cases st) auto

text \<open>A reading of the clock.\<close>

lemma clock_keeps:
  assumes "server_now E sv = (now, sv')" "turns_inv items (sv, ts)" "x \<noteq> []"
  shows "turns_inv items (sv', ts)" "turns_safe items k x (sv, ts) \<Longrightarrow> turns_safe items k x (sv', ts)"
proof -
  have i: "system_inv (with_held items ts) sv" using assms(2) by (simp add: turns_inv_def)
  have n: "system_inv (with_held items ts) sv'"
    "insert_safe (with_held items ts) k x sv \<Longrightarrow> insert_safe (with_held items ts) k x sv'" for k x
    using now_keeps [OF i, of k x E] assms(1) by (auto simp: kept_def)
  from same_turns_keep [OF assms(2) n(1) n(2) assms(3)]
  show "turns_inv items (sv', ts)" "turns_safe items k x (sv, ts) \<Longrightarrow> turns_safe items k x (sv', ts)" by blast+
qed

lemma close_keeps:
  assumes "turns_inv items (sv, ts)" "turns_safe items k x (sv, ts)" "x \<noteq> []"
  shows "end_safe items k x (Exited code, close_journal E sv, ts)"
proof -
  obtain now sv' where c: "server_now E sv = (now, sv')" by force
  note s = clock_keeps [OF c assms(1,3)]
  have l: "live (close_journal E sv) = shutdownJournal now (live sv')" by (simp add: close_journal_def c)
  show ?thesis
  proof (cases "arrived x (live sv')")
    case True
    then show ?thesis
      by (auto simp: l arrived_def shutdownJournal_def split: option.split prod.split)
  next
    case False
    with s(2) [OF assms(2)] have "k \<in> set (pending_recs (live sv'))" by (simp add: insert_safe_held)
    moreover have "target_inv (live sv')" using s(1) by (simp add: turns_inv_def system_inv_def)
    ultimately show ?thesis using closed_leaves by (auto simp: l)
  qed
qed

lemma end_step_keeps:
  assumes "end_step cd Q E E' items cnf s t" "fifo_api Q items" "end_safe items k x s" "x \<noteq> []"
  shows "end_safe items k x t"
  using assms(1)
proof cases
  case (work st st' e)
  with turn_step_keeps [OF work(3) assms(2) _ assms(4), of k] assms(3) show ?thesis
    by (simp add: end_safe_running)
next
  case (signal st)
  with assms(3) show ?thesis by simp
next
  case (http_down sv now sv' code ts)
  with clock_keeps [OF http_down(3) _ assms(4)] assms(3) show ?thesis by simp
next
  case (start_fails sv now sv' ts)
  with clock_keeps [OF start_fails(3) _ assms(4)] assms(3) show ?thesis by simp
next
  case (late_signal sv now sv' code' code deadline ts)
  with clock_keeps [OF late_signal(3) _ assms(4)] assms(3) show ?thesis by simp
next
  case (drain_ends sv now sv' deadline b code ts)
  from assms(3) drain_ends have s: "turns_inv items (sv, ts)" "turns_safe items k x (sv, ts)" by simp_all
  note n = clock_keeps [OF drain_ends(3) s(1) assms(4)]
  from close_keeps [OF n(1) n(2) [OF s(2)] assms(4)] drain_ends show ?thesis by simp
next
  case (main_returns e sv ts)
  then have "end_safe items k x (e, sv, ts) = (turns_inv items (sv, ts) \<and> turns_safe items k x (sv, ts))"
    by (intro end_safe_running) auto
  with assms(3) main_returns have s: "turns_inv items (sv, ts)" "turns_safe items k x (sv, ts)" by simp_all
  from close_keeps [OF s assms(4), of 0 E] main_returns show ?thesis by simp
qed

lemma end_reach_keeps:
  assumes "end_reach cd Q E E' items cnf s t" "fifo_api Q items" "end_safe items k x s" "x \<noteq> []"
  shows "end_safe items k x t"
  using assms by (induction rule: rtranclp_induct) (blast intro: end_step_keeps)+

end
