(* ===== verification/Process_End_Props.thy ===== *)
theory Process_End_Props
  imports Process_End Turns_Props Shutdown_Props
begin

text \<open>
  What an insert can rely on however the process ends, and what it cannot.
\<close>


text \<open>The shortest end: the signal comes, and the main goroutine leaves \<open>srv.Start\<close> and exits.\<close>

lemma shortest_end: "end_reach cd Q E E' items cnf (Serving, sv, ts) (Exited 0, close_journal E sv, ts)"
proof (rule rtranclp_trans)
  show "end_reach cd Q E E' items cnf (Serving, sv, ts) (Stopping, sv, ts)" by (blast intro: end_step.signal)
  show "end_reach cd Q E E' items cnf (Stopping, sv, ts) (Exited 0, close_journal E sv, ts)"
    by (intro r_into_rtranclp end_step.main_returns) simp
qed


text \<open>
  C21. The signal need not be followed by a drain: from every state in which the program serves, with whatever is
  in its tables, its queue and its goroutines, the process can exit with code 0 and nothing sent, dumped or
  flushed since. Without a journal - the default - an insert that was answered 200 and is on its way
  is then nowhere.
\<close>

theorem signal_exits_undrained:
  assumes "wk_journal (live sv) = None" "\<not> arrived x (live sv)"
  shows "\<exists>sv'. end_reach cd Q E E' items cnf (Serving, sv, ts) (Exited 0, sv', ts)
    \<and> sv_Collector sv' = sv_Collector sv \<and> sv_spawned sv' = sv_spawned sv \<and> wk_ch (live sv') = wk_ch (live sv)
    \<and> wk_jdir (live sv') = wk_jdir (live sv) \<and> \<not> arrived x (live sv')"
proof (intro exI conjI)
  let ?sv = "close_journal E sv"
  show "end_reach cd Q E E' items cnf (Serving, sv, ts) (Exited 0, ?sv, ts)" by (rule shortest_end)
  have f: "live ?sv = (live sv)\<lparr>wk_world := (wk_world (live sv))\<lparr>w_ticks := w_ticks (wk_world (live sv)) + 1\<rparr>\<rparr>"
    using assms(1) by (simp add: close_journal_def server_now_fields shutdownJournal_def)
  show "sv_Collector ?sv = sv_Collector sv" "sv_spawned ?sv = sv_spawned sv"
    by (simp_all add: close_journal_def server_now_fields with_live_def)
  show "wk_ch (live ?sv) = wk_ch (live sv)" "wk_jdir (live ?sv) = wk_jdir (live sv)" by (simp_all add: f)
  show "\<not> arrived x (live ?sv)" using assms(2) by (simp add: f arrived_def posted_def)
qed

text \<open>The demo program without a journal, which accepts the demo insert.\<close>

definition demo_unjournaled :: "ClickhouseRequest list Server" where
  "demo_unjournaled = with_live (\<lambda>s. s\<lparr>wk_journal := None\<rparr>) demo_server"

lemma demo_unjournaled_accepts:
  "writeHandler demo_codecs list_queue demo_env demo_env demo_insert demo_unjournaled
     = Some (Some (string_reply 200 []), spawn (SpawnPush demo_params ''(1)'' 0) demo_unjournaled)"
proof -
  have "plan_of demo_codecs demo_insert demo_unjournaled = PText demo_params ''(1)'' False" by code_simp
  moreover have "appendJournal app demo_unjournaled = (Inr 0, demo_unjournaled)" for app
    by (simp add: appendJournal_def demo_unjournaled_def with_live_def)
  ultimately show ?thesis by (simp add: handler_plan insert_by_def)
qed

theorem signal_exits_undrained_witness:
  "\<exists>sv1 sv2. writeHandler demo_codecs list_queue demo_env demo_env demo_insert demo_unjournaled
       = Some (Some (string_reply 200 []), sv1)
     \<and> end_reach demo_codecs list_queue demo_env demo_env (\<lambda>q. q) demo_conf (Serving, sv1, []) (Exited 0, sv2, [])
     \<and> sv_spawned sv2 = [SpawnPush demo_params ''(1)'' 0] \<and> \<not> arrived ''(1)'' (live sv2)"
proof -
  let ?sv = "spawn (SpawnPush demo_params ''(1)'' 0) demo_unjournaled"
  have f: "wk_journal (live ?sv) = None" "sv_spawned ?sv = [SpawnPush demo_params ''(1)'' 0]" "\<not> arrived ''(1)'' (live ?sv)"
    by (simp_all add: spawn_def demo_unjournaled_def with_live_def demo_server_def demo_live_def arrived_def posted_def
        demo_world_def stored_def demo_disk_def pending_file_def failed_file_def)
  from signal_exits_undrained [OF f(1,3), of demo_codecs list_queue demo_env demo_env "\<lambda>q. q" demo_conf "[]"] f(2)
    demo_unjournaled_accepts show ?thesis by metis
qed

end
