(* ===== verification/Routes.thy ===== *)
theory Routes
  imports System_Props
begin

text \<open>
  The routes of the HTTP server (server.go, \<open>InitServer\<close>): which handler a request reaches, and
  what any request at all can change. The router is a part of the web framework, a parameter.
\<close>

section \<open>Handlers\<close>

datatype endpoint = WriteHandler | StatusHandler | MetricsHandler | ReplayFailedHandler | GcHandler | FreeMemHandler
  | PprofHandler | TablesCleanHandler

type_synonym route_table = "(string \<times> string \<times> endpoint) list"

definition InitServer :: route_table where
  "InitServer =
     [(''POST'', ''/'', WriteHandler),
      (''GET'', ''/status'', StatusHandler),
      (''GET'', ''/metrics'', MetricsHandler),
      (''POST'', ''/debug/replay-failed'', ReplayFailedHandler),
      (''GET'', ''/debug/replay-failed'', ReplayFailedHandler),
      (''GET'', ''/debug/gc'', GcHandler),
      (''GET'', ''/debug/freemem'', FreeMemHandler),
      (''GET'', ''/debug/pprof/*'', PprofHandler),
      (''GET'', ''/debug/tables-clean'', TablesCleanHandler)]"

text \<open>
  \<open>c.QueryParam\<close>: the first value of a parameter. Parts with a semicolon, and parts that cannot be unescaped, do
  not count.
\<close>

definition cut_at :: "char \<Rightarrow> string \<Rightarrow> string \<times> string" where
  "cut_at c s = (takeWhile (\<lambda>x. x \<noteq> c) s, drop 1 (dropWhile (\<lambda>x. x \<noteq> c) s))"

fun query_value :: "string \<Rightarrow> string list \<Rightarrow> string" where
  "query_value k [] = []"
| "query_value k (p # ps) =
     (if p = [] \<or> CHR '';'' \<in> set p then query_value k ps
      else (case cut_at (CHR ''='') p of (n, v) \<Rightarrow>
        (case (QueryUnescape n, QueryUnescape v) of
           (Some n, Some v) \<Rightarrow> (if n = k then v else query_value k ps)
         | _ \<Rightarrow> query_value k ps)))"

definition QueryParam :: "http_request \<Rightarrow> string \<Rightarrow> string" where
  "QueryParam rq k = query_value k (split_on (CHR ''&'') (rq_query rq))"

text \<open>
  An answer: that of a handler of this program, a status with a JSON object of one field, that of a handler
  of another package, or that of the framework for a request without a route.
\<close>

datatype http_answer = InsertAnswer "http_reply option" | StatusAnswer FullStatus | ReplayAnswer replay_answer
  | JsonAnswer int string string | PackageAnswer endpoint | NotRouted

text \<open>The handlers for the garbage collector leave the program as it is.\<close>

definition gcHandler :: http_answer where
  "gcHandler = JsonAnswer 200 ''status'' ''GC''"

definition freeMemHandler :: http_answer where
  "freeMemHandler = JsonAnswer 200 ''status'' ''freeMem''"

fun handle :: "codecs \<Rightarrow> 'q queue_api \<Rightarrow> env \<Rightarrow> env \<Rightarrow> http_request \<Rightarrow> endpoint \<Rightarrow> 'q Server
    \<Rightarrow> (http_answer \<times> 'q Server) option" where
  "handle cd Q E E' rq WriteHandler sv = map_option (\<lambda>(rep, sv). (InsertAnswer rep, sv)) (writeHandler cd Q E E' rq sv)"
| "handle cd Q E E' rq StatusHandler sv = Some (StatusAnswer (statusHandler Q sv), sv)"
| "handle cd Q E E' rq ReplayFailedHandler sv = map_option (\<lambda>(a, sv). (ReplayAnswer a, sv))
     (replayFailedHandler Q E E' (QueryParam rq ''target'') (QueryParam rq ''limit'') sv)"
| "handle cd Q E E' rq GcHandler sv = Some (gcHandler, sv)"
| "handle cd Q E E' rq FreeMemHandler sv = Some (freeMemHandler, sv)"
| "handle cd Q E E' rq TablesCleanHandler sv = Some (JsonAnswer 200 ''status'' ''cleaned empty tables'',
     sv\<lparr>sv_Collector := tablesCleanHandler (sv_Collector sv)\<rparr>)"
| "handle cd Q E E' rq MetricsHandler sv = Some (PackageAnswer MetricsHandler, sv)"
| "handle cd Q E E' rq PprofHandler sv = Some (PackageAnswer PprofHandler, sv)"

section \<open>The router\<close>

text \<open>
  What the framework documents of its router: a request reaches a handler that was registered for its method and
  a pattern that its path matches, if there is one; a pattern matches itself, or, with a star at its end, what begins with
  the rest of it.
\<close>

definition pattern_matches :: "string \<Rightarrow> string \<Rightarrow> bool" where
  "pattern_matches pat path =
     (if ends_with pat ''*'' then starts_with path (butlast pat) else path = pat)"

definition router_ok :: "(route_table \<Rightarrow> string \<Rightarrow> string \<Rightarrow> endpoint option) \<Rightarrow> bool" where
  "router_ok route = (\<forall>tbl m p. case route tbl m p of
     None \<Rightarrow> \<forall>(m', pat, h) \<in> set tbl. m' = m \<longrightarrow> \<not> pattern_matches pat p
   | Some h \<Rightarrow> \<exists>pat. (m, pat, h) \<in> set tbl \<and> pattern_matches pat p)"

definition serve :: "(route_table \<Rightarrow> string \<Rightarrow> string \<Rightarrow> endpoint option) \<Rightarrow> codecs \<Rightarrow> 'q queue_api \<Rightarrow> env \<Rightarrow> env
    \<Rightarrow> string \<Rightarrow> string \<Rightarrow> http_request \<Rightarrow> 'q Server \<Rightarrow> (http_answer \<times> 'q Server) option" where
  "serve route cd Q E E' m p rq sv = (case route InitServer m p of
     None \<Rightarrow> Some (NotRouted, sv)
   | Some h \<Rightarrow> handle cd Q E E' rq h sv)"

text \<open>A router that takes the first route that matches.\<close>

fun first_route :: "route_table \<Rightarrow> string \<Rightarrow> string \<Rightarrow> endpoint option" where
  "first_route [] m p = None"
| "first_route ((m', pat, h) # tbl) m p = (if m' = m \<and> pattern_matches pat p then Some h else first_route tbl m p)"

lemma first_route_ok: "router_ok first_route"
proof -
  have "case first_route tbl m p of
     None \<Rightarrow> \<forall>(m', pat, h) \<in> set tbl. m' = m \<longrightarrow> \<not> pattern_matches pat p
   | Some h \<Rightarrow> \<exists>pat. (m, pat, h) \<in> set tbl \<and> pattern_matches pat p" for tbl m p
    by (induction tbl m p rule: first_route.induct) (auto split: option.splits)
  then show ?thesis unfolding router_ok_def by blast
qed

lemma ends_with_star: "ends_with pat ''*'' = (pat \<noteq> [] \<and> last pat = CHR ''*'')"
  by (cases pat rule: rev_cases) (auto simp: ends_with_def)

text \<open>No path matches two routes of a method.\<close>

lemma routes_disjoint:
  assumes "(m, pat, h) \<in> set InitServer" "(m, pat', h') \<in> set InitServer" "pattern_matches pat p" "pattern_matches pat' p"
  shows "h = h'"
  using assms
  by (auto simp: InitServer_def pattern_matches_def ends_with_star starts_with_def split: if_splits)

lemma router_determined:
  assumes "router_ok route"
  shows "route InitServer m p = first_route InitServer m p"
proof -
  have r: "case f InitServer m p of
     None \<Rightarrow> \<forall>(m', pat, h) \<in> set InitServer. m' = m \<longrightarrow> \<not> pattern_matches pat p
   | Some h \<Rightarrow> \<exists>pat. (m, pat, h) \<in> set InitServer \<and> pattern_matches pat p" if "router_ok f" for f
    using that unfolding router_ok_def by blast
  from r [OF assms] r [OF first_route_ok] show ?thesis
    using routes_disjoint by (fastforce split: option.splits)
qed

section \<open>What a request can change\<close>

text \<open>A handler that changes the program is a step of it.\<close>

lemma handle_step:
  assumes "handle cd Q E E' rq h sv = Some (ans, sv')"
  shows "sv' = sv \<and> h \<notin> {WriteHandler, ReplayFailedHandler, TablesCleanHandler}
    \<or> h = WriteHandler \<and> sys_step cd Q E E' (SysRequest rq) sv = Some sv'
    \<or> h = ReplayFailedHandler \<and> sys_step cd Q E E' (SysReplayFailed (QueryParam rq ''target'') (QueryParam rq ''limit'')) sv = Some sv'
    \<or> h = TablesCleanHandler \<and> sys_step cd Q E E' SysClean sv = Some sv'"
  using assms by (cases h) auto

lemma serve_handle:
  assumes "router_ok route"
  shows "serve route cd Q E E' m p rq sv = (case first_route InitServer m p of
     None \<Rightarrow> Some (NotRouted, sv) | Some h \<Rightarrow> handle cd Q E E' rq h sv)"
  by (simp add: serve_def router_determined [OF assms])

lemma write_route: "first_route InitServer m p = Some WriteHandler \<Longrightarrow> m = ''POST'' \<and> p = ''/''"
  by (auto simp: InitServer_def pattern_matches_def ends_with_star split: if_splits)

lemma changing_routes:
  "first_route InitServer m p = Some h \<Longrightarrow> h \<in> {WriteHandler, ReplayFailedHandler, TablesCleanHandler} \<Longrightarrow>
   (m, p) \<in> {(''POST'', ''/''), (''POST'', ''/debug/replay-failed''), (''GET'', ''/debug/replay-failed''), (''GET'', ''/debug/tables-clean'')}"
  by (auto simp: InitServer_def pattern_matches_def ends_with_star split: if_splits)



end
