(* ===== verification/Command_Line.thy ===== *)
theory Command_Line
  imports Restart_Props Config_Props
begin

text \<open>
  The command line (main.go): the flag set with its one flag, the word version, the configuration, and
  the exit codes.
\<close>

section \<open>Flags\<close>

text \<open>
  \<open>flag.FlagSet.Parse\<close> for a set that holds one flag with a text: its value and the arguments that are
  left. \<^term>\<open>None\<close> is an error: a malformed or unknown flag, a missing value, a call for help.
\<close>

text \<open>The name and the value, if any, of the argument after its dashes. The equals sign is not the first character.\<close>

definition flag_name :: "string \<Rightarrow> string \<times> string option" where
  "flag_name s =
     (let n = takeWhile (\<lambda>c. c \<noteq> CHR ''='') s
      in (n, if n = s then None else Some (drop (length n + 1) s)))"

fun FlagSet_Parse :: "string \<Rightarrow> string \<Rightarrow> string list \<Rightarrow> (string \<times> string list) option" where
  "FlagSet_Parse flag v [] = Some (v, [])"
| "FlagSet_Parse flag v (s # args) =
     (if length s < 2 \<or> hd s \<noteq> CHR ''-'' then Some (v, s # args)
      else if s = ''--'' then Some (v, args)
      else
        (let rest = (if s ! 1 = CHR ''-'' then drop 2 s else drop 1 s)
         in if rest = [] \<or> hd rest = CHR ''-'' \<or> hd rest = CHR ''='' then None
            else (case flag_name rest of (n, val) \<Rightarrow>
              if n \<noteq> flag then None
              else (case val of
                  Some x \<Rightarrow> FlagSet_Parse flag x args
                | None \<Rightarrow> (case args of [] \<Rightarrow> None | x # args \<Rightarrow> FlagSet_Parse flag x args)))))"

section \<open>The program\<close>

text \<open>What the command line leads to: an exit code, or the server with a configuration.\<close>

datatype cli = ExitCode int | Run Config

definition runCLI :: "(string \<Rightarrow> conf_err + Config) \<Rightarrow> string list \<Rightarrow> cli" where
  "runCLI read args = (case FlagSet_Parse ''config'' ''config.json'' args of
     None \<Rightarrow> ExitCode 2
   | Some (configFile, rest) \<Rightarrow>
       (if 0 < length rest \<and> hd rest = ''version'' then ExitCode 0
        else (case read configFile of
            Inl e \<Rightarrow> ExitCode 1
          | Inr cnf \<Rightarrow> Run cnf)))"

text \<open>
  The whole start: the configuration from the files (by name, what \<open>os.Stat\<close> finds and what decoding does) and the
  environment, then \<open>runServer\<close> up to the start of the HTTP server, which can end with a fatal error or a panic where the
  journal cannot be opened or replayed.
\<close>

datatype 'q started = Exits int | Dies | Serves "'q Server"

definition main_start :: "'q queue_api \<Rightarrow> env \<Rightarrow> env \<Rightarrow> (string \<Rightarrow> file_stat) \<Rightarrow> (string \<Rightarrow> Config \<Rightarrow> string + Config)
    \<Rightarrow> environ \<Rightarrow> 'q surroundings \<Rightarrow> string list \<Rightarrow> 'q started" where
  "main_start Q E E' st decode env sr args =
     (case runCLI (\<lambda>f. ReadConfig (st f) (decode f) env) args of
        ExitCode c \<Rightarrow> Exits c
      | Run cnf \<Rightarrow> (case startUp Q E E' cnf sr of None \<Rightarrow> Dies | Some sv \<Rightarrow> Serves sv))"

section \<open>The file that is read\<close>

text \<open>The flag as one argument or two, with one dash or two.\<close>

definition spelled :: "bool \<Rightarrow> bool \<Rightarrow> string \<Rightarrow> string list" where
  "spelled twice equals f =
     (let name = (if twice then ''--config'' else ''-config'')
      in if equals then [name @ CHR ''='' # f] else [name, f])"

lemma flag_name_config: "flag_name ''config'' = (''config'', None)" "flag_name (''config='' @ f) = (''config'', Some f)"
  by (simp_all add: flag_name_def)

lemma parse_spelled: "FlagSet_Parse ''config'' v (spelled twice equals f @ args) = FlagSet_Parse ''config'' f args"
  using flag_name_config by (cases twice; cases equals) (simp_all add: spelled_def Let_def)

lemma parse_rest:
  "(\<forall>s rest'. rest = s # rest' \<longrightarrow> length s < 2 \<or> hd s \<noteq> CHR ''-'') \<Longrightarrow> FlagSet_Parse flag v rest = Some (v, rest)"
  by (cases rest) auto

text \<open>
  The flag \<open>config\<close> may be written with one dash or two and with its value in the same argument or the next, any number of
  times; the last value names the file that is read, and without the flag it is \<open>config.json\<close>. With the word version
  as the next argument the process exits with 0 and reads no file; a configuration that is refused is exit code 1.
\<close>

theorem config_flag_names_file:
  assumes "\<forall>s rest'. rest = s # rest' \<longrightarrow> length s < 2 \<or> hd s \<noteq> CHR ''-''"
  shows "runCLI read (concat (map (\<lambda>(twice, equals, f). spelled twice equals f) fs) @ rest) =
    (if rest \<noteq> [] \<and> hd rest = ''version'' then ExitCode 0
     else (case read (last (''config.json'' # map (snd \<circ> snd) fs)) of Inl e \<Rightarrow> ExitCode 1 | Inr cnf \<Rightarrow> Run cnf))"
proof -
  have "FlagSet_Parse ''config'' v (concat (map (\<lambda>(twice, equals, f). spelled twice equals f) fs) @ rest)
      = Some (last (v # map (snd \<circ> snd) fs), rest)" for v
    by (induction fs arbitrary: v) (auto simp: parse_spelled parse_rest [OF assms])
  then show ?thesis by (simp add: runCLI_def)
qed

text \<open>A configuration that is read from one file only.\<close>

definition only_b :: "string \<Rightarrow> conf_err + Config" where
  "only_b f = (if f = ''b.json'' then Inr defaultConfig else Inl (FileError f))"

theorem config_flag_names_file_witness:
  "runCLI only_b [''-config'', ''a.json'', ''--config=b.json'', ''x''] = Run defaultConfig
   \<and> runCLI only_b [''version''] = ExitCode 0
   \<and> runCLI only_b [] = ExitCode 1"
  using config_flag_names_file [of "[''x'']" only_b "[(False, False, ''a.json''), (True, True, ''b.json'')]"]
    config_flag_names_file [of "[''version'']" only_b "[]"] config_flag_names_file [of "[]" only_b "[]"]
  by (simp add: spelled_def only_b_def)

section \<open>From the command line to the server\<close>

text \<open>
  C4. The program as it is started after a crash: with flags that parse and a configuration that is read, with the journal
  on, a flush count that is not negative and a flush interval that the timer takes, it comes up; the invariant of the whole
  program holds, and each pending record of the dead process is exactly once on its way. The checks of the
  configuration give the start what it needs: servers with addresses.
\<close>

theorem started_program_requeues:
  assumes "fifo_api Q items" "system_inv items old" "sr_jdir sr = wk_jdir (live old)" "items (sr_queue sr) = []"
    and "runCLI (\<lambda>f. ReadConfig (st f) (decode f) env) args = Run cnf" "cf_JournalEnabled cnf"
    and "0 \<le> cf_FlushCount cnf" "0 < duration_mult millisecond (cf_FlushInterval cnf)"
    and "dumps_ok (fresh_dumper cnf (sr_stamp sr)) (sr_disk sr)"
  shows "\<exists>sv. main_start Q E E' st decode env sr args = Serves sv \<and> system_inv items sv
    \<and> pending_recs (live sv) = pending_recs (live old)
    \<and> held_ids (sv_Collector sv) + request_ids (sends items (live sv)) = mset (map rec_ID (pending_recs (live old)))"
proof -
  obtain f where "ReadConfig (st f) (decode f) env = Inr cnf"
    using assms(5) by (auto simp: runCLI_def split: option.splits prod.splits if_splits sum.splits)
  from config_valid_servers [OF this] have "[] \<notin> set (cc_Servers (cf_Clickhouse cnf))"
    by (auto simp: valid_servers_def list_all_iff)
  moreover have "leaves (sr_jdir sr) (pending_recs (live old))"
    using assms(2,3) target_leaves [of "live old"] by (simp add: system_inv_def)
  ultimately show ?thesis
    using startUp_effect [OF assms(1) _ assms(4,6-9), of "pending_recs (live old)" E E'] assms(5)
    by (auto simp: main_start_def moving_def spawned_ids_def)
qed

text \<open>A file that turns the journal on.\<close>

definition demo_decode :: "string \<Rightarrow> Config \<Rightarrow> string + Config" where
  "demo_decode f c = Inr (c\<lparr>cf_JournalEnabled := True\<rparr>)"

lemma demo_command:
  "runCLI (\<lambda>f. ReadConfig FileFound (demo_decode f) (\<lambda>_. [])) [''-config=c.json''] = Run demo_conf"
  by code_simp

theorem started_program_requeues_witness:
  "\<exists>sv1 sv. writeHandler demo_codecs list_queue demo_env demo_env demo_insert demo_server
       = Some (Some (string_reply 200 []), sv1)
     \<and> main_start list_queue demo_env demo_env (\<lambda>_. FileFound) demo_decode (\<lambda>_. []) (demo_start sv1) [''-config=c.json''] = Serves sv
     \<and> pending_recs (live sv) = pending_recs (live sv1)"
proof -
  obtain sv1 where sv1: "writeHandler demo_codecs list_queue demo_env demo_env demo_insert demo_server
      = Some (Some (string_reply 200 []), sv1)"
    using demo_accepts by blast
  have "record_fits (text_record 0 demo_params ''(1)'') demo_live"
    using demo_insert_fits by (simp add: record_fits_def demo_live_def demo_def)
  then have guard: "sys_guard demo_codecs (\<lambda>q. q) (SysRequest demo_insert) demo_server"
    by (simp add: demo_plan) (simp add: demo_server_def)
  have "system_inv (\<lambda>q. q) sv1"
    by (rule sys_step_keeps [OF list_queue_fifo demo_server_inv guard]) (use sv1 in auto)
  from started_program_requeues [OF list_queue_fifo this demo_start_ok(1,2) demo_command demo_start_ok(3-6), of demo_env demo_env] sv1
  show ?thesis by blast
qed

end
