(* ===== verification/Go_Float.thy ===== *)
theory Go_Float
  imports Go_Time "HOL-Library.Log_Nat"
begin

text \<open>
  Go's \<open>float64\<close> as far as the program computes with it: a result is the exact one rounded to 53 binary
  digits, to the nearest and in a tie to the even one. Numbers so large that they overflow or so
  small that they lose digits do not occur, and the sign of zero makes no difference.
\<close>

section \<open>Rounding\<close>

text \<open>The exponent of the leading binary digit of a positive number.\<close>

definition binary_exponent :: "rat \<Rightarrow> int" where
  "binary_exponent x = (case quotient_of x of (a, b) \<Rightarrow>
     (let e = bitlen a - bitlen b in if 2 powi e \<le> x then e else e - 1))"

definition round_even :: "rat \<Rightarrow> int" where
  "round_even y = (let n = \<lfloor>y\<rfloor>; d = y - of_int n in
     if d < 1 / 2 then n else if 1 / 2 < d then n + 1 else if even n then n else n + 1)"

definition round53 :: "rat \<Rightarrow> rat" where
  "round53 x = (if x = 0 then 0 else (let u = 2 powi (binary_exponent \<bar>x\<bar> - 52) in of_int (round_even (x / u)) * u))"

lemma binary_exponent_bounds:
  assumes "0 < x"
  shows "2 powi binary_exponent x \<le> x" "x < 2 powi (binary_exponent x + 1)"
proof -
  obtain a b where ab: "quotient_of x = (a, b)" by force
  then have x: "x = of_int a / of_int b" "0 < b" using quotient_of_div quotient_of_denom_pos by blast+
  with assms have a: "0 < a" by (simp add: zero_less_divide_iff)
  let ?fa = "floorlog 2 (nat a)" and ?fb = "floorlog 2 (nat b)"
  have bounds: "2 ^ (floorlog 2 (nat n) - 1) \<le> n \<and> n < 2 ^ floorlog 2 (nat n) \<and> 1 \<le> floorlog 2 (nat n)" if "0 < n" for n :: int
  proof -
    have "2 ^ (floorlog 2 (nat n) - 1) \<le> nat n" "nat n < 2 ^ floorlog 2 (nat n)"
      using floorlog_bounds [of "nat n" 2] that by auto
    moreover have "floorlog 2 (nat n) \<noteq> 0" using that by (simp add: floorlog_eq_zero_iff)
    ultimately show ?thesis using that by (simp add: nat_less_iff le_nat_iff)
  qed
  have A: "2 ^ (?fa - 1) \<le> (of_int a :: rat)" "(of_int a :: rat) < 2 ^ ?fa" "1 \<le> ?fa"
    using bounds [OF a] by (simp_all flip: of_int_power_le_of_int_cancel_iff)
  have B: "2 ^ (?fb - 1) \<le> (of_int b :: rat)" "(of_int b :: rat) < 2 ^ ?fb" "1 \<le> ?fb"
    using bounds [OF x(2)] by (simp_all flip: of_int_power_le_of_int_cancel_iff)
  have p: "2 powi (int m - int n) = (2 ^ m / 2 ^ n :: rat)" for m n by (simp add: power_int_diff)
  have "2 ^ (?fa - 1) / 2 ^ ?fb < x" unfolding x(1) by (rule frac_less2) (use A B x(2) in auto)
  then have lo: "2 powi (int ?fa - int ?fb - 1) < x"
    using p [of "?fa - 1" ?fb] A(3) by (simp add: of_nat_diff algebra_simps)
  have "x < 2 ^ ?fa / 2 ^ (?fb - 1)" unfolding x(1) by (rule frac_less) (use A B a in auto)
  then have hi: "x < 2 powi (int ?fa - int ?fb + 1)"
    using p [of ?fa "?fb - 1"] B(3) by (simp add: of_nat_diff algebra_simps)
  show "2 powi binary_exponent x \<le> x" "x < 2 powi (binary_exponent x + 1)"
    using lo hi by (auto simp: binary_exponent_def ab bitlen_def Let_def not_le)
qed

lemma round_even_near: "\<bar>of_int (round_even y) - y\<bar> \<le> 1 / 2"
proof -
  have "of_int \<lfloor>y\<rfloor> \<le> y" "y < of_int \<lfloor>y\<rfloor> + 1" by linarith+
  then show ?thesis by (auto simp: round_even_def Let_def abs_le_iff)
qed

lemma round_even_of_int [simp]: "round_even (of_int n) = n"
  by (simp add: round_even_def)

text \<open>The relative error is at most one half of the last digit.\<close>

definition ulp :: rat where
  "ulp = 1 / 2 ^ 53"

lemma round53_error: "\<bar>round53 x - x\<bar> \<le> ulp * \<bar>x\<bar>"
proof (cases "x = 0")
  case False
  let ?e = "binary_exponent \<bar>x\<bar>"
  let ?u = "2 powi (?e - 52) :: rat"
  have u: "0 < ?u" by simp
  have scale: "\<bar>a * v - y\<bar> = \<bar>a - y / v\<bar> * v" if "0 < v" for a v y :: rat
  proof -
    have "a * v - y = (a - y / v) * v" using that by (simp add: field_simps)
    then show ?thesis using that by (simp add: abs_mult)
  qed
  have "round53 x = of_int (round_even (x / ?u)) * ?u" using False by (simp add: round53_def Let_def)
  then have "\<bar>round53 x - x\<bar> = \<bar>of_int (round_even (x / ?u)) - x / ?u\<bar> * ?u" using scale [OF u] by simp
  also have "\<dots> \<le> 1 / 2 * ?u" using round_even_near u by (intro mult_right_mono) auto
  also have "\<dots> = ulp * 2 powi ?e" by (simp add: power_int_diff ulp_def)
  also have "\<dots> \<le> ulp * \<bar>x\<bar>"
    using binary_exponent_bounds(1) [of "\<bar>x\<bar>"] False by (intro mult_left_mono) (auto simp: ulp_def)
  finally show ?thesis .
qed (simp add: round53_def)

text \<open>Integers of up to 53 digits are not rounded.\<close>

lemma round53_exact: "x = of_int m * 2 powi (binary_exponent \<bar>x\<bar> - 52) \<Longrightarrow> round53 x = x"
proof -
  let ?u = "2 powi (binary_exponent \<bar>x\<bar> - 52) :: rat"
  assume x: "x = of_int m * ?u"
  have "x / ?u = of_int m" by (subst x) simp
  then show ?thesis using x by (simp add: round53_def Let_def)
qed

lemma round53_int:
  assumes "\<bar>n\<bar> \<le> 2 ^ 53"
  shows "round53 (of_int n) = of_int n"
proof (cases "n = 0")
  case False
  let ?e = "binary_exponent \<bar>of_int n :: rat\<bar>"
  have b: "2 powi ?e \<le> \<bar>of_int n :: rat\<bar>" "\<bar>of_int n :: rat\<bar> < 2 powi (?e + 1)"
    using binary_exponent_bounds [of "\<bar>of_int n\<bar>"] False by simp_all
  have n: "\<bar>of_int n :: rat\<bar> \<le> 2 powi 53" "1 \<le> \<bar>of_int n :: rat\<bar>"
    using assms False by (simp_all flip: of_int_abs)
  show ?thesis
  proof (cases "?e \<le> 52")
    case True
    have "(of_int n :: rat) = of_int (n * 2 ^ nat (52 - ?e)) * 2 powi (?e - 52)"
      using True by (simp flip: power_int_of_nat power_int_add)
    then show ?thesis by (rule round53_exact)
  next
    case False
    have "(2 :: rat) powi ?e \<le> 2 powi 53" using b(1) n(1) by linarith
    from power_int_le_imp_le_exp [OF _ this] False have e: "?e = 53" by simp
    have "(2 :: rat) powi 53 \<le> \<bar>of_int n\<bar>" using b(1) unfolding e .
    then have "\<bar>n\<bar> = 2 ^ 53" using assms by (simp flip: of_int_abs)
    then have "(of_int n :: rat) = of_int (n div 2) * 2 powi (?e - 52)" unfolding e by (auto simp: abs_eq_iff')
    then show ?thesis by (rule round53_exact)
  qed
qed (simp add: round53_def)

section \<open>Numbers\<close>

text \<open>A \<open>float64\<close> is finite, an infinity (negative or not) or no number.\<close>

datatype f64 = Fin rat | Inf bool | NaN

definition f64_of_int :: "int \<Rightarrow> f64" where
  "f64_of_int n = Fin (round53 (of_int n))"

fun f64_neg :: "f64 \<Rightarrow> f64" where
  "f64_neg (Fin x) = Fin (- x)"
| "f64_neg (Inf s) = Inf (\<not> s)"
| "f64_neg NaN = NaN"

fun f64_add :: "f64 \<Rightarrow> f64 \<Rightarrow> f64" where
  "f64_add (Fin x) (Fin y) = Fin (round53 (x + y))"
| "f64_add (Fin x) (Inf s) = Inf s"
| "f64_add (Inf s) (Fin x) = Inf s"
| "f64_add (Inf s) (Inf t) = (if s = t then Inf s else NaN)"
| "f64_add _ _ = NaN"

definition f64_sub :: "f64 \<Rightarrow> f64 \<Rightarrow> f64" where
  "f64_sub x y = f64_add x (f64_neg y)"

fun f64_mult :: "f64 \<Rightarrow> f64 \<Rightarrow> f64" where
  "f64_mult (Fin x) (Fin y) = Fin (round53 (x * y))"
| "f64_mult (Fin x) (Inf s) = (if x = 0 then NaN else Inf ((x < 0) \<noteq> s))"
| "f64_mult (Inf s) (Fin x) = (if x = 0 then NaN else Inf ((x < 0) \<noteq> s))"
| "f64_mult (Inf s) (Inf t) = Inf (s \<noteq> t)"
| "f64_mult _ _ = NaN"

fun f64_div :: "f64 \<Rightarrow> f64 \<Rightarrow> f64" where
  "f64_div (Fin x) (Fin y) = (if y = 0 then (if x = 0 then NaN else Inf (x < 0)) else Fin (round53 (x / y)))"
| "f64_div (Fin x) (Inf s) = Fin 0"
| "f64_div (Inf s) (Fin y) = Inf ((y < 0) \<noteq> s)"
| "f64_div (Inf s) (Inf t) = NaN"
| "f64_div _ _ = NaN"

text \<open>\<open>NaN\<close> compares false with everything.\<close>

fun f64_less :: "f64 \<Rightarrow> f64 \<Rightarrow> bool" where
  "f64_less (Fin x) (Fin y) = (x < y)"
| "f64_less (Fin x) (Inf s) = (\<not> s)"
| "f64_less (Inf s) (Fin x) = s"
| "f64_less (Inf s) (Inf t) = (s \<and> \<not> t)"
| "f64_less _ _ = False"

text \<open>
  The conversion to a \<open>time.Duration\<close> cuts off the fraction; what it gives for other values or out of the range is
  left open by the language, \<^term>\<open>None\<close> here.
\<close>

definition truncate_rat :: "rat \<Rightarrow> int" where
  "truncate_rat x = (if 0 \<le> x then \<lfloor>x\<rfloor> else \<lceil>x\<rceil>)"

fun f64_duration :: "f64 \<Rightarrow> nanos option" where
  "f64_duration (Fin x) = (let n = truncate_rat x in if - max_duration - 1 \<le> n \<and> n \<le> max_duration then Some n else None)"
| "f64_duration _ = None"

end
