(* ===== verification/Rate_Limiter.thy ===== *)
theory Rate_Limiter
  imports Go_Float
begin

text \<open>
  The limiter of the queries to a target (rate_limiter.go): a bucket of tokens that fills with time.
  \<open>Wait\<close> holds the mutex except while it sleeps, so what goroutines do to the bucket is a sequence of sections
  between two sleeps, at the times at which they took the mutex.
\<close>

section \<open>The bucket\<close>

record sendRateLimiter =
  rl_interval :: nanos
  rl_burst :: int
  rl_tokens :: f64
  rl_last :: nanos

definition newSendRateLimiter :: "int \<Rightarrow> int \<Rightarrow> nanos \<Rightarrow> sendRateLimiter option" where
  "newSendRateLimiter rps burst now =
     (if rps \<le> 0 then None
      else (let burst = (if burst \<le> 0 then rps else burst); burst = (if burst < 1 then 1 else burst)
            in Some \<lparr>rl_interval = second div rps, rl_burst = burst, rl_tokens = f64_of_int burst, rl_last = now\<rparr>))"

text \<open>The four lines that add the tokens of the time that has passed.\<close>

definition refill :: "nanos \<Rightarrow> sendRateLimiter \<Rightarrow> sendRateLimiter" where
  "refill now r =
     (let elapsed = time_Sub now (rl_last r);
          tokens = f64_add (rl_tokens r) (f64_div (f64_of_int elapsed) (f64_of_int (rl_interval r)));
          tokens = (if f64_less (f64_of_int (rl_burst r)) tokens then f64_of_int (rl_burst r) else tokens)
      in r\<lparr>rl_last := now, rl_tokens := tokens\<rparr>)"

definition sleep_time :: "sendRateLimiter \<Rightarrow> nanos option" where
  "sleep_time r = map_option (\<lambda>sleep. if sleep < millisecond then millisecond else sleep)
     (f64_duration (f64_mult (f64_sub (Fin 1) (rl_tokens r)) (f64_of_int (rl_interval r))))"

text \<open>
  One section of \<open>Wait\<close>: it takes a token, or it gives the mutex back and sleeps for the time given. Outer \<^term>\<open>None\<close>:
  the language leaves open how long it sleeps.
\<close>

definition wait_section :: "nanos \<Rightarrow> sendRateLimiter \<Rightarrow> (nanos option \<times> sendRateLimiter) option" where
  "wait_section now r =
     (let r = refill now r
      in if f64_less (rl_tokens r) (Fin 1) then map_option (\<lambda>sleep. (Some sleep, r)) (sleep_time r)
         else Some (None, r\<lparr>rl_tokens := f64_sub (rl_tokens r) (Fin 1)\<rparr>))"

text \<open>
  \<open>Wait\<close> undisturbed, with at most \<open>n\<close> sections; \<open>late k\<close> is how much longer than asked the sleep takes
  before the last \<open>k\<close>. The result is the time at which it returns.
\<close>

fun Wait :: "nat \<Rightarrow> (nat \<Rightarrow> nanos) \<Rightarrow> nanos \<Rightarrow> sendRateLimiter \<Rightarrow> (nanos \<times> sendRateLimiter) option" where
  "Wait 0 late now r = None"
| "Wait (Suc n) late now r = (case wait_section now r of
     None \<Rightarrow> None
   | Some (None, r) \<Rightarrow> Some (now, r)
   | Some (Some sleep, r) \<Rightarrow> Wait n late (now + sleep + late n) r)"

text \<open>Any number of goroutines: the number of tokens that were taken in a sequence of sections.\<close>

fun wait_sections :: "nanos list \<Rightarrow> sendRateLimiter \<Rightarrow> (nat \<times> sendRateLimiter) option" where
  "wait_sections [] r = Some (0, r)"
| "wait_sections (t # ts) r = (case wait_section t r of
     None \<Rightarrow> None
   | Some (sleep, r) \<Rightarrow> map_option (\<lambda>(n, r). (if sleep = None then n + 1 else n, r)) (wait_sections ts r))"

section \<open>The bucket is neither overdrawn nor too full\<close>

definition limiter_ok :: "sendRateLimiter \<Rightarrow> bool" where
  "limiter_ok r = (0 < rl_interval r \<and> rl_interval r \<le> second \<and> 1 \<le> rl_burst r \<and> rl_burst r \<le> 2 ^ 53
     \<and> (case rl_tokens r of Fin t \<Rightarrow> 0 \<le> t \<and> t \<le> of_int (rl_burst r) | _ \<Rightarrow> False))"

lemma limiter_okE:
  assumes "limiter_ok r"
  obtains t where "rl_tokens r = Fin t" "0 \<le> t" "t \<le> of_int (rl_burst r)"
  using assms by (auto simp: limiter_ok_def split: f64.splits)

lemma round53_bounds:
  assumes "0 \<le> x"
  shows "x - ulp * x \<le> round53 x" "round53 x \<le> x + ulp * x" "0 \<le> round53 x"
proof -
  have e: "\<bar>round53 x - x\<bar> \<le> ulp * x" using round53_error [of x] assms by simp
  then show "x - ulp * x \<le> round53 x" "round53 x \<le> x + ulp * x" by linarith+
  moreover have "ulp * x \<le> x" using assms by (simp add: ulp_def field_simps)
  ultimately show "0 \<le> round53 x" by linarith
qed

lemma ulp_small: "0 < ulp" "ulp \<le> 1 / 10000000"
  by (simp_all add: ulp_def)

text \<open>The quotient of the time that has passed by the interval, as it is computed.\<close>

definition earned :: "nanos \<Rightarrow> nanos \<Rightarrow> rat" where
  "earned el iv = round53 (round53 (of_int el) / of_int iv)"

lemma earned_bounds:
  assumes "0 \<le> el" "0 < iv"
  shows "of_int el / of_int iv * (1 - 3 * ulp) \<le> earned el iv" "earned el iv \<le> of_int el / of_int iv * (1 + 3 * ulp)"
    "0 \<le> earned el iv"
proof -
  define q :: rat where "q = of_int el / of_int iv"
  let ?q = q and ?r = "round53 (of_int el) / of_int iv"
  have q: "0 \<le> ?q" using assms by (simp add: q_def)
  have r: "?q - ulp * ?q \<le> ?r" "?r \<le> ?q + ulp * ?q" "0 \<le> ?r"
  proof -
    note b = round53_bounds [of "of_int el"]
    have "(of_int el - ulp * of_int el) / of_int iv \<le> ?r" "?r \<le> (of_int el + ulp * of_int el) / of_int iv"
      using b assms by (auto intro!: divide_right_mono)
    then show "?q - ulp * ?q \<le> ?r" "?r \<le> ?q + ulp * ?q" by (simp_all add: q_def diff_divide_distrib add_divide_distrib)
    show "0 \<le> ?r" using b(3) assms by simp
  qed
  note e = round53_bounds [OF r(3)]
  have uq: "0 \<le> ulp * ?q" "ulp * (ulp * ?q) \<le> ulp * ?q"
    using q ulp_small by (simp_all add: mult_left_le_one_le)
  have "ulp * ?r \<le> ulp * (?q + ulp * ?q)" using r(2) ulp_small(1) by (intro mult_left_mono) auto
  then have ur: "ulp * ?r \<le> 2 * (ulp * ?q)" using uq by (simp add: distrib_left)
  have "?q * (1 - 3 * ulp) \<le> earned el iv" "earned el iv \<le> ?q * (1 + 3 * ulp)"
    unfolding earned_def using e r ur uq by (simp_all add: algebra_simps)
  then show "of_int el / of_int iv * (1 - 3 * ulp) \<le> earned el iv"
    "earned el iv \<le> of_int el / of_int iv * (1 + 3 * ulp)" by (simp_all add: q_def)
  show "0 \<le> earned el iv" using e(3) by (simp add: earned_def)
qed

lemma refill_tokens:
  assumes "limiter_ok r" "rl_tokens r = Fin t"
  shows "refill now r = r\<lparr>rl_last := now,
    rl_tokens := Fin (min (of_int (rl_burst r)) (round53 (t + earned (time_Sub now (rl_last r)) (rl_interval r))))\<rparr>"
proof -
  have "f64_of_int (rl_burst r) = Fin (of_int (rl_burst r))" "f64_of_int (rl_interval r) = Fin (of_int (rl_interval r))"
    using assms(1) round53_int by (simp_all add: f64_of_int_def limiter_ok_def second_def)
  moreover have "rl_interval r \<noteq> 0" using assms(1) by (simp add: limiter_ok_def)
  ultimately show ?thesis
    using assms(2) by (auto simp: refill_def Let_def earned_def min_def f64_of_int_def not_less)
qed

text \<open>What the time since the last section is worth, exactly.\<close>

definition worth :: "nanos \<Rightarrow> sendRateLimiter \<Rightarrow> rat" where
  "worth now r = of_int (now - rl_last r) / of_int (rl_interval r)"

definition slack :: "sendRateLimiter \<Rightarrow> rat" where
  "slack r = ulp * of_int (rl_burst r)"

lemma slack_bounds: "limiter_ok r \<Longrightarrow> 0 < slack r \<and> slack r \<le> 1"
  by (simp add: slack_def limiter_ok_def ulp_def)

lemma refill_bounds:
  assumes "limiter_ok r" "rl_tokens r = Fin t" "rl_last r \<le> now" "now - rl_last r \<le> max_duration"
  obtains u where "refill now r = r\<lparr>rl_last := now, rl_tokens := Fin u\<rparr>" "0 \<le> u" "u \<le> of_int (rl_burst r)"
    "u \<le> t + worth now r * (1 + 3 * ulp) + 2 * slack r"
    "u = of_int (rl_burst r) \<or> (1 - ulp) * (t + worth now r * (1 - 3 * ulp)) \<le> u"
proof -
  let ?B = "of_int (rl_burst r) :: rat" and ?w = "worth now r"
  have t: "0 \<le> t" "t \<le> ?B" and iv: "0 < rl_interval r" using assms(1,2) by (auto simp: limiter_ok_def)
  define e where "e = earned (time_Sub now (rl_last r)) (rl_interval r)"
  have "time_Sub now (rl_last r) = now - rl_last r" using assms(3,4) by (intro time_Sub_exact) simp
  then have e: "?w * (1 - 3 * ulp) \<le> e" "e \<le> ?w * (1 + 3 * ulp)" "0 \<le> e"
    unfolding e_def worth_def using earned_bounds [OF _ iv, of "now - rl_last r"] assms(3) by simp_all
  define x where "x = t + e"
  have x: "0 \<le> x" "t + ?w * (1 - 3 * ulp) \<le> x" "x \<le> t + ?w * (1 + 3 * ulp)" using t e by (simp_all add: x_def)
  note b = round53_bounds [OF x(1)]
  let ?u = "min ?B (round53 x)"
  have "?u \<le> x + 2 * slack r"
  proof (cases "?B \<le> x")
    case True
    with slack_bounds [OF assms(1)] show ?thesis by (simp add: min_le_iff_disj)
  next
    case False
    then have "ulp * x \<le> ulp * ?B" using ulp_small(1) by (intro mult_left_mono) auto
    with b(2) slack_bounds [OF assms(1)] show ?thesis by (simp add: min_le_iff_disj slack_def)
  qed
  moreover have "?u = ?B \<or> (1 - ulp) * (t + ?w * (1 - 3 * ulp)) \<le> ?u"
  proof (cases "?B \<le> round53 x")
    case False
    have "(1 - ulp) * (t + ?w * (1 - 3 * ulp)) \<le> (1 - ulp) * x"
      using x(2) ulp_small(2) by (intro mult_left_mono) auto
    also have "\<dots> = x - ulp * x" by (simp add: left_diff_distrib)
    finally show ?thesis using b(1) False by (simp add: min_def)
  qed (simp add: min_def)
  moreover have "0 \<le> ?u" "?u \<le> ?B" using b(3) t by auto
  moreover have "refill now r = r\<lparr>rl_last := now, rl_tokens := Fin ?u\<rparr>"
    using refill_tokens [OF assms(1,2)] by (simp add: x_def e_def)
  ultimately show ?thesis using x(3) by (intro that [of ?u]) auto
qed

text \<open>One section: the tokens and what was taken against the time, up to the rounding.\<close>

definition tokens :: "sendRateLimiter \<Rightarrow> rat" where
  "tokens r = (case rl_tokens r of Fin t \<Rightarrow> t | _ \<Rightarrow> 0)"

lemma tokens_nonneg: "limiter_ok r \<Longrightarrow> 0 \<le> tokens r"
  by (auto simp: limiter_ok_def tokens_def split: f64.splits)

definition same_limits :: "sendRateLimiter \<Rightarrow> sendRateLimiter \<Rightarrow> bool" where
  "same_limits r r' = (rl_interval r' = rl_interval r \<and> rl_burst r' = rl_burst r)"

lemma sleep_time_defined:
  assumes "limiter_ok r" "tokens r < 1"
  obtains d where "sleep_time r = Some d" "millisecond \<le> d" "d \<le> 4 * second"
    "(1 - tokens r) * of_int (rl_interval r) * (1 - 2 * ulp) - 1 \<le> of_int d"
proof -
  obtain t where t: "rl_tokens r = Fin t" "0 \<le> t" using limiter_okE [OF assms(1)] by blast
  have t1: "t < 1" using assms(2) t by (simp add: tokens_def)
  define iv where "iv = (of_int (rl_interval r) :: rat)"
  have iv: "0 < iv" "iv \<le> 1000000000" "f64_of_int (rl_interval r) = Fin iv"
    using assms(1) round53_int by (simp_all add: f64_of_int_def limiter_ok_def second_def iv_def)
  define m where "m = round53 (1 - t)"
  have m: "(1 - t) - ulp * (1 - t) \<le> m" "m \<le> (1 - t) + ulp * (1 - t)" "0 \<le> m"
    using round53_bounds [of "1 - t"] t1 by (simp_all add: m_def)
  define x where "x = round53 (m * iv)"
  have x: "m * iv - ulp * (m * iv) \<le> x" "x \<le> m * iv + ulp * (m * iv)" "0 \<le> x"
    using round53_bounds [of "m * iv"] m(3) iv(1) by (simp_all add: x_def)
  have u1: "ulp * (1 - t) \<le> 1" using t(2) t1 ulp_small by (intro mult_le_one) auto
  then have "m \<le> 2" using m(2) t(2) by linarith
  then have mi: "m * iv \<le> 2 * 1000000000" using m(3) iv by (intro mult_mono) auto
  have mi0: "0 \<le> m * iv" using m(3) iv(1) by simp
  have "ulp * (m * iv) \<le> 1 * (2 * 1000000000)" by (rule mult_mono) (use mi mi0 ulp_small in auto)
  then have xle: "x \<le> 4000000000" using x(2) mi by linarith
  have fl: "0 \<le> \<lfloor>x\<rfloor>" "\<lfloor>x\<rfloor> \<le> 4000000000" using x(3) xle by (simp_all add: floor_le_iff)
  then have d: "f64_duration (f64_mult (f64_sub (Fin 1) (rl_tokens r)) (f64_of_int (rl_interval r))) = Some \<lfloor>x\<rfloor>"
    using x(3) by (simp add: t iv(3) f64_sub_def truncate_rat_def max_duration_def Let_def flip: m_def x_def)
  have low: "(1 - t) * iv * (1 - 2 * ulp) - 1 \<le> of_int \<lfloor>x\<rfloor>"
  proof -
    have "(1 - 2 * ulp) * ((1 - t) * iv) \<le> (1 - ulp) * (1 - ulp) * ((1 - t) * iv)"
      using t1 iv(1) by (intro mult_right_mono) (auto simp: algebra_simps ulp_def)
    also have "\<dots> = (1 - ulp) * (((1 - t) - ulp * (1 - t)) * iv)" by (simp add: algebra_simps)
    also have "\<dots> \<le> (1 - ulp) * (m * iv)"
      using m(1) iv(1) ulp_small by (intro mult_left_mono mult_right_mono) auto
    also have "\<dots> = m * iv - ulp * (m * iv)" by (simp add: left_diff_distrib)
    finally show ?thesis using x(1) by (simp add: mult.commute) linarith
  qed
  define n where "n = \<lfloor>x\<rfloor>"
  have "(1 - t) * iv * (1 - 2 * ulp) - 1 \<le> of_int (max n millisecond)" using low unfolding n_def by linarith
  moreover have "sleep_time r = Some (max n millisecond)" "max n millisecond \<le> 4 * second"
    using d fl by (auto simp: sleep_time_def max_def millisecond_def second_def simp flip: n_def)
  ultimately show ?thesis using t by (intro that [of "max n millisecond"]) (simp_all add: tokens_def iv_def)
qed

text \<open>What a sleep says about the bucket it leaves.\<close>

definition sleeps_for :: "sendRateLimiter \<Rightarrow> nanos \<Rightarrow> bool" where
  "sleeps_for r d = (tokens r < 1 \<and> millisecond \<le> d \<and> d \<le> 4 * second
     \<and> (1 - tokens r) * of_int (rl_interval r) * (1 - 2 * ulp) - 1 \<le> of_int d)"

lemma wait_section_cases:
  assumes "limiter_ok r" "rl_last r \<le> now" "now - rl_last r \<le> max_duration"
  obtains x r' where "wait_section now r = Some (x, r')" "limiter_ok r'" "same_limits r r'" "rl_last r' = now"
    "tokens r' + (if x = None then 1 else 0) \<le> tokens r + worth now r * (1 + 3 * ulp) + 3 * slack r"
    "tokens r' + (if x = None then 1 else 0) \<le> of_int (rl_burst r) + slack r"
    "\<And>d. x = Some d \<Longrightarrow> sleeps_for r' d \<and> (1 - ulp) * (tokens r + worth now r * (1 - 3 * ulp)) \<le> tokens r'"
proof -
  obtain t where t: "rl_tokens r = Fin t" using limiter_okE [OF assms(1)] by blast
  obtain u where u: "refill now r = r\<lparr>rl_last := now, rl_tokens := Fin u\<rparr>" "0 \<le> u" "u \<le> of_int (rl_burst r)"
    "u \<le> t + worth now r * (1 + 3 * ulp) + 2 * slack r"
    "u = of_int (rl_burst r) \<or> (1 - ulp) * (t + worth now r * (1 - 3 * ulp)) \<le> u"
    using refill_bounds [OF assms(1) t assms(2,3)] by metis
  let ?r = "r\<lparr>rl_last := now, rl_tokens := Fin u\<rparr>"
  have ok: "limiter_ok ?r" using assms(1) u by (simp add: limiter_ok_def)
  note sl = slack_bounds [OF assms(1)]
  show ?thesis
  proof (cases "u < 1")
    case True
    have "tokens ?r < 1" using True by (simp add: tokens_def)
    from sleep_time_defined [OF ok this] obtain d where d: "sleep_time ?r = Some d" "sleeps_for ?r d"
      using True by (auto simp: sleeps_for_def tokens_def)
    have "u \<noteq> of_int (rl_burst r)" using True assms(1) by (auto simp: limiter_ok_def)
    with True u sl ok t d show ?thesis
      by (intro that [of "Some d" ?r]) (simp_all add: wait_section_def same_limits_def tokens_def)
  next
    case False
    then have b: "round53 (u - 1) \<le> (u - 1) + ulp * (u - 1)" "0 \<le> round53 (u - 1)"
      using round53_bounds [of "u - 1"] by simp_all
    have "ulp * (u - 1) \<le> slack r" unfolding slack_def using u(3) ulp_small(1) by (intro mult_left_mono) auto
    with b sl have le: "round53 (u - 1) + 1 \<le> u + slack r" "round53 (u - 1) \<le> of_int (rl_burst r)" using u(3) by linarith+
    with False u sl ok t b show ?thesis
      by (intro that [of None "?r\<lparr>rl_tokens := Fin (round53 (u - 1))\<rparr>"])
        (simp_all add: wait_section_def same_limits_def tokens_def f64_sub_def limiter_ok_def)
  qed
qed

lemma wait_sections_bound:
  assumes "limiter_ok r" "sorted (rl_last r # ts)" "last (rl_last r # ts) - rl_last r \<le> max_duration"
  shows "\<exists>n r'. wait_sections ts r = Some (n, r') \<and> limiter_ok r' \<and> same_limits r r' \<and> rl_last r' = last (rl_last r # ts)
    \<and> tokens r' + of_nat n \<le> tokens r + worth (last (rl_last r # ts)) r * (1 + 3 * ulp) + 3 * slack r * of_nat (length ts)"
  using assms
proof (induction ts arbitrary: r)
  case Nil
  then show ?case by (simp add: worth_def same_limits_def)
next
  case (Cons now ts)
  let ?stop = "last (now # ts)"
  have s: "rl_last r \<le> now" "sorted (now # ts)" "now \<le> ?stop" using Cons.prems(2) by (auto simp: last_in_set)
  with Cons.prems(3) have gap: "now - rl_last r \<le> max_duration" "?stop - now \<le> max_duration" by (auto split: if_splits)
  obtain x r1 where r1: "wait_section now r = Some (x, r1)" "limiter_ok r1" "same_limits r r1" "rl_last r1 = now"
    "tokens r1 + (if x = None then 1 else 0) \<le> tokens r + worth now r * (1 + 3 * ulp) + 3 * slack r"
    by (rule wait_section_cases [OF Cons.prems(1) s(1) gap(1)])
  from Cons.IH [OF r1(2)] s(2) gap(2) r1(4) obtain n r' where
    r': "wait_sections ts r1 = Some (n, r')" "limiter_ok r'" "same_limits r1 r'" "rl_last r' = ?stop"
    "tokens r' + of_nat n \<le> tokens r1 + worth ?stop r1 * (1 + 3 * ulp) + 3 * slack r1 * of_nat (length ts)"
    by (auto split: if_splits)
  have eq: "slack r1 = slack r" "worth ?stop r1 + worth now r = worth ?stop r"
    using r1(3,4) by (simp_all add: slack_def same_limits_def worth_def flip: add_divide_distrib)
  have "worth ?stop r * (1 + 3 * ulp) = worth ?stop r1 * (1 + 3 * ulp) + worth now r * (1 + 3 * ulp)"
    unfolding eq(2) [symmetric] by (simp add: distrib_right)
  moreover have "3 * slack r * of_nat (length (now # ts)) = 3 * slack r * of_nat (length ts) + 3 * slack r"
    by (simp add: algebra_simps)
  ultimately have "tokens r' + of_nat (if x = None then n + 1 else n)
      \<le> tokens r + worth ?stop r * (1 + 3 * ulp) + 3 * slack r * of_nat (length (now # ts))"
    using r1(5) r'(5) eq(1) by (cases x) simp_all
  with r1 r' show ?case
    by (intro exI [of _ "if x = None then n + 1 else n"] exI [of _ r']) (simp add: same_limits_def)
qed

lemma new_limiter:
  assumes "0 < rps" "rps \<le> second" "burst \<le> 2 ^ 53"
  obtains r where "newSendRateLimiter rps burst now = Some r" "limiter_ok r" "rl_last r = now"
    "rl_burst r = (if burst \<le> 0 then rps else burst)" "tokens r = of_int (rl_burst r)" "rl_interval r = second div rps"
proof -
  let ?b = "if burst \<le> 0 then rps else burst"
  let ?r = "\<lparr>rl_interval = second div rps, rl_burst = ?b, rl_tokens = f64_of_int ?b, rl_last = now\<rparr>"
  have b: "1 \<le> ?b" "?b \<le> 2 ^ 53" using assms by (auto simp: second_def)
  have "0 < second div rps" "second div rps \<le> second"
    using assms zdiv_mono2 [of second 1 rps] by (simp_all add: pos_imp_zdiv_pos_iff second_def)
  moreover have "f64_of_int ?b = Fin (of_int ?b)" using round53_int [of ?b] b by (simp add: f64_of_int_def)
  ultimately show ?thesis
    using b assms(1) by (intro that [of ?r]) (auto simp: newSendRateLimiter_def limiter_ok_def tokens_def Let_def)
qed

section \<open>The rate\<close>

lemma window_bound:
  assumes "limiter_ok r" "sorted (rl_last r # t # ts)" "last (t # ts) - rl_last r \<le> max_duration"
  shows "\<exists>n r'. wait_sections (t # ts) r = Some (n, r')
    \<and> of_nat n \<le> of_int (rl_burst r) * (1 + 3 * ulp * of_nat (length (t # ts)))
        + of_int (last (t # ts) - t) / of_int (rl_interval r) * (1 + 3 * ulp)"
proof -
  have s: "rl_last r \<le> t" "sorted (t # ts)" "t \<le> last (t # ts)" using assms(2) by (auto simp: last_in_set)
  with assms(3) have gap: "t - rl_last r \<le> max_duration" "last (t # ts) - t \<le> max_duration" by auto
  obtain x r1 where r1: "wait_section t r = Some (x, r1)" "limiter_ok r1" "same_limits r r1" "rl_last r1 = t"
    "tokens r1 + (if x = None then 1 else 0) \<le> of_int (rl_burst r) + slack r"
    by (rule wait_section_cases [OF assms(1) s(1) gap(1)])
  from wait_sections_bound [OF r1(2), of ts] s(2) gap(2) r1(4) obtain n r' where
    r': "wait_sections ts r1 = Some (n, r')" "limiter_ok r'"
    "tokens r' + of_nat n \<le> tokens r1 + worth (last (t # ts)) r1 * (1 + 3 * ulp) + 3 * slack r1 * of_nat (length ts)"
    by auto
  let ?w = "of_int (last (t # ts) - t) / of_int (rl_interval r) :: rat" and ?B = "of_int (rl_burst r) :: rat"
  have eq: "slack r1 = slack r" "worth (last (t # ts)) r1 = ?w"
    using r1(3,4) by (simp_all add: slack_def same_limits_def worth_def)
  have "of_nat (if x = None then n + 1 else n) \<le> ?B + slack r + ?w * (1 + 3 * ulp) + 3 * slack r * of_nat (length ts)"
    using r'(3) r1(5) tokens_nonneg [OF r'(2)] unfolding eq by (cases x) simp_all
  moreover have "?B * (1 + 3 * ulp * of_nat (length (t # ts))) = ?B + 3 * slack r + 3 * slack r * of_nat (length ts)"
    by (simp add: slack_def algebra_simps)
  ultimately have "of_nat (if x = None then n + 1 else n) \<le> ?B * (1 + 3 * ulp * of_nat (length (t # ts))) + ?w * (1 + 3 * ulp)"
    using slack_bounds [OF assms(1)] by linarith
  with r1(1) r'(1) show ?thesis by (intro exI [of _ "if x = None then n + 1 else n"] exI [of _ r']) simp
qed

text \<open>
  C29. However many goroutines wait and however their waits interleave, in any stretch of \<open>T\<close> nanoseconds no
  more queries pass than \<open>burst\<close> and one for each interval, up to the rounding of the
  floating-point numbers: of the sections at the times \<open>before\<close> and then \<open>t # ts\<close>, those from \<open>t\<close> on
  pass so many. The interval is 10^9 ns divided by \<open>send_max_rps\<close> and rounded down, so the rate
  is not below the one asked for.
\<close>

theorem rate_is_bounded:
  assumes "0 < rps" "rps \<le> second" "burst \<le> 2 ^ 53" "newSendRateLimiter rps burst now = Some r"
    and "sorted (now # before @ t # ts)" "last (t # ts) - now \<le> max_duration"
  shows "\<exists>m r' n r''. wait_sections before r = Some (m, r') \<and> wait_sections (t # ts) r' = Some (n, r'')
    \<and> of_nat n \<le> of_int (rl_burst r) * (1 + 3 * ulp * of_nat (length (t # ts)))
        + of_int (last (t # ts) - t) / of_int (second div rps) * (1 + 3 * ulp)"
proof -
  obtain r0 where r0: "newSendRateLimiter rps burst now = Some r0" "limiter_ok r0" "rl_last r0 = now"
    "rl_interval r0 = second div rps"
    by (rule new_limiter [OF assms(1-3)])
  then have r: "limiter_ok r" "rl_last r = now" "rl_interval r = second div rps" using assms(4) by simp_all
  have le: "last (now # before) \<le> t" "t \<le> last (t # ts)" "sorted (now # before)" "sorted (t # ts)" "now \<le> last (now # before)"
  proof -
    have so: "sorted (now # before)" "sorted (t # ts)" "\<forall>x \<in> set (now # before). \<forall>y \<in> set (t # ts). x \<le> y"
      using assms(5) unfolding append_Cons [symmetric] sorted_append by simp_all
    have l: "last (now # before) \<in> set (now # before)" "last (t # ts) \<in> set (t # ts)" by (rule last_in_set; simp)+
    show "last (now # before) \<le> t" using so(3) l(1) by simp
    show "t \<le> last (t # ts)" using so(2) l(2) by auto
    show "now \<le> last (now # before)" using so(1) l(1) by auto
    show "sorted (now # before)" "sorted (t # ts)" by (fact so)+
  qed
  define end0 where "end0 = last (now # before)"
  have e: "end0 \<le> t" "now \<le> end0" using le unfolding end0_def by blast+
  have "sorted (rl_last r # before)" "last (rl_last r # before) - rl_last r \<le> max_duration"
    using le(3) e le(2) assms(6) unfolding r(2) end0_def [symmetric] by simp_all
  from wait_sections_bound [OF r(1) this] obtain m r' where
    m: "wait_sections before r = Some (m, r')" "limiter_ok r'" "same_limits r r'" "rl_last r' = end0"
    unfolding r(2) end0_def [symmetric] by blast
  have "sorted (rl_last r' # t # ts)" "last (t # ts) - rl_last r' \<le> max_duration"
    using le(4) e assms(6) unfolding m(4) by auto
  from window_bound [OF m(2) this] obtain n r'' where "wait_sections (t # ts) r' = Some (n, r'')"
    "of_nat n \<le> of_int (rl_burst r) * (1 + 3 * ulp * of_nat (length (t # ts)))
        + of_int (last (t # ts) - t) / of_int (second div rps) * (1 + 3 * ulp)"
    using m(3) r(3) unfolding same_limits_def by metis
  with m(1) show ?thesis by blast
qed

theorem rate_is_bounded_witness:
  "\<exists>r m r' n r''. newSendRateLimiter 10 2 0 = Some r \<and> wait_sections [0] r = Some (m, r')
    \<and> wait_sections [5 * second, 5 * second, 5 * second, 5 * second + 50 * millisecond, 5 * second + 150 * millisecond] r' = Some (n, r'')
    \<and> n \<le> 3"
proof -
  let ?ts = "[5 * second, 5 * second, 5 * second + 50 * millisecond, 5 * second + 150 * millisecond]"
  obtain r where r: "newSendRateLimiter 10 2 0 = Some r" "rl_burst r = 2"
    by (rule new_limiter [of 10 2 0]) (simp_all add: second_def)
  from rate_is_bounded [OF _ _ _ r(1), of "[0]" "5 * second" ?ts] obtain m r' n r'' where
    n: "wait_sections [0] r = Some (m, r')" "wait_sections (5 * second # ?ts) r' = Some (n, r'')"
    "of_nat n \<le> (2 :: rat) * (1 + 3 * ulp * 5) + of_int (150 * millisecond) / of_int (second div 10) * (1 + 3 * ulp)"
    by (auto simp: second_def millisecond_def max_duration_def r(2))
  from n(3) have "of_nat n < (4 :: rat)" by (simp add: second_def millisecond_def ulp_def)
  then have "n \<le> 3" by simp
  with r(1) n(1,2) show ?thesis by blast
qed

section \<open>The end of a wait\<close>

lemma two_sleeps_enough:
  fixes t1 t2 w1 w2 iv :: rat
  assumes "1 \<le> iv" "iv \<le> 1000000000" "0 \<le> t1" "t1 < 1"
    and "((1 - t1) * iv * (1 - 2 * ulp) - 1) / iv \<le> w1" "(1 - ulp) * (t1 + w1 * (1 - 3 * ulp)) \<le> t2" "1000000 / iv \<le> w2"
  shows "1 \<le> (1 - ulp) * (t2 + w2 * (1 - 3 * ulp))"
proof -
  define v k where "v = 1 / iv" "k = 1 - t1"
  have v: "1 / 1000000000 \<le> v" "v \<le> 1" and k: "0 < k" "k \<le> 1" "t1 = 1 - k"
    using assms(1-4) by (auto simp: v_k_def divide_simps)
  have u: "0 < ulp" "ulp \<le> 1 / 10000000" by (fact ulp_small)+
  have "k * (1 - 2 * ulp) - v \<le> w1" using assms(1,5) by (simp add: v_k_def diff_divide_distrib)
  then have "(k * (1 - 2 * ulp) - v) * (1 - 3 * ulp) \<le> w1 * (1 - 3 * ulp)" using u by (intro mult_right_mono) auto
  moreover have "k * (1 - 5 * ulp) - v \<le> (k * (1 - 2 * ulp) - v) * (1 - 3 * ulp)"
  proof -
    have "(k * (1 - 2 * ulp) - v) * (1 - 3 * ulp) = k * (1 - 5 * ulp) - v + (6 * (k * ulp * ulp) + 3 * (v * ulp))"
      by (simp add: algebra_simps)
    moreover have "0 \<le> k * ulp * ulp" "0 \<le> v * ulp" using k v u by auto
    ultimately show ?thesis by linarith
  qed
  moreover have "k * ulp \<le> ulp" using k u by (simp add: mult_left_le_one_le)
  ultimately have "1 - 5 * ulp - v \<le> t1 + w1 * (1 - 3 * ulp)" using k(3) by (simp add: algebra_simps)
  then have "(1 - ulp) * (1 - 5 * ulp - v) \<le> (1 - ulp) * (t1 + w1 * (1 - 3 * ulp))"
    using u by (intro mult_left_mono) auto
  with assms(6) have "(1 - ulp) * (1 - 5 * ulp - v) \<le> t2" by linarith
  moreover have "ulp * (1 - 5 * ulp - v) \<le> ulp" using u v by (intro mult_left_le) auto
  ultimately have t2: "1 - 6 * ulp - v \<le> t2" by (simp add: left_diff_distrib)
  have "1000000 * v * (1 - 3 * ulp) \<le> w2 * (1 - 3 * ulp)" using assms(7) u by (intro mult_right_mono) (auto simp: v_k_def)
  moreover have "1000000 * v * (1 - 3 * ulp) = 1000000 * v - 3000000 * (v * ulp)" by (simp add: algebra_simps)
  moreover have "v * ulp \<le> v * (1 / 10000000)" using u v by (intro mult_left_mono) auto
  ultimately have "1 + 9 / 10000 \<le> t2 + w2 * (1 - 3 * ulp)" using t2 u v by linarith
  then have "(1 - ulp) * (1 + 9 / 10000) \<le> (1 - ulp) * (t2 + w2 * (1 - 3 * ulp))" using u by (intro mult_left_mono) auto
  moreover have "1 \<le> (1 - ulp) * (1 + 9 / 10000 :: rat)" using u by (simp add: left_diff_distrib)
  ultimately show ?thesis by linarith
qed

text \<open>
  A query that is alone waits for a token at most twice: after a first sleep of the time computed it
  lacks at most the part that was cut off and rounded, which the shortest sleep of a millisecond makes up for.
\<close>

theorem wait_ends:
  assumes "limiter_ok r" "rl_last r \<le> now" "now - rl_last r \<le> max_duration"
    and "\<And>k. 0 \<le> late k \<and> late k \<le> max_duration - 4 * second"
  shows "\<exists>t r'. Wait 3 late now r = Some (t, r') \<and> limiter_ok r' \<and> now \<le> t"
proof -
  define iv where "iv = (of_int (rl_interval r) :: rat)"
  have iv: "1 \<le> iv" "iv \<le> 1000000000" using assms(1) by (simp_all add: iv_def limiter_ok_def second_def)
  obtain x1 r1 where r1: "wait_section now r = Some (x1, r1)" "limiter_ok r1" "same_limits r r1" "rl_last r1 = now"
    "\<And>d. x1 = Some d \<Longrightarrow> sleeps_for r1 d" using wait_section_cases [OF assms(1-3)] by metis
  show ?thesis
  proof (cases x1)
    case None
    with r1 show ?thesis by (simp add: eval_nat_numeral)
  next
    case (Some d1)
    have d1: "sleeps_for r1 d1" using r1(5) Some by simp
    let ?t2 = "now + d1 + late 2"
    have g2: "rl_last r1 \<le> ?t2" "?t2 - rl_last r1 \<le> max_duration"
      using assms(4) [of 2] d1 r1(4) by (auto simp: sleeps_for_def millisecond_def)
    obtain x2 r2 where r2: "wait_section ?t2 r1 = Some (x2, r2)" "limiter_ok r2" "same_limits r1 r2" "rl_last r2 = ?t2"
      "\<And>d. x2 = Some d \<Longrightarrow> sleeps_for r2 d \<and> (1 - ulp) * (tokens r1 + worth ?t2 r1 * (1 - 3 * ulp)) \<le> tokens r2"
      using wait_section_cases [OF r1(2) g2] by metis
    show ?thesis
    proof (cases x2)
      case None
      with r1 r2 Some g2 show ?thesis by (simp add: eval_nat_numeral)
    next
      case (Some d2)
      have d2: "sleeps_for r2 d2" "(1 - ulp) * (tokens r1 + worth ?t2 r1 * (1 - 3 * ulp)) \<le> tokens r2" using r2(5) Some by auto
      let ?t3 = "?t2 + d2 + late 1"
      have g3: "rl_last r2 \<le> ?t3" "?t3 - rl_last r2 \<le> max_duration"
        using assms(4) [of 1] d2(1) r2(4) by (auto simp: sleeps_for_def millisecond_def)
      obtain x3 r3 where r3: "wait_section ?t3 r2 = Some (x3, r3)" "limiter_ok r3"
        "\<And>d. x3 = Some d \<Longrightarrow> sleeps_for r3 d \<and> (1 - ulp) * (tokens r2 + worth ?t3 r2 * (1 - 3 * ulp)) \<le> tokens r3"
        using wait_section_cases [OF r2(2) g3] by metis
      have "1 \<le> (1 - ulp) * (tokens r2 + worth ?t3 r2 * (1 - 3 * ulp))"
      proof (rule two_sleeps_enough [OF iv _ _ _ d2(2)])
        show "0 \<le> tokens r1" by (rule tokens_nonneg [OF r1(2)])
        show "tokens r1 < 1" using d1 by (simp add: sleeps_for_def)
        have i: "rl_interval r1 = rl_interval r" "rl_interval r2 = rl_interval r"
          using r1(3) r2(3) by (simp_all add: same_limits_def)
        have "(1 - tokens r1) * iv * (1 - 2 * ulp) - 1 \<le> of_int (?t2 - rl_last r1)"
          using d1 assms(4) [of 2] r1(4) i(1) by (auto simp: sleeps_for_def iv_def)
        then show "((1 - tokens r1) * iv * (1 - 2 * ulp) - 1) / iv \<le> worth ?t2 r1"
          using iv unfolding worth_def i iv_def [symmetric] by (intro divide_right_mono) auto
        have "(1000000 :: rat) \<le> of_int (?t3 - rl_last r2)"
          using d2(1) assms(4) [of 1] r2(4) by (auto simp: sleeps_for_def millisecond_def)
        then show "1000000 / iv \<le> worth ?t3 r2"
          using iv unfolding worth_def i iv_def [symmetric] by (intro divide_right_mono) auto
      qed
      with r3(3) have "x3 = None" by (cases x3) (fastforce simp: sleeps_for_def)+
      with r1 r2 r3 Some \<open>x1 = Some d1\<close> g2 g3 show ?thesis by (simp add: eval_nat_numeral)
    qed
  qed
qed

theorem wait_ends_witness:
  "\<exists>r'. Wait 3 (\<lambda>_. 0) 0 \<lparr>rl_interval = second div 10, rl_burst = 2, rl_tokens = Fin 0, rl_last = 0\<rparr>
     = Some (100 * millisecond, r') \<and> limiter_ok r'"
proof -
  let ?r = "\<lparr>rl_interval = second div 10, rl_burst = 2, rl_tokens = Fin 0, rl_last = 0\<rparr>"
  have "limiter_ok ?r" by (simp add: limiter_ok_def second_def)
  from wait_ends [OF this, of 0 "\<lambda>_. 0"] obtain t r' where w: "Wait 3 (\<lambda>_. 0) 0 ?r = Some (t, r')" "limiter_ok r'"
    by (auto simp: max_duration_def second_def)
  have "map_option fst (Wait 3 (\<lambda>_. 0) 0 ?r) = Some (100 * millisecond)" by code_simp
  with w show ?thesis by simp
qed

end
