(* ===== verification/Metrics.thy ===== *)
theory Metrics
  imports Go_Float
begin

text \<open>
  The Prometheus metrics (metrics.go): which there are, which are registered at the start, and which
  of them an event of a target changes. The registry is a list of names; the package refuses a name
  that is in it.
\<close>

section \<open>The metrics\<close>

datatype metric = PushCounter | SentCounter | DumpCounter | GoodServers | BadServers | QueuedDumps | SendQueue
  | SentBkpCounter | DumpBkpCounter | GoodBkpServers | BadBkpServers | QueuedBkpDumps | SendBkpQueue
  | LastSentUnix | LastBkpSentUnix | DumpDirBytes | DumpBkpDirBytes | JournalPending | JournalDirBytes

fun metric_name :: "metric \<Rightarrow> string" where
  "metric_name PushCounter = ''ch_received_count''"
| "metric_name SentCounter = ''ch_sent_count''"
| "metric_name DumpCounter = ''ch_dump_count''"
| "metric_name GoodServers = ''ch_good_servers''"
| "metric_name BadServers = ''ch_bad_servers''"
| "metric_name QueuedDumps = ''ch_queued_dumps''"
| "metric_name SendQueue = ''ch_send_queue''"
| "metric_name SentBkpCounter = ''ch_bkp_sent_count''"
| "metric_name DumpBkpCounter = ''ch_bkp_dump_count''"
| "metric_name GoodBkpServers = ''ch_bkp_good_servers''"
| "metric_name BadBkpServers = ''ch_bkp_bad_servers''"
| "metric_name QueuedBkpDumps = ''ch_bkp_queued_dumps''"
| "metric_name SendBkpQueue = ''ch_bkp_send_queue''"
| "metric_name LastSentUnix = ''ch_last_sent_unixtime''"
| "metric_name LastBkpSentUnix = ''ch_bkp_last_sent_unixtime''"
| "metric_name DumpDirBytes = ''ch_dump_dir_bytes''"
| "metric_name DumpBkpDirBytes = ''ch_bkp_dump_dir_bytes''"
| "metric_name JournalPending = ''ch_journal_pending''"
| "metric_name JournalDirBytes = ''ch_journal_dir_bytes''"

record metrics =
  m_values :: "metric \<Rightarrow> f64"
  m_registered :: "string list"
  m_backupEnabled :: bool
  m_prefix :: string

definition new_metrics :: metrics where
  "new_metrics = \<lparr>m_values = (\<lambda>_. Fin 0), m_registered = [], m_backupEnabled = False, m_prefix = []\<rparr>"

section \<open>Events\<close>

definition isBackupTarget :: "string \<Rightarrow> bool" where
  "isBackupTarget target = (target = ''backup'')"

definition metric_Inc :: "metric \<Rightarrow> metrics \<Rightarrow> metrics" where
  "metric_Inc m s = s\<lparr>m_values := (m_values s)(m := f64_add (m_values s m) (Fin 1))\<rparr>"

definition metric_Set :: "metric \<Rightarrow> f64 \<Rightarrow> metrics \<Rightarrow> metrics" where
  "metric_Set m x s = s\<lparr>m_values := (m_values s)(m := x)\<rparr>"

definition incSentCounter :: "string \<Rightarrow> metrics \<Rightarrow> metrics" where
  "incSentCounter target s =
     (if isBackupTarget target then (if m_backupEnabled s then metric_Inc SentBkpCounter s else s)
      else metric_Inc SentCounter s)"

definition incDumpCounter :: "string \<Rightarrow> metrics \<Rightarrow> metrics" where
  "incDumpCounter target s =
     (if isBackupTarget target then (if m_backupEnabled s then metric_Inc DumpBkpCounter s else s)
      else metric_Inc DumpCounter s)"

definition setServerGauges :: "string \<Rightarrow> int \<Rightarrow> int \<Rightarrow> metrics \<Rightarrow> metrics" where
  "setServerGauges target good bad s =
     (if isBackupTarget target
      then (if m_backupEnabled s
            then metric_Set BadBkpServers (f64_of_int bad) (metric_Set GoodBkpServers (f64_of_int good) s) else s)
      else metric_Set BadServers (f64_of_int bad) (metric_Set GoodServers (f64_of_int good) s))"

definition setQueuedDumpsGauge :: "string \<Rightarrow> int \<Rightarrow> metrics \<Rightarrow> metrics" where
  "setQueuedDumpsGauge target count s =
     (if isBackupTarget target then (if m_backupEnabled s then metric_Set QueuedBkpDumps (f64_of_int count) s else s)
      else metric_Set QueuedDumps (f64_of_int count) s)"

definition recordLastSent :: "string \<Rightarrow> nanos \<Rightarrow> metrics \<Rightarrow> metrics" where
  "recordLastSent target unix s =
     (if isBackupTarget target then (if m_backupEnabled s then metric_Set LastBkpSentUnix (f64_of_int unix) s else s)
      else metric_Set LastSentUnix (f64_of_int unix) s)"

definition setSendQueueGauge :: "string \<Rightarrow> int \<Rightarrow> metrics \<Rightarrow> metrics" where
  "setSendQueueGauge target n s =
     (if isBackupTarget target then (if m_backupEnabled s then metric_Set SendBkpQueue (f64_of_int n) s else s)
      else metric_Set SendQueue (f64_of_int n) s)"

definition setDumpDirBytesGauge :: "string \<Rightarrow> int \<Rightarrow> metrics \<Rightarrow> metrics" where
  "setDumpDirBytesGauge target bytes s =
     (if isBackupTarget target then (if m_backupEnabled s then metric_Set DumpBkpDirBytes (f64_of_int bytes) s else s)
      else metric_Set DumpDirBytes (f64_of_int bytes) s)"

text \<open>\<^term>\<open>None\<close> is a nil journal; the numbers are those that \<open>PendingCount\<close> and \<open>DirBytes\<close> return, \<^term>\<open>None\<close> for an error.\<close>

definition setJournalPendingGauge :: "(int option \<times> int option) option \<Rightarrow> metrics \<Rightarrow> metrics" where
  "setJournalPendingGauge j s = (case j of
     None \<Rightarrow> s
   | Some (None, _) \<Rightarrow> s
   | Some (Some n, None) \<Rightarrow> metric_Set JournalPending (f64_of_int n) s
   | Some (Some n, Some b) \<Rightarrow> metric_Set JournalDirBytes (f64_of_int b) (metric_Set JournalPending (f64_of_int n) s))"

section \<open>Registration\<close>

text \<open>\<open>MustRegister\<close> panics (\<^term>\<open>None\<close>) when the name is taken.\<close>

definition MustRegister :: "metric \<Rightarrow> metrics \<Rightarrow> metrics option" where
  "MustRegister m s = (let n = m_prefix s @ metric_name m
     in if n \<in> set (m_registered s) then None else Some (s\<lparr>m_registered := m_registered s @ [n]\<rparr>))"

fun register_all :: "metric list \<Rightarrow> metrics \<Rightarrow> metrics option" where
  "register_all [] s = Some s"
| "register_all (m # ms) s = (case MustRegister m s of None \<Rightarrow> None | Some s \<Rightarrow> register_all ms s)"

text \<open>The prefixes of repeated calls follow one another.\<close>

definition InitMetrics :: "string \<Rightarrow> bool \<Rightarrow> metrics \<Rightarrow> metrics option" where
  "InitMetrics prfx backupEnabled s =
     (let s = s\<lparr>m_backupEnabled := backupEnabled, m_prefix := m_prefix s @ prfx\<rparr> in
      case register_all [PushCounter, SentCounter, DumpCounter, QueuedDumps, GoodServers, BadServers, SendQueue,
          LastSentUnix, DumpDirBytes] s of
        None \<Rightarrow> None
      | Some s \<Rightarrow>
          (if backupEnabled
           then register_all [SentBkpCounter, DumpBkpCounter, QueuedBkpDumps, GoodBkpServers, BadBkpServers, SendBkpQueue,
             LastBkpSentUnix, DumpBkpDirBytes] s
           else Some s))"

definition RegisterJournalMetrics :: "metrics \<Rightarrow> metrics option" where
  "RegisterJournalMetrics s = register_all [JournalPending, JournalDirBytes] s"

section \<open>Events of a run\<close>

datatype metric_event = Received | Sent string | Dumped string | Servers string int int | Dumps string int
  | SentAt string nanos | InQueue string int | DirBytes string int | JournalState "(int option \<times> int option) option"

fun apply_event :: "metric_event \<Rightarrow> metrics \<Rightarrow> metrics" where
  "apply_event Received = metric_Inc PushCounter"
| "apply_event (Sent t) = incSentCounter t"
| "apply_event (Dumped t) = incDumpCounter t"
| "apply_event (Servers t good bad) = setServerGauges t good bad"
| "apply_event (Dumps t n) = setQueuedDumpsGauge t n"
| "apply_event (SentAt t unix) = recordLastSent t unix"
| "apply_event (InQueue t n) = setSendQueueGauge t n"
| "apply_event (DirBytes t n) = setDumpDirBytesGauge t n"
| "apply_event (JournalState j) = setJournalPendingGauge j"

definition metric_events :: "metric_event list \<Rightarrow> metrics \<Rightarrow> metrics" where
  "metric_events es s = fold apply_event es s"

text \<open>The metrics of the backup target, of the live one and of neither, and the same for events.\<close>

datatype owner = Live_Target | Backup_Target | Whole

fun metric_owner :: "metric \<Rightarrow> owner" where
  "metric_owner PushCounter = Whole"
| "metric_owner JournalPending = Whole"
| "metric_owner JournalDirBytes = Whole"
| "metric_owner m = (if m \<in> {SentBkpCounter, DumpBkpCounter, GoodBkpServers, BadBkpServers, QueuedBkpDumps, SendBkpQueue,
     LastBkpSentUnix, DumpBkpDirBytes} then Backup_Target else Live_Target)"

definition target_owner :: "string \<Rightarrow> owner" where
  "target_owner t = (if isBackupTarget t then Backup_Target else Live_Target)"

fun event_owner :: "metric_event \<Rightarrow> owner" where
  "event_owner (Sent t) = target_owner t"
| "event_owner (Dumped t) = target_owner t"
| "event_owner (Servers t good bad) = target_owner t"
| "event_owner (Dumps t n) = target_owner t"
| "event_owner (SentAt t unix) = target_owner t"
| "event_owner (InQueue t n) = target_owner t"
| "event_owner (DirBytes t n) = target_owner t"
| "event_owner _ = Whole"

lemmas metric_event_defs = incSentCounter_def incDumpCounter_def setServerGauges_def setQueuedDumpsGauge_def recordLastSent_def
  setSendQueueGauge_def setDumpDirBytesGauge_def setJournalPendingGauge_def metric_Inc_def metric_Set_def target_owner_def

lemma apply_event_frame [simp]:
  "m_registered (apply_event e s) = m_registered s" "m_backupEnabled (apply_event e s) = m_backupEnabled s"
  "m_prefix (apply_event e s) = m_prefix s"
  by (cases e; simp add: metric_event_defs split: option.split)+

lemma apply_event_other: "event_owner e \<noteq> metric_owner m \<Longrightarrow> m_values (apply_event e s) m = m_values s m"
  by (cases e; cases m; simp add: metric_event_defs split: if_splits option.split)

text \<open>What an event does to a metric depends on that metric alone.\<close>

lemma apply_event_local:
  "m_values s m = m_values s' m \<Longrightarrow> m_backupEnabled s = m_backupEnabled s' \<Longrightarrow>
   m_values (apply_event e s) m = m_values (apply_event e s') m"
  by (cases e) (auto simp: metric_event_defs split: option.split)

lemma metric_events_owner:
  "m_values s m = m_values s' m \<Longrightarrow> m_backupEnabled s = m_backupEnabled s' \<Longrightarrow>
   m_values (metric_events es s) m = m_values (metric_events (filter (\<lambda>e. event_owner e = metric_owner m) es) s') m"
proof (induction es arbitrary: s s')
  case (Cons e es)
  show ?case
  proof (cases "event_owner e = metric_owner m")
    case True
    then show ?thesis
      using Cons.IH [of "apply_event e s" "apply_event e s'"] apply_event_local [OF Cons.prems] Cons.prems(2)
      by (simp add: metric_events_def)
  next
    case False
    then show ?thesis
      using Cons.IH [of "apply_event e s" s'] apply_event_other [OF False, of s] Cons.prems by (simp add: metric_events_def)
  qed
qed (simp add: metric_events_def)

lemma disabled_backup_event:
  "\<not> m_backupEnabled s \<Longrightarrow> metric_owner m = Backup_Target \<Longrightarrow> m_values (apply_event e s) m = m_values s m"
  by (cases e; cases m; simp add: metric_event_defs split: option.split)

lemma disabled_backup:
  "\<not> m_backupEnabled s \<Longrightarrow> metric_owner m = Backup_Target \<Longrightarrow> m_values (metric_events es s) m = m_values s m"
  by (induction es arbitrary: s) (simp_all add: metric_events_def disabled_backup_event)

lemma no_journal_event:
  assumes "\<forall>x. JournalState (Some x) \<notin> set es" "m \<in> {JournalPending, JournalDirBytes}"
  shows "m_values (metric_events es s) m = m_values s m"
  using assms
proof (induction es arbitrary: s)
  case (Cons e es)
  have "m_values (apply_event e s) m = m_values s m"
    using Cons.prems by (cases e) (auto simp: metric_event_defs split: option.split)
  with Cons show ?case by (simp add: metric_events_def)
qed (simp add: metric_events_def)

section \<open>What is exported\<close>

lemma init_metrics:
  "InitMetrics prfx b new_metrics = Some (new_metrics\<lparr>m_backupEnabled := b, m_prefix := prfx,
     m_registered := map (\<lambda>m. prfx @ metric_name m) ([PushCounter, SentCounter, DumpCounter, QueuedDumps, GoodServers,
       BadServers, SendQueue, LastSentUnix, DumpDirBytes] @ (if b then [SentBkpCounter, DumpBkpCounter, QueuedBkpDumps,
       GoodBkpServers, BadBkpServers, SendBkpQueue, LastBkpSentUnix, DumpBkpDirBytes] else []))\<rparr>)"
  by (simp add: InitMetrics_def MustRegister_def new_metrics_def Let_def)

text \<open>
  The registration at the start succeeds, whatever the prefix, with the journal's metrics too. From then on the value of
  a metric depends only on the events of its own target, so traffic to the backup never shows in
  the metrics of the live target or the other way round; and a metric that has changed is exported.
\<close>

theorem metrics_kept_apart:
  assumes "InitMetrics prfx b new_metrics = Some s0"
    and "(if j then RegisterJournalMetrics s0 else Some s0) = Some s"
    and "\<not> j \<Longrightarrow> \<forall>x. JournalState (Some x) \<notin> set es"
  shows "m_values (metric_events es s) m = m_values (metric_events (filter (\<lambda>e. event_owner e = metric_owner m) es) s) m
    \<and> (m_values (metric_events es s) m \<noteq> m_values s m \<longrightarrow> prfx @ metric_name m \<in> set (m_registered s))"
proof
  show "m_values (metric_events es s) m = m_values (metric_events (filter (\<lambda>e. event_owner e = metric_owner m) es) s) m"
    by (rule metric_events_owner) simp_all
  have s0: "s0 = the (InitMetrics prfx b new_metrics)" using assms(1) by simp
  have s: "m_backupEnabled s = b" "m_registered s = m_registered s0 @
      (if j then map (\<lambda>m. prfx @ metric_name m) [JournalPending, JournalDirBytes] else [])"
    using assms(2) by (auto simp: s0 init_metrics RegisterJournalMetrics_def MustRegister_def Let_def split: if_splits)
  show "m_values (metric_events es s) m \<noteq> m_values s m \<longrightarrow> prfx @ metric_name m \<in> set (m_registered s)"
  proof (cases "metric_owner m = Backup_Target \<and> \<not> b \<or> m \<in> {JournalPending, JournalDirBytes} \<and> \<not> j")
    case True
    then show ?thesis
      using disabled_backup [of s m es] no_journal_event [of es m s] assms(3) s(1) by auto
  next
    case False
    then have "prfx @ metric_name m \<in> set (m_registered s)"
      unfolding s(2) s0 init_metrics by (cases m) (auto split: if_splits)
    then show ?thesis ..
  qed
qed

theorem metrics_kept_apart_witness:
  "\<exists>s0 s. InitMetrics ''p_'' True new_metrics = Some s0 \<and> RegisterJournalMetrics s0 = Some s
    \<and> m_values (metric_events [Received, Sent ''backup'', Sent [], InQueue ''backup'' 4, Sent [], JournalState (Some (Some 7, None))] s)
        SentCounter = m_values (metric_events [Sent [], Sent []] s) SentCounter
    \<and> m_values (metric_events [Sent [], Sent []] s) SentCounter = Fin 2"
proof -
  obtain s0 where s0: "InitMetrics ''p_'' True new_metrics = Some s0" by (simp add: init_metrics)
  obtain s where s: "RegisterJournalMetrics s0 = Some s" "m_values s SentCounter = Fin 0"
    using s0 unfolding init_metrics by (auto simp: RegisterJournalMetrics_def MustRegister_def Let_def new_metrics_def)
  let ?es = "[Received, Sent ''backup'', Sent [], InQueue ''backup'' 4, Sent [], JournalState (Some (Some 7, None))]"
  have "m_values (metric_events ?es s) SentCounter = m_values (metric_events [Sent [], Sent []] s) SentCounter"
    using metrics_kept_apart [OF s0, of True s ?es SentCounter] s(1)
    by (simp add: target_owner_def isBackupTarget_def)
  moreover have "m_values (metric_events [Sent [], Sent []] s) SentCounter = Fin 2"
    using s(2) round53_int [of 1] round53_int [of 2] by (simp add: metric_events_def metric_event_defs isBackupTarget_def)
  ultimately show ?thesis using s0 s(1) by blast
qed

end
