(* ===== verification/Load_Test.thy ===== *)
theory Load_Test
  imports Go_Float Go_Strings
begin

text \<open>
  Helpers of the load test: the ClickHouse that is down at times (load_mock_ch.go) and the fleet of sensors that
  send rows (load_payload.go). The floating-point measurements of the rows are left out.
\<close>

section \<open>A ClickHouse that is down at times\<close>

record mockCHOutage =
  oc_Kind :: string
  oc_After :: nanos
  oc_Duration :: nanos
  oc_Status :: int

record mockCHOptions =
  mo_Delay :: nanos
  mo_Jitter :: nanos
  mo_Outage :: mockCHOutage

definition outage_active :: "mockCHOutage \<Rightarrow> nanos \<Rightarrow> nanos \<Rightarrow> bool" where
  "outage_active oc now testStart =
     (let kind = to_lower (oc_Kind oc); start = testStart + oc_After oc in
      if kind \<in> {[], ''never'', ''0'', ''false''} then False
      else if kind \<in> {''always'', ''1'', ''true''} then
        (if 0 < oc_After oc \<and> now < start then False
         else if 0 < oc_Duration oc then now < start + oc_Duration oc
         else True)
      else if kind = ''window'' then
        (if now < start then False
         else if 0 < oc_Duration oc \<and> \<not> now < start + oc_Duration oc then False
         else True)
      else False)"

definition expectCHReceives :: "mockCHOutage \<Rightarrow> nanos \<Rightarrow> bool" where
  "expectCHReceives oc testDuration =
     (let kind = to_lower (oc_Kind oc) in
      if kind \<in> {[], ''never'', ''0'', ''false''} then True
      else if kind \<in> {''always'', ''1'', ''true''} then
        (if 0 < oc_After oc then True
         else if 0 < oc_Duration oc \<and> oc_Duration oc < testDuration then True
         else False)
      else if kind = ''window'' then oc_After oc < testDuration
      else True)"

text \<open>\<open>LOAD_TEST_EXPECT_CH\<close> overrides the expectation; \<open>expect\<close> is its value.\<close>

definition loadTestExpectCHTargetReceives :: "string \<Rightarrow> mockCHOutage \<Rightarrow> nanos \<Rightarrow> bool" where
  "loadTestExpectCHTargetReceives expect oc testDuration =
     (if expect = ''0'' then False else if expect = ''1'' then True else expectCHReceives oc testDuration)"

text \<open>\<open>Int63n\<close> gives some number below its argument, here \<open>random\<close> of it.\<close>

definition sleepDuration :: "(int \<Rightarrow> int) \<Rightarrow> mockCHOptions \<Rightarrow> nanos" where
  "sleepDuration random mo =
     (if mo_Delay mo \<le> 0 \<and> mo_Jitter mo \<le> 0 then 0
      else (let d = mo_Delay mo in if 0 < mo_Jitter mo then d + random (mo_Jitter mo) else d))"

text \<open>The handler of the mock server: the status and the text it answers, the sleep before, and the requests received.\<close>

definition mockCHHandler :: "(int \<Rightarrow> int) \<Rightarrow> mockCHOptions \<Rightarrow> nanos \<Rightarrow> nanos \<Rightarrow> int \<Rightarrow> (int \<times> string \<times> nanos) \<times> int" where
  "mockCHHandler random mo testStart now received =
     (let status = (if oc_Status (mo_Outage mo) = 0 then 503 else oc_Status (mo_Outage mo))
      in if outage_active (mo_Outage mo) now testStart
         then ((status, ''mock clickhouse unavailable'' @ [NL], 0), received)
         else ((200, [NL], max 0 (sleepDuration random mo)), received + 1))"

text \<open>
  The target is expected to receive requests exactly when it is up at some time of the test, except for a
  window: one that starts after the test is taken for an outage of all of it, and one that has neither
  beginning nor end for none.
\<close>

lemma expectation_right:
  assumes "0 < testDuration" "0 \<le> oc_After oc" "0 \<le> oc_Duration oc"
    and "to_lower (oc_Kind oc) = ''window'' \<Longrightarrow> oc_After oc < testDuration \<and> (0 < oc_After oc \<or> 0 < oc_Duration oc \<and> oc_Duration oc < testDuration)"
  shows "expectCHReceives oc testDuration \<longleftrightarrow> (\<exists>now. start \<le> now \<and> now < start + testDuration \<and> \<not> outage_active oc now start)"
    (is "?E = (\<exists>now. ?up now)")
proof -
  have up: "?up now \<Longrightarrow> \<exists>now. ?up now" for now by blast
  consider (up) "to_lower (oc_Kind oc) \<notin> {''always'', ''1'', ''true'', ''window''}"
    | (always) "to_lower (oc_Kind oc) \<in> {''always'', ''1'', ''true''}" | (window) "to_lower (oc_Kind oc) = ''window''" by blast
  then show ?thesis
  proof cases
    case up
    then have "?E" "\<not> outage_active oc start start" by (auto simp: expectCHReceives_def outage_active_def Let_def)
    with assms(1) up show ?thesis by (metis less_add_same_cancel1 order_refl)
  next
    case always
    then have e: "?E = (0 < oc_After oc \<or> 0 < oc_Duration oc \<and> oc_Duration oc < testDuration)"
      and act: "\<And>now. outage_active oc now start = (if 0 < oc_After oc \<and> now < start + oc_After oc then False
          else if 0 < oc_Duration oc then now < start + oc_After oc + oc_Duration oc else True)"
      by (auto simp: expectCHReceives_def outage_active_def Let_def)
    show ?thesis
    proof (cases "0 < oc_After oc")
      case True
      then have "?E" "?up start" using e act [of start] assms(1) by simp_all
      then show ?thesis by blast
    next
      case False
      then have z: "oc_After oc = 0" using assms(2) by simp
      show ?thesis
      proof (cases "0 < oc_Duration oc \<and> oc_Duration oc < testDuration")
        case True
        then have "?E" "?up (start + oc_Duration oc)" using e act [of "start + oc_Duration oc"] z by simp_all
        then show ?thesis by blast
      next
        case False
        then have "\<not> ?E" "\<And>now. \<not> ?up now" using e z assms(3) unfolding act z by auto
        then show ?thesis by blast
      qed
    qed
  next
    case window
    then have e: "?E = (oc_After oc < testDuration)"
      and act: "\<And>now. outage_active oc now start = (\<not> now < start + oc_After oc
          \<and> \<not> (0 < oc_Duration oc \<and> \<not> now < start + oc_After oc + oc_Duration oc))"
      by (auto simp: expectCHReceives_def outage_active_def Let_def)
    note w = assms(4) [OF window]
    show ?thesis
    proof (cases "0 < oc_After oc")
      case True
      then have "?up start" using act [of start] assms(1) by simp
      with e w show ?thesis by blast
    next
      case False
      with w assms(2) have "?up (start + oc_Duration oc)" unfolding act by simp
      with e w show ?thesis by blast
    qed
  qed
qed

lemma expectation_wrong:
  "expectCHReceives \<lparr>oc_Kind = ''window'', oc_After = 0, oc_Duration = 0, oc_Status = 503\<rparr> second"
  "outage_active \<lparr>oc_Kind = ''window'', oc_After = 0, oc_Duration = 0, oc_Status = 503\<rparr> (start + k) start" if "0 \<le> k" for k
  using that by (simp_all add: expectCHReceives_def outage_active_def to_lower_def ascii_lower_def second_def Let_def)

section \<open>Sensors\<close>

record loadSensorDevice =
  ls_mac :: string
  ls_phase :: f64
  ls_ip :: string

definition hex_digit :: "nat \<Rightarrow> char" where
  "hex_digit n = ''0123456789abcdef'' ! n"

fun hex_digits :: "nat \<Rightarrow> string" where
  "hex_digits n = (if n < 16 then [hex_digit n] else hex_digits (n div 16) @ [hex_digit (n mod 16)])"

declare hex_digits.simps [simp del]

text \<open>The verb \<open>%0wx\<close>.\<close>

definition format_hex :: "nat \<Rightarrow> nat \<Rightarrow> string" where
  "format_hex w n = (let s = hex_digits n in replicate (w - length s) (CHR ''0'') @ s)"

definition newLoadSensorFleet :: "nat \<Rightarrow> loadSensorDevice list" where
  "newLoadSensorFleet macCount = map (\<lambda>i. \<lparr>ls_mac = format_hex 12 i, ls_phase = f64_mult (f64_of_int (int i)) (Fin (round53 (17 / 1000))),
     ls_ip = ''192.168.1.'' @ itoa (int (i mod 250) + 2)\<rparr>) [0..<macCount]"

definition escapeSQLString :: "string \<Rightarrow> string" where
  "escapeSQLString s = concat (map (\<lambda>c. if c = CHR 0x27 then [CHR 0x27, CHR 0x27] else [c]) s)"

text \<open>The value of a hexadecimal numeral, to read the addresses back.\<close>

definition hex_value :: "string \<Rightarrow> nat" where
  "hex_value s = foldl (\<lambda>v c. 16 * v + (if is_digit_char c then of_char c - 48 else of_char c - 87)) 0 s"

lemma hex_digit_value: "n < 16 \<Longrightarrow> (if is_digit_char (hex_digit n) then of_char (hex_digit n) - 48 else of_char (hex_digit n) - 87) = n"
proof -
  have "\<forall>n \<in> {..<16}. (if is_digit_char (hex_digit n) then of_char (hex_digit n) - 48 else of_char (hex_digit n) - 87) = n"
    by code_simp
  then show "n < 16 \<Longrightarrow> ?thesis" by simp
qed

lemma hex_value_digits: "hex_value (hex_digits n) = n"
proof (induction n rule: hex_digits.induct)
  case (1 n)
  show ?case
  proof (cases "n < 16")
    case True
    then show ?thesis using hex_digit_value [OF True] by (subst hex_digits.simps) (simp add: hex_value_def)
  next
    case False
    have "hex_value (hex_digits n) = 16 * hex_value (hex_digits (n div 16)) + n mod 16"
      using False hex_digit_value [of "n mod 16"] by (subst hex_digits.simps) (simp add: hex_value_def)
    then show ?thesis using 1 False by simp
  qed
qed

lemma hex_value_format: "hex_value (format_hex w n) = n"
proof -
  have "hex_value (replicate k (CHR ''0'') @ s) = hex_value s" for k s
    by (induction k) (simp_all add: hex_value_def is_digit_char_def)
  then show ?thesis by (simp add: format_hex_def Let_def hex_value_digits)
qed

lemma fleet_macs_distinct: "distinct (map ls_mac (newLoadSensorFleet n))"
proof -
  have "inj_on (format_hex 12) A" for A by (rule inj_on_inverseI) (rule hex_value_format)
  then show ?thesis by (simp add: newLoadSensorFleet_def distinct_map comp_def)
qed

section \<open>The rate of a load test\<close>

record loadSensorConfig =
  lc_InsertInto :: string
  lc_MACCount :: int
  lc_Interval :: nanos
  lc_TargetRPS :: f64

text \<open>The method \<open>Seconds\<close> of a duration.\<close>

definition duration_Seconds :: "nanos \<Rightarrow> f64" where
  "duration_Seconds d = f64_add (f64_of_int (sgn d * (\<bar>d\<bar> div second)))
     (f64_div (f64_of_int (sgn d * (\<bar>d\<bar> mod second))) (f64_of_int second))"

definition ExpectedRPS :: "loadSensorConfig \<Rightarrow> f64" where
  "ExpectedRPS c = (if f64_less (Fin 0) (lc_TargetRPS c) then lc_TargetRPS c
     else if lc_Interval c \<le> 0 then Fin 0
     else f64_div (f64_of_int (lc_MACCount c)) (duration_Seconds (lc_Interval c)))"

text \<open>\<^term>\<open>None\<close>: the language leaves the interval open.\<close>

definition applyTargetRPS :: "f64 \<Rightarrow> loadSensorConfig \<Rightarrow> loadSensorConfig option" where
  "applyTargetRPS rps cfg =
     (if \<not> f64_less (Fin 0) rps then (if rps = NaN then
        map_option (\<lambda>d. cfg\<lparr>lc_TargetRPS := rps, lc_Interval := d\<rparr>) (f64_duration NaN) else Some cfg)
      else (let secs = f64_div (f64_of_int (lc_MACCount cfg)) rps;
                secs = (if f64_less secs (Fin (round53 (1 / 1000))) then Fin (round53 (1 / 1000)) else secs)
            in map_option (\<lambda>d. cfg\<lparr>lc_TargetRPS := rps, lc_Interval := d\<rparr>)
                 (f64_duration (f64_mult secs (f64_of_int second)))))"

lemma target_rate_examples:
  "lc_MACCount c = 300 \<Longrightarrow> applyTargetRPS (Fin 150) c = Some (c\<lparr>lc_TargetRPS := Fin 150, lc_Interval := 2 * second\<rparr>)"
  "lc_MACCount c = 300 \<Longrightarrow> lc_Interval c = second \<Longrightarrow> lc_TargetRPS c = Fin 0 \<Longrightarrow> ExpectedRPS c = Fin 300"
proof -
  have "f64_of_int 300 = Fin 300" "f64_of_int second = Fin 1000000000" "f64_of_int 1 = Fin 1" "f64_of_int 0 = Fin 0"
    using round53_int [of 300] round53_int [of second] round53_int [of 1] round53_int [of 0]
    by (simp_all add: f64_of_int_def second_def)
  moreover have "round53 2 = 2" "round53 2000000000 = 2000000000" "round53 300 = 300" "round53 0 = 0" "round53 1 = 1"
    using round53_int [of 2] round53_int [of 2000000000] round53_int [of 300] round53_int [of 0] round53_int [of 1] by simp_all
  moreover have "round53 (1 / 1000) = 1152921504606847 / 1152921504606846976" by code_simp
  ultimately show
    "lc_MACCount c = 300 \<Longrightarrow> applyTargetRPS (Fin 150) c = Some (c\<lparr>lc_TargetRPS := Fin 150, lc_Interval := 2 * second\<rparr>)"
    "lc_MACCount c = 300 \<Longrightarrow> lc_Interval c = second \<Longrightarrow> lc_TargetRPS c = Fin 0 \<Longrightarrow> ExpectedRPS c = Fin 300"
    by (simp_all add: applyTargetRPS_def ExpectedRPS_def duration_Seconds_def Let_def second_def truncate_rat_def max_duration_def)
qed

end
