(* ===== verification/Load_Settings.thy ===== *)
theory Load_Settings
  imports Load_Test Go_Conv
begin

text \<open>
  The settings of the load test (load_mock_ch.go, load_payload.go): durations, outages and time limits from the environment, and the
  texts they are logged with. A
  setting that the helpers refuse fails the test, the value \<^term>\<open>None\<close>.
\<close>

section \<open>Durations as text\<close>

text \<open>\<open>time.ParseDuration\<close>. Sums and products are those of \<open>uint64\<close>; the fraction of a unit is computed in \<open>float64\<close>.\<close>

fun leadingInt :: "int \<Rightarrow> string \<Rightarrow> (int \<times> string) option" where
  "leadingInt x [] = Some (x, [])"
| "leadingInt x (c # s) =
     (if \<not> is_digit_char c then Some (x, c # s)
      else if 922337203685477580 < x then None
      else (let x = x * 10 + digit_val c in if 9223372036854775808 < x then None else leadingInt x s))"

text \<open>The digits after the point; those that would not fit are passed over.\<close>

fun leadingFraction :: "bool \<Rightarrow> int \<Rightarrow> f64 \<Rightarrow> string \<Rightarrow> int \<times> f64 \<times> string" where
  "leadingFraction overflow x scale [] = (x, scale, [])"
| "leadingFraction overflow x scale (c # s) =
     (if \<not> is_digit_char c then (x, scale, c # s)
      else if overflow \<or> 922337203685477580 < x then leadingFraction True x scale s
      else (let y = x * 10 + digit_val c
            in if 9223372036854775808 < y then leadingFraction True x scale s
               else leadingFraction False y (f64_mult scale (Fin 10)) s))"

text \<open>The micro sign and the Greek letter are two bytes each.\<close>

definition unitMap :: "string \<Rightarrow> int option" where
  "unitMap = map_of [(''ns'', 1), (''us'', 1000), ([CHR 0xC2, CHR 0xB5, CHR ''s''], 1000), ([CHR 0xCE, CHR 0xBC, CHR ''s''], 1000),
     (''ms'', 1000000), (''s'', 1000000000), (''m'', 60000000000), (''h'', 3600000000000)]"

definition fraction_part :: "int \<Rightarrow> f64 \<Rightarrow> int \<Rightarrow> int" where
  "fraction_part f scale unit =
     (case f64_mult (f64_of_int f) (f64_div (f64_of_int unit) scale) of Fin x \<Rightarrow> truncate_rat x | _ \<Rightarrow> 0)"

text \<open>One number with its unit, and the rest of the text.\<close>

definition next_unit :: "string \<Rightarrow> (int \<times> string) option" where
  "next_unit s =
     (if \<not> (hd s = CHR ''.'' \<or> is_digit_char (hd s)) then None
      else (case leadingInt 0 s of
          None \<Rightarrow> None
        | Some (v, s1) \<Rightarrow>
            (case (if s1 \<noteq> [] \<and> hd s1 = CHR ''.'' then leadingFraction False 0 (Fin 1) (tl s1) else (0, Fin 1, s1)) of
               (f, scale, s2) \<Rightarrow>
                 (let pre = (length s1 \<noteq> length s);
                      post = (s1 \<noteq> [] \<and> hd s1 = CHR ''.'' \<and> length s2 \<noteq> length (tl s1));
                      u = takeWhile (\<lambda>c. c \<noteq> CHR ''.'' \<and> \<not> is_digit_char c) s2;
                      rest = drop (length u) s2
                  in if \<not> pre \<and> \<not> post then None
                     else if u = [] then None
                     else (case unitMap u of
                         None \<Rightarrow> None
                       | Some unit \<Rightarrow>
                           (if 9223372036854775808 div unit < v then None
                            else (let v = v * unit;
                                      v = (if 0 < f then v + fraction_part f scale unit else v)
                                  in if 0 < f \<and> 9223372036854775808 < v then None else Some (v, rest))))))))"

lemma leadingInt_rest: "leadingInt x s = Some (v, r) \<Longrightarrow> length r \<le> length s"
  by (induction x s rule: leadingInt.induct) (auto simp: Let_def split: if_splits)

lemma leadingFraction_rest: "leadingFraction b x sc s = (f, sc', r) \<Longrightarrow> length r \<le> length s"
  by (induction b x sc s rule: leadingFraction.induct) (auto simp: Let_def split: if_splits)

lemma next_unit_rest: "next_unit s = Some (v, r) \<Longrightarrow> length r < length s"
proof -
  assume n: "next_unit s = Some (v, r)"
  then obtain v1 s1 where s1: "leadingInt 0 s = Some (v1, s1)" by (auto simp: next_unit_def split: if_splits option.splits)
  obtain f sc s2 where s2: "(if s1 \<noteq> [] \<and> hd s1 = CHR ''.'' then leadingFraction False 0 (Fin 1) (tl s1) else (0, Fin 1, s1)) = (f, sc, s2)"
    by (metis prod_cases3)
  have "length s2 \<le> length s1"
    using s2 leadingFraction_rest [of False 0 "Fin 1" "tl s1"] by (cases s1) (auto split: if_splits)
  moreover have "length s1 \<le> length s" by (rule leadingInt_rest [OF s1])
  moreover have "r = drop (length (takeWhile (\<lambda>c. c \<noteq> CHR ''.'' \<and> \<not> is_digit_char c) s2)) s2"
    "takeWhile (\<lambda>c. c \<noteq> CHR ''.'' \<and> \<not> is_digit_char c) s2 \<noteq> []"
    using n s1 s2 by (auto simp: next_unit_def Let_def split: if_splits option.splits)
  ultimately show ?thesis by (cases s2) (auto split: if_splits)
qed

function sum_units :: "int \<Rightarrow> string \<Rightarrow> int option" where
  "sum_units d s = (if s = [] then Some d
     else (case next_unit s of
         None \<Rightarrow> None
       | Some (v, rest) \<Rightarrow> (let d = (d + v) mod 18446744073709551616 in if 9223372036854775808 < d then None else sum_units d rest)))"
  by pat_completeness auto

termination
  by (relation "measure (\<lambda>(d, s). length s)") (auto dest: next_unit_rest)

declare sum_units.simps [simp del]

definition ParseDuration :: "string \<Rightarrow> nanos option" where
  "ParseDuration s =
     (let signed = (s \<noteq> [] \<and> (hd s = CHR ''-'' \<or> hd s = CHR ''+''));
          neg = (s \<noteq> [] \<and> hd s = CHR ''-'');
          s = (if signed then tl s else s)
      in if s = ''0'' then Some 0
         else if s = [] then None
         else (case sum_units 0 s of
             None \<Rightarrow> None
           | Some d \<Rightarrow> (if neg then Some (- d) else if 9223372036854775807 < d then None else Some d)))"

lemma ParseDuration_examples:
  "ParseDuration ''1.5s'' = Some 1500000000" "ParseDuration ''2h45m'' = Some 9900000000000" "ParseDuration ''-.5ms'' = Some (- 500000)"
  "ParseDuration ''10'' = None" "ParseDuration ''1 s'' = None" "ParseDuration ''9223372036854775808ns'' = None"
  by code_simp+

text \<open>\<open>Duration.String\<close>: the digits of a fraction without the zeros at its end, and the units.\<close>

fun fmtFrac :: "nat \<Rightarrow> string \<Rightarrow> int \<Rightarrow> string \<times> int" where
  "fmtFrac 0 ds v = (if ds = [] then [] else CHR ''.'' # ds, v)"
| "fmtFrac (Suc n) ds v =
     fmtFrac n (if ds \<noteq> [] \<or> v mod 10 \<noteq> 0 then itoa (v mod 10) @ ds else ds) (v div 10)"

definition Duration_String :: "nanos \<Rightarrow> string" where
  "Duration_String d =
     (let u = \<bar>d\<bar>; sign = (if d < 0 then ''-'' else [])
      in if u = 0 then ''0s''
         else if u < second then
           (case (if u < 1000 then (0, ''n'') else if u < 1000000 then (3, [CHR 0xC2, CHR 0xB5]) else (6, ''m'')) of
              (prec, unit) \<Rightarrow> (case fmtFrac prec [] u of (f, v) \<Rightarrow> sign @ itoa v @ f @ unit @ ''s''))
         else
           (case fmtFrac 9 [] u of (f, v) \<Rightarrow>
              (let h = v div 3600; m = v div 60 mod 60
               in sign @ (if 0 < h then itoa h @ ''h'' else []) @ (if 0 < v div 60 then itoa m @ ''m'' else [])
                    @ itoa (v mod 60) @ f @ ''s'')))"

lemma Duration_String_examples:
  "Duration_String 1500000000 = ''1.5s''" "Duration_String 3600000000000 = ''1h0m0s''" "Duration_String (- 20500000) = ''-20.5ms''"
  by code_simp+

definition delayLog :: "mockCHOptions \<Rightarrow> string" where
  "delayLog mo =
     (if mo_Delay mo \<le> 0 \<and> mo_Jitter mo \<le> 0 then ''0''
      else if 0 < mo_Jitter mo then Duration_String (mo_Delay mo) @ ''+jitter<='' @ Duration_String (mo_Jitter mo)
      else Duration_String (mo_Delay mo))"

definition outage_summary :: "mockCHOutage \<Rightarrow> string" where
  "outage_summary oc =
     (if oc_Kind oc = [] \<or> oc_Kind oc = ''never'' then ''never''
      else oc_Kind oc
        @ (if 0 < oc_After oc then '' after='' @ Duration_String (oc_After oc) else [])
        @ (if 0 < oc_Duration oc then '' for='' @ Duration_String (oc_Duration oc) else [])
        @ (if 0 < oc_Status oc then '' status='' @ itoa (oc_Status oc) else []))"

section \<open>Settings\<close>

type_synonym test_env = "string \<Rightarrow> string"

text \<open>The inner option: whether the variable is set.\<close>

definition parseMockCHDurationEnv :: "test_env \<Rightarrow> string \<Rightarrow> nanos option option" where
  "parseMockCHDurationEnv env name =
     (if env name = [] then Some None
      else (case ParseDuration (env name) of
          None \<Rightarrow> None
        | Some d \<Rightarrow> (if 0 \<le> d then Some (Some d) else None)))"

text \<open>A duration from the first of two variables that is set, or zero. The second is not looked at where the first is set.\<close>

definition duration_of :: "test_env \<Rightarrow> string \<Rightarrow> string \<Rightarrow> nanos option" where
  "duration_of env name other = (case parseMockCHDurationEnv env name of
     None \<Rightarrow> None
   | Some (Some d) \<Rightarrow> Some d
   | Some None \<Rightarrow> map_option (\<lambda>d. case d of Some d \<Rightarrow> d | None \<Rightarrow> 0) (parseMockCHDurationEnv env other))"

definition no_outage :: mockCHOutage where
  "no_outage = \<lparr>oc_Kind = [], oc_After = 0, oc_Duration = 0, oc_Status = 0\<rparr>"

definition parseMockCHOutageEnv :: "test_env \<Rightarrow> string \<Rightarrow> mockCHOutage option" where
  "parseMockCHOutageEnv env pfx =
     (let kind = (if env pfx = [] then env ''LOAD_TEST_CH_DOWN'' else env pfx)
      in if kind = [] then Some no_outage
         else (case duration_of env (pfx @ ''_AFTER'') ''LOAD_TEST_CH_DOWN_AFTER'' of
             None \<Rightarrow> None
           | Some after \<Rightarrow> (case duration_of env (pfx @ ''_FOR'') ''LOAD_TEST_CH_DOWN_FOR'' of
               None \<Rightarrow> None
             | Some duration \<Rightarrow>
                 (let status = (if env (pfx @ ''_STATUS'') = [] then env ''LOAD_TEST_CH_DOWN_STATUS'' else env (pfx @ ''_STATUS''));
                      oc = \<lparr>oc_Kind = kind, oc_After = after, oc_Duration = duration, oc_Status = 503\<rparr>
                  in if status = [] then Some oc
                     else (case Atoi status of (v, ok) \<Rightarrow> if ok \<and> 400 \<le> v then Some (oc\<lparr>oc_Status := v\<rparr>) else None)))))"

text \<open>The delay of a target: the variable for both counts where its own is not set.\<close>

definition delay_of :: "test_env \<Rightarrow> string \<Rightarrow> nanos option \<Rightarrow> nanos option \<Rightarrow> nanos" where
  "delay_of env name own both =
     (let d = (case own of Some d \<Rightarrow> d | None \<Rightarrow> 0)
      in case both of Some b \<Rightarrow> (if env name = [] then b else d) | None \<Rightarrow> d)"

definition loadTestCHDelays :: "test_env \<Rightarrow> (mockCHOptions \<times> mockCHOptions) option" where
  "loadTestCHDelays env =
     (case (parseMockCHDurationEnv env ''LOAD_TEST_CH_DELAY_JITTER'', parseMockCHDurationEnv env ''LOAD_TEST_CH_DELAY_LIVE'',
        parseMockCHDurationEnv env ''LOAD_TEST_CH_DELAY_BACKUP'', parseMockCHDurationEnv env ''LOAD_TEST_CH_DELAY'') of
        (Some j, Some l, Some b, Some both) \<Rightarrow>
          (let jitter = (case j of Some d \<Rightarrow> d | None \<Rightarrow> 0)
           in case (parseMockCHOutageEnv env ''LOAD_TEST_CH_DOWN_LIVE'', parseMockCHOutageEnv env ''LOAD_TEST_CH_DOWN_BACKUP'') of
                (Some ol, Some ob) \<Rightarrow>
                  (case (if oc_Kind ol = [] then parseMockCHOutageEnv env ''LOAD_TEST_CH_DOWN'' else Some ol) of
                     None \<Rightarrow> None
                   | Some ol \<Rightarrow>
                       Some (\<lparr>mo_Delay = delay_of env ''LOAD_TEST_CH_DELAY_LIVE'' l both, mo_Jitter = jitter, mo_Outage = ol\<rparr>,
                             \<lparr>mo_Delay = delay_of env ''LOAD_TEST_CH_DELAY_BACKUP'' b both, mo_Jitter = jitter, mo_Outage = ob\<rparr>))
              | _ \<Rightarrow> None)
      | _ \<Rightarrow> None)"

definition timeout_of :: "test_env \<Rightarrow> string \<Rightarrow> int \<Rightarrow> int option" where
  "timeout_of env name v =
     (if env name = [] then Some v else (case Atoi (env name) of (n, ok) \<Rightarrow> if ok \<and> 0 < n then Some n else None))"

definition loadTestCHSenderTimeouts :: "test_env \<Rightarrow> (int \<times> int) option" where
  "loadTestCHSenderTimeouts env =
     (case (timeout_of env ''LOAD_TEST_CH_DOWN_TIMEOUT'' 10, timeout_of env ''LOAD_TEST_CH_CONNECT_TIMEOUT'' 60) of
        (Some d, Some c) \<Rightarrow> Some (d, c)
      | _ \<Rightarrow> None)"

definition loadSensorInsertInto :: string where
  "loadSensorInsertInto = ''INSERT INTO air_readings (co, no2, o3, pm1, pm4, pm25, pm10, t, p, voc, h, ch2o, abs_h, co2, ct, noise, light, people, voc_index, nox_index, mac, ts, status)''"

definition defaultLoadSensorConfig :: loadSensorConfig where
  "defaultLoadSensorConfig = \<lparr>lc_InsertInto = loadSensorInsertInto, lc_MACCount = 300, lc_Interval = second, lc_TargetRPS = Fin 0\<rparr>"

section \<open>What the settings hold\<close>

lemma duration_of_nonneg: "duration_of env name other = Some d \<Longrightarrow> 0 \<le> d"
  by (auto simp: duration_of_def parseMockCHDurationEnv_def split: option.splits if_splits)

text \<open>
  An outage that was read has times that are not negative and the status of a failure, as \<open>expectation_right\<close> and the mock server
  need them.
\<close>

lemma outage_read:
  assumes "parseMockCHOutageEnv env pfx = Some oc"
  shows "0 \<le> oc_After oc" "0 \<le> oc_Duration oc" "oc_Kind oc = [] \<or> 400 \<le> oc_Status oc"
proof -
  from assms have "oc = no_outage \<or> (\<exists>k a d s. duration_of env (pfx @ ''_AFTER'') ''LOAD_TEST_CH_DOWN_AFTER'' = Some a
      \<and> duration_of env (pfx @ ''_FOR'') ''LOAD_TEST_CH_DOWN_FOR'' = Some d
      \<and> oc = \<lparr>oc_Kind = k, oc_After = a, oc_Duration = d, oc_Status = s\<rparr> \<and> 400 \<le> s)"
    by (auto simp: parseMockCHOutageEnv_def Let_def split: if_splits option.splits prod.splits)
  then show "0 \<le> oc_After oc" "0 \<le> oc_Duration oc" "oc_Kind oc = [] \<or> 400 \<le> oc_Status oc"
    using duration_of_nonneg by (auto simp: no_outage_def)
qed

text \<open>The last look at the common variable changes nothing: a target without an outage had already looked there.\<close>

lemma live_outage_read_once:
  assumes "loadTestCHDelays env = Some (l, b)"
  shows "parseMockCHOutageEnv env ''LOAD_TEST_CH_DOWN_LIVE'' = Some (mo_Outage l)"
    "parseMockCHOutageEnv env ''LOAD_TEST_CH_DOWN_BACKUP'' = Some (mo_Outage b)"
proof -
  have none: "parseMockCHOutageEnv env ''LOAD_TEST_CH_DOWN'' = Some no_outage \<and> oc = no_outage"
    if "parseMockCHOutageEnv env p = Some oc" "oc_Kind oc = []" for p oc
    using that by (auto simp: parseMockCHOutageEnv_def Let_def no_outage_def split: if_splits option.splits prod.splits)
  from assms show "parseMockCHOutageEnv env ''LOAD_TEST_CH_DOWN_LIVE'' = Some (mo_Outage l)"
    "parseMockCHOutageEnv env ''LOAD_TEST_CH_DOWN_BACKUP'' = Some (mo_Outage b)"
    by (auto simp: loadTestCHDelays_def Let_def split: option.splits if_splits dest: none)
qed

end
