(* ===== verification/Spec2Isabelle.thy ===== *)
theory Spec2Isabelle
  imports Journal_Props Dumper_Props Clickhouse_Props Locks Collector_Locks Collector_Props Decompress_Props
    Config_Props Log_Text Response_Headers Server_Props System_Props Restart_Props Shutdown_Props
    Turns_Props Process_End_Props Routes Command_Line Rate_Limiter Metrics Load_Settings
begin

text \<open>
  A verification of clickhouse-bulk (package main under src/), a proxy that takes inserts for
  ClickHouse over HTTP, collects them into batches and sends these on.

  \<^bold>\<open>The program.\<close> The handler of POST / (server.go) reads and decompresses a body, decides whether
  it is an insert, writes its record to a write-ahead log (journal.go) and answers 200; a
  goroutine then gives it to the collector (collector.go), which keeps the rows of a table until
  there are enough of them or its timer fires, and sends them as one request to the queue of
  each target (clickhouse.go, dual_sender.go). The worker of a target posts the request to a
  server, and on failure writes it to a file (dump.go); then it acknowledges the records of the
  journal. A timer replays the files. At start-up the journal hands back what was not
  acknowledged. An insert can also wait for the answer of ClickHouse (sync_insert.go).

  \<^bold>\<open>Theories and sources.\<close> Every definition stands for the function, method or type of the same
  name; a loop is a recursive function of its own.
  \<^item> \<open>Prelude\<close>: basic types, collections of rules, runs of operations. \<open>Go_Strings\<close>, \<open>Go_Codec\<close>,
    \<open>Go_Path\<close>, \<open>Go_Time\<close>, \<open>Go_Conv\<close>, \<open>Go_IO\<close>, \<open>Go_Float\<close>: what the program uses of Go and its library (strings,
    JSON, base64 and URL encodings, paths, durations with saturation, numbers, readers, \<open>float64\<close>).
  \<^item> \<open>Journal\<close> (journal.go): the record \<open>journal\<close> is the Go object, \<open>journal_dir\<close> its two files with
    the failures that the next system calls will have; an operation returns an error or a value
    with both new states. \<open>Journal_Facts\<close>: invariant and effect of each operation. \<open>Durable_Log\<close>: the
    contract of a durable log, a locale; \<open>Journal_Log\<close> interprets it on the journal with restarts.
    \<open>Journal_Props\<close>.
  \<^item> \<open>Dumper\<close> (dump.go): the record \<open>FileDumper\<close> and the file system \<open>disk\<close>. \<open>Dumper_Facts\<close>: paths, writes,
    deletions, the replay under any failures. \<open>Dumper_Store\<close>: which texts a directory holds and that no
    operation loses one. \<open>Dumper_Props\<close>.
  \<^item> \<open>Sender\<close> (sender.go): requests, the interface, and the locales \<open>batch_queue\<close> and \<open>sender\<close> with what its
    clients rely on. \<open>Clickhouse\<close> (clickhouse.go, dual_sender.go, status.go): a target with its servers,
    queue, dumper and journal, the record \<open>worker\<close>; \<open>runStep\<close> is one turn of \<open>Run\<close>. \<open>Clickhouse_Facts\<close>
    interprets the locales on one target and on the pair. \<open>Clickhouse_Props\<close>.
  \<^item> \<open>Locks\<close>: the two mutexes of a target, and threads that take them in any interleaving.
  \<^item> \<open>Opaque\<close> (opaque.go), \<open>Collector\<close> (collector.go). \<open>Collector_Facts\<close>: batches of one table against a
    reference, and the journal numbers of all tables, for any \<open>batch_queue\<close>. \<open>Collector_Carry\<close>: the text of
    an insert stays with its number. \<open>Collector_Props\<close>. \<open>Table_Threads\<close>: one table used by many goroutines, interleaved
    where its mutex is free. \<open>Collector_Locks\<close>: the locks of the collector and its tables.
  \<^item> \<open>Decompress\<close>, \<open>Decompress_Props\<close> (decompress.go); \<open>Config\<close>, \<open>Config_Props\<close> (utils.go); \<open>Log_Text\<close>
    (utils_log.go); \<open>Response_Headers\<close> (response_headers.go).
  \<^item> \<open>Server\<close> (server.go, sync_insert.go): the handler of POST / and the goroutines. \<open>Lifecycle\<close> (server.go):
    status, manual replay, start, end. \<open>Server_Facts\<close>, \<open>Target_Facts\<close>: what each operation does to the
    records the journal still has and to the texts that have arrived. \<open>Server_Props\<close>.
  \<^item> \<open>System\<close>: the whole program as a step relation. A step is a request, a goroutine, a tick of a table,
    a flush, a cleaning, a turn of a worker, a turn of the replay of either target, or a manual
    replay; \<open>sys_reach\<close> are the states reached by steps. \<open>System_Facts\<close>: each step keeps the invariant and
    each insert. \<open>System_Props\<close>.
  \<^item> \<open>Turns\<close>: the same program with worker turns, inserts that wait and the hand-over of batches cut into steps
    (\<open>turn_next\<close>) that interleave with everything else; \<open>turn_reach\<close> are the states reached. \<open>Turns_Facts\<close>: each step keeps
    the invariant and each insert, and the steps of \<open>System\<close> are uninterrupted turns. \<open>Turns_Props\<close>.
  \<^item> \<open>Restart\<close>, \<open>Restart_Props\<close>: a process that starts on the journal of a dead one. \<open>Shutdown\<close>,
    \<open>Shutdown_Props\<close>: the orderly end, and a start after it. \<open>Command_Line\<close> (main.go): flags, exit codes, and the start from them.
  \<^item> \<open>Routes\<close> (server.go, \<open>InitServer\<close>): any request, its handler, and what it can change.
  \<^item> \<open>Process_End\<close>, \<open>Process_End_Props\<close> (server.go, main.go): the goroutine that waits for a signal and the main one as they end the process,
    with all steps of \<open>Turns\<close> in between (\<open>end_step\<close>; \<open>ending\<close> says how far they are).
  \<^item> \<open>Rate_Limiter\<close> (rate_limiter.go), \<open>Metrics\<close> (metrics.go), \<open>Load_Test\<close>, \<open>Load_Settings\<close> (load_mock_ch.go, load_payload.go).

  \<^bold>\<open>What is shown.\<close> The journal refines a durable log: what it accepted is handed back after any run of
  its operations and restarts until it is acknowledged. The collector sends each number and each
  row once and in order. The worker and the replay never drop a batch, whatever fails. Put
  together: an insert answered 200 is in every reachable state in the journal, in a dump, or was
  accepted by ClickHouse, however the goroutines interleave, whatever is requested over HTTP, and at whatever point the process ends; and a start after that, from
  the command line on, puts every pending record on its way exactly once. Further: the rate of queries, limits of bodies, checks of the configuration, the parsing of inserts, the choice of
  servers, when queries, replays and the end of the program terminate, and when not; that the collector
  never blocks itself; and the cases
  in which the code falls short of this, as theorems: among them that the process can exit before it has drained.

  \<^bold>\<open>Parameters.\<close> Code outside src/ is an argument: the queue package (\<open>queue_api\<close>, with the hypothesis
  \<open>fifo_api\<close> that it is a first-in-first-out queue), the clock and the posts (\<open>env\<close>, any functions), the decoders
  (\<open>codecs\<close>, any functions), the decoding of the configuration file (any function), the router of the web framework (\<open>router_ok\<close>: a
  request reaches a handler registered for its method and a pattern that its path matches, if there is one). File operations
  take their failures from a list in the state, and every list is allowed where a statement says so.

  \<^bold>\<open>Bounds.\<close> There is no fuel. Loops that need not end (\<open>sendLoop\<close>, \<open>listenTick\<close>, \<open>waitFlush\<close>, \<open>drainLoop\<close>)
  are partial functions with the value \<^term>\<open>None\<close> for not returning, and the theorems say when they return. Record numbers
  are 64-bit words; statements on appends ask that they have not run out. A panic is a value (\<open>JPanic\<close>, \<open>DPanic\<close>,
  \<^term>\<open>None\<close>). White space and the folding of case are those of ASCII.

  \<^bold>\<open>Interleaving.\<close> Each step of \<open>System\<close> runs to its end before the next. In \<open>Turns\<close> the worker of the live target is cut after
  taking a request, after the answer of ClickHouse, before the acknowledgement and before it tells the wait group,
  an insert that waits is cut after its append and after the answer, and an operation of the collector before each batch it
  hands to the queues. What remains whole there: a call of \<open>SendQuery\<close>; the append of an insert with the start of its goroutine,
  which may then be delayed as long as one likes; the operation on the tables up to its first batch, under their mutexes (a
  \<open>FlushAll\<close> cuts all its batches, then sends them; single ticks may be used for other orders); and the replays, which hold the dumper's mutex.
  \<open>Table_Threads\<close> interleaves the calls on one table; \<open>Rate_Limiter\<close> the goroutines that wait for a token;
  \<open>Locks\<close> looks at the mutexes of a target alone; \<open>pollStep\<close> stops a worker between taking a request and handling it.
  In \<open>Process_End\<close> closing the journal and exiting are one step, and requests may still come while the process ends. A tick that
  falls together with the removal of its table, and may still flush it, is left out.

  \<^bold>\<open>Not modelled.\<close> The waiting of the rate limiter within a query (the clock is any function, so it can pass any time there);
  the places that report to the metrics and the functions that only feed them (\<open>DirBytes\<close>, \<open>updateDirMetrics\<close>); of the load test
  the rows (\<open>math.Sin\<close>, the verb %g); the handlers of other packages (metrics, pprof), TLS and log lines; \<open>fakeSender\<close> of sender.go (a test double).
\<close>

end
